(* ===== verification/Prelude.thy ===== *)
theory Prelude
  imports Main "HOL-Library.AList"
begin

section \<open>Prelude: Go strings, integers and results\<close>

text \<open>
  What every component shares. Go strings and byte slices are HOL strings (lists of
  8-bit characters), so a length counts bytes as Go's does. The functions of the packages
  strings, strconv and encoding/hex that the SDK calls are defined here from their
  documentation, each under the name of the operation it stands for. A call that returns
  (value, error) is a value of a sum type, the error on the left. Machine integers are
  HOL integers with the 64-bit wrap-around written out where the code can overflow.
\<close>

named_theorems go_str "facts that rewrite Go string operations"
named_theorems go_int "bounds and exactness facts about 64-bit integers"

subsection \<open>Results\<close>

fun bind_res :: "'e + 'a \<Rightarrow> ('a \<Rightarrow> 'e + 'b) \<Rightarrow> 'e + 'b" where
  "bind_res (Inl e) f = Inl e"
| "bind_res (Inr a) f = f a"

lemma bind_res_Inr [simp]: "bind_res r f = Inr b \<longleftrightarrow> (\<exists>a. r = Inr a \<and> f a = Inr b)"
  by (cases r) auto

lemma bind_res_Inl [simp]:
  "bind_res r f = Inl e \<longleftrightarrow> r = Inl e \<or> (\<exists>a. r = Inr a \<and> f a = Inl e)"
  by (cases r) auto

definition is_ok :: "'e + 'a \<Rightarrow> bool" where
  "is_ok r = (case r of Inl _ \<Rightarrow> False | Inr _ \<Rightarrow> True)"

lemma is_ok_simps [simp]: "is_ok (Inl e) = False" "is_ok (Inr a) = True"
  by (simp_all add: is_ok_def)

lemma is_ok_iff: "is_ok r \<longleftrightarrow> (\<exists>a. r = Inr a)"
  by (cases r) auto

subsection \<open>Prefixes and substrings (strings.HasPrefix, CutPrefix, TrimPrefix, Contains)\<close>

fun strip_prefix :: "string \<Rightarrow> string \<Rightarrow> string option" where
  "strip_prefix [] s = Some s"
| "strip_prefix (p # ps) [] = None"
| "strip_prefix (p # ps) (c # cs) = (if p = c then strip_prefix ps cs else None)"

definition has_prefix :: "string \<Rightarrow> string \<Rightarrow> bool" where
  "has_prefix s p = (strip_prefix p s \<noteq> None)"

definition trim_prefix :: "string \<Rightarrow> string \<Rightarrow> string" where
  "trim_prefix s p = (case strip_prefix p s of None \<Rightarrow> s | Some r \<Rightarrow> r)"

fun contains_str :: "string \<Rightarrow> string \<Rightarrow> bool" where
  "contains_str [] sub = (sub = [])"
| "contains_str (c # cs) sub = (has_prefix (c # cs) sub \<or> contains_str cs sub)"

lemma strip_prefix_Some: "strip_prefix p s = Some r \<longleftrightarrow> s = p @ r"
  by (induction p s rule: strip_prefix.induct) auto

lemma strip_prefix_append [simp]: "strip_prefix p (p @ r) = Some r"
  by (simp add: strip_prefix_Some)

lemma has_prefix_iff: "has_prefix s p \<longleftrightarrow> (\<exists>r. s = p @ r)"
proof (cases "strip_prefix p s")
  case None
  then have "\<nexists>r. s = p @ r" using strip_prefix_Some by fastforce
  with None show ?thesis by (simp add: has_prefix_def)
next
  case (Some r)
  then show ?thesis by (auto simp: has_prefix_def strip_prefix_Some)
qed

lemma trim_prefix_append [simp]: "trim_prefix (p @ r) p = r"
  by (simp add: trim_prefix_def)

lemma contains_str_iff: "contains_str s sub \<longleftrightarrow> (\<exists>a b. s = a @ sub @ b)"
proof (induction s)
  case Nil
  show ?case by auto
next
  case (Cons c cs)
  have "(\<exists>a b. c # cs = a @ sub @ b) \<longleftrightarrow>
      (\<exists>b. c # cs = sub @ b) \<or> (\<exists>a b. cs = a @ sub @ b)" (is "?l \<longleftrightarrow> ?r")
  proof
    assume ?l
    then obtain a b where e: "c # cs = a @ sub @ b" by blast
    then show ?r by (cases a) auto
  next
    assume ?r
    then show ?l by (metis append_Cons append_Nil)
  qed
  with Cons show ?case by (simp add: has_prefix_iff)
qed

subsection \<open>Splitting and joining (strings.Split with a one-byte separator, Cut)\<close>

fun split_on :: "char \<Rightarrow> string \<Rightarrow> string list" where
  "split_on c [] = [[]]"
| "split_on c (x # xs) =
     (if x = c then [] # split_on c xs
      else (case split_on c xs of [] \<Rightarrow> [[x]] | y # ys \<Rightarrow> (x # y) # ys))"

fun join_on :: "char \<Rightarrow> string list \<Rightarrow> string" where
  "join_on c [] = []"
| "join_on c [s] = s"
| "join_on c (s # t # ts) = s @ c # join_on c (t # ts)"

definition cut_before :: "char \<Rightarrow> string \<Rightarrow> string" where
  "cut_before c s = takeWhile (\<lambda>x. x \<noteq> c) s"

lemma split_on_not_Nil [simp]: "split_on c s \<noteq> []"
  by (induction s) (auto split: list.splits)

lemma split_on_free [go_str]: "c \<notin> set s \<Longrightarrow> split_on c s = [s]"
  by (induction s) auto

lemma split_on_append [go_str]:
  "c \<notin> set a \<Longrightarrow> split_on c (a @ c # b) = a # split_on c b"
  by (induction a) (auto split: list.splits)

lemma join_split [simp]: "join_on c (split_on c s) = s"
proof (induction s)
  case Nil
  show ?case by simp
next
  case (Cons x xs)
  obtain y ys where s: "split_on c xs = y # ys" by (cases "split_on c xs") auto
  with Cons show ?case by (cases ys) auto
qed

lemma split_join:
  "ss \<noteq> [] \<Longrightarrow> (\<forall>s \<in> set ss. c \<notin> set s) \<Longrightarrow> split_on c (join_on c ss) = ss"
  by (induction c ss rule: join_on.induct) (auto simp: go_str)

lemma join_on_inject:
  assumes "ss \<noteq> []" "ts \<noteq> []"
    and "\<forall>s \<in> set ss. c \<notin> set s" "\<forall>t \<in> set ts. c \<notin> set t"
    and "join_on c ss = join_on c ts"
  shows "ss = ts"
  by (metis assms split_join)

lemma cut_before_free [simp]: "c \<notin> set s \<Longrightarrow> cut_before c s = s"
  by (induction s) (auto simp: cut_before_def)

lemma cut_before_append [simp]:
  "c \<notin> set a \<Longrightarrow> cut_before c (a @ c # b) = a"
  by (induction a) (auto simp: cut_before_def)

subsection \<open>Trimming and case (strings.TrimRight, TrimSpace, ToLower, ToUpper)\<close>

definition trim_right_char :: "char \<Rightarrow> string \<Rightarrow> string" where
  "trim_right_char c s = rev (dropWhile (\<lambda>x. x = c) (rev s))"

text \<open>
  The white space of unicode.IsSpace, each code point as its UTF-8 bytes: tab, line feed,
  vertical tab, form feed, carriage return, space, U+0085, U+00A0, U+1680, U+2000 to
  U+200A, U+2028, U+2029, U+202F, U+205F and U+3000. A lead byte is never a continuation
  byte, so finding the bytes finds the character.
\<close>

definition space_seqs :: "string list" where
  "space_seqs =
    [[CHR 0x09], [CHR 0x0A], [CHR 0x0B], [CHR 0x0C], [CHR 0x0D], [CHR 0x20],
     [CHR 0xC2, CHR 0x85], [CHR 0xC2, CHR 0xA0], [CHR 0xE1, CHR 0x9A, CHR 0x80]]
    @ map (\<lambda>n. [CHR 0xE2, CHR 0x80, char_of (0x80 + n :: nat)]) [0..<11]
    @ [[CHR 0xE2, CHR 0x80, CHR 0xA8], [CHR 0xE2, CHR 0x80, CHR 0xA9],
       [CHR 0xE2, CHR 0x80, CHR 0xAF], [CHR 0xE2, CHR 0x81, CHR 0x9F],
       [CHR 0xE3, CHR 0x80, CHR 0x80]]"

definition contains_space :: "string \<Rightarrow> bool" where
  "contains_space s = list_ex (\<lambda>w. contains_str s w) space_seqs"

fun trim_seqs :: "nat \<Rightarrow> string list \<Rightarrow> string \<Rightarrow> string" where
  "trim_seqs 0 ws s = s"
| "trim_seqs (Suc n) ws s =
     (case find (\<lambda>w. has_prefix s w) ws of
        None \<Rightarrow> s
      | Some w \<Rightarrow> trim_seqs n ws (drop (length w) s))"

definition trim_space :: "string \<Rightarrow> string" where
  "trim_space s =
     (let l = trim_seqs (length s) space_seqs s
      in rev (trim_seqs (length l) (map rev space_seqs) (rev l)))"

lemma trim_right_char_append:
  "trim_right_char c (a @ b) =
     (if set b \<subseteq> {c} then trim_right_char c a else a @ trim_right_char c b)"
  by (auto simp: trim_right_char_def dropWhile_append)

lemma trim_right_char_split:
  "\<exists>k. s = trim_right_char c s @ replicate k c"
proof -
  have "rev s = takeWhile (\<lambda>x. x = c) (rev s) @ dropWhile (\<lambda>x. x = c) (rev s)" by simp
  moreover have "takeWhile (\<lambda>x. x = c) (rev s) =
      replicate (length (takeWhile (\<lambda>x. x = c) (rev s))) c"
    by (metis (full_types) replicate_eqI set_takeWhileD)
  ultimately show ?thesis
    by (metis rev_append rev_replicate rev_rev_ident trim_right_char_def)
qed

lemma trim_right_char_last: "trim_right_char c s \<noteq> [] \<Longrightarrow> last (trim_right_char c s) \<noteq> c"
  unfolding trim_right_char_def using hd_dropWhile [of "\<lambda>x. x = c" "rev s"]
  by (simp add: last_rev del: dropWhile_eq_Nil_conv)

lemma trim_right_char_id: "s \<noteq> [] \<Longrightarrow> last s \<noteq> c \<Longrightarrow> trim_right_char c s = s"
  by (simp add: trim_right_char_def) (metis dropWhile_eq_self_iff hd_rev rev_rev_ident)

definition lower_char :: "char \<Rightarrow> char" where
  "lower_char c =
     (let n = of_char c :: nat in if 65 \<le> n \<and> n \<le> 90 then char_of (n + 32) else c)"

definition upper_char :: "char \<Rightarrow> char" where
  "upper_char c =
     (let n = of_char c :: nat in if 97 \<le> n \<and> n \<le> 122 then char_of (n - 32) else c)"

text \<open>On the bits of a byte, for evaluation.\<close>

lemma upper_char_code [code]:
  "upper_char (Char b0 b1 b2 b3 b4 b5 b6 b7) =
     (if \<not> b7 \<and> b6 \<and> b5 \<and> (b0 \<or> b1 \<or> b2 \<or> b3 \<or> b4) \<and> \<not> (b4 \<and> b3 \<and> (b2 \<or> b1 \<and> b0))
      then Char b0 b1 b2 b3 b4 False b6 b7 else Char b0 b1 b2 b3 b4 b5 b6 b7)"
  by (cases b0; cases b1; cases b2; cases b3; cases b4; cases b5; cases b6; cases b7; simp add: upper_char_def char_of_def bit_Suc_0_iff)

text \<open>On the ASCII strings the SDK cases (methods, hexadecimal addresses), byte by byte.\<close>

definition to_lower :: "string \<Rightarrow> string" where
  "to_lower s = map lower_char s"

definition to_upper :: "string \<Rightarrow> string" where
  "to_upper s = map upper_char s"

subsection \<open>Decimal integers (strconv.FormatInt, FormatUint, ParseInt, Atoi in base 10)\<close>

definition digit_char :: "nat \<Rightarrow> char" where
  "digit_char d = char_of (48 + d)"

definition is_digit :: "char \<Rightarrow> bool" where
  "is_digit c = (48 \<le> (of_char c :: nat) \<and> (of_char c :: nat) \<le> 57)"

lemma is_digit_code [code]:
  "is_digit (Char b0 b1 b2 b3 b4 b5 b6 b7) = (\<not> b7 \<and> \<not> b6 \<and> b5 \<and> b4 \<and> \<not> (b3 \<and> (b2 \<or> b1)))"
  by (cases b0; cases b1; cases b2; cases b3; cases b4; cases b5; cases b6; cases b7; simp add: is_digit_def)

definition digit_val :: "char \<Rightarrow> nat" where
  "digit_val c = of_char c - 48"

fun show_nat :: "nat \<Rightarrow> string" where
  "show_nat n = (if n < 10 then [digit_char n] else show_nat (n div 10) @ [digit_char (n mod 10)])"

declare show_nat.simps [simp del]

definition show_int :: "int \<Rightarrow> string" where
  "show_int i = (if i < 0 then CHR ''-'' # show_nat (nat (- i)) else show_nat (nat i))"

definition digits_val :: "string \<Rightarrow> nat" where
  "digits_val s = foldl (\<lambda>a c. 10 * a + digit_val c) 0 s"

definition all_digits :: "string \<Rightarrow> bool" where
  "all_digits s = (s \<noteq> [] \<and> list_all is_digit s)"

definition min_int64 :: int where "min_int64 = - (2 ^ 63)"
definition max_int64 :: int where "max_int64 = 2 ^ 63 - 1"

definition in_int64 :: "int \<Rightarrow> bool" where
  "in_int64 i = (min_int64 \<le> i \<and> i \<le> max_int64)"

definition wrap64 :: "int \<Rightarrow> int" where
  "wrap64 i = (i + 2 ^ 63) mod 2 ^ 64 - 2 ^ 63"

definition parse_int64 :: "string \<Rightarrow> int option" where
  "parse_int64 s =
     (let (neg, ds) = (case s of
            [] \<Rightarrow> (False, [])
          | c # cs \<Rightarrow> if c = CHR ''-'' then (True, cs)
                      else if c = CHR ''+'' then (False, cs) else (False, s));
          v = (if neg then - int (digits_val ds) else int (digits_val ds))
      in if all_digits ds \<and> in_int64 v then Some v else None)"

lemma wrap64_range [go_int]: "in_int64 (wrap64 i)"
  by (simp add: in_int64_def wrap64_def min_int64_def max_int64_def)

lemma wrap64_id [go_int]: "in_int64 i \<Longrightarrow> wrap64 i = i"
  by (simp add: in_int64_def wrap64_def min_int64_def max_int64_def)

lemma of_char_digit: "d < 10 \<Longrightarrow> (of_char (digit_char d) :: nat) = 48 + d"
  by (simp add: digit_char_def)

lemma is_digit_digit_char [simp]: "d < 10 \<Longrightarrow> is_digit (digit_char d)"
  by (simp add: is_digit_def of_char_digit)

lemma digit_val_digit_char [simp]: "d < 10 \<Longrightarrow> digit_val (digit_char d) = d"
  by (simp add: digit_val_def of_char_digit)

lemma digits_val_snoc: "digits_val (s @ [c]) = 10 * digits_val s + digit_val c"
  by (simp add: digits_val_def)

lemma digits_val_append:
  "digits_val (a @ b) = digits_val a * 10 ^ length b + digits_val b"
proof (induction b rule: rev_induct)
  case Nil
  show ?case by (simp add: digits_val_def)
next
  case (snoc c b)
  then show ?case
    by (simp add: digits_val_snoc digits_val_snoc [of "a @ b", simplified] algebra_simps)
qed

lemma digits_val_zeros [simp]: "digits_val (replicate k (CHR ''0'')) = 0"
  by (induction k) (simp_all add: digits_val_def digit_val_def)

lemma digits_val_show_nat [simp]: "digits_val (show_nat n) = n"
proof (induction n rule: show_nat.induct)
  case (1 n)
  then show ?case
    by (cases "n < 10")
      (simp_all add: show_nat.simps [of n] digits_val_snoc digits_val_def [of "[_]"])
qed

lemma show_nat_digits: "list_all is_digit (show_nat n)"
proof (induction n rule: show_nat.induct)
  case (1 n)
  then show ?case by (cases "n < 10") (simp_all add: show_nat.simps [of n])
qed

lemma show_nat_not_Nil [simp]: "show_nat n \<noteq> []"
  by (subst show_nat.simps) simp

lemma all_digits_show_nat [simp]: "all_digits (show_nat n)"
  by (simp add: all_digits_def show_nat_digits)

lemma show_nat_small: "n < 10 \<Longrightarrow> show_nat n = [digit_char n]"
  by (simp add: show_nat.simps)

lemma digit_char_0: "digit_char 0 = CHR ''0''"
proof -
  have "(of_char (digit_char 0) :: nat) = of_char (CHR ''0'')" by (simp add: of_char_digit)
  then show ?thesis by (simp only: of_char_eq_iff)
qed

lemma show_nat_zero [simp]: "show_nat 0 = ''0''"
  by (simp add: show_nat_small digit_char_0)

lemma show_nat_hd_zero: "n \<noteq> 0 \<Longrightarrow> hd (show_nat n) \<noteq> CHR ''0''"
proof (induction n rule: show_nat.induct)
  case (1 n)
  show ?case
  proof (cases "n < 10")
    case True
    have "digit_char n \<noteq> digit_char 0" using 1(2) True by (metis digit_val_digit_char zero_less_numeral)
    then show ?thesis using True by (simp add: show_nat_small digit_char_0)
  next
    case False
    then show ?thesis using 1 by (simp add: show_nat.simps [of n])
  qed
qed

lemma length_show_nat: "n < 10 ^ k \<Longrightarrow> 0 < k \<Longrightarrow> length (show_nat n) \<le> k"
proof (induction n arbitrary: k rule: show_nat.induct)
  case (1 n)
  show ?case
  proof (cases "n < 10")
    case True
    then show ?thesis using 1(3) by (simp add: show_nat_small)
  next
    case False
    then have "k \<noteq> Suc 0" using 1(2) by auto
    then obtain j where k: "k = Suc j" "0 < j" using 1(3) by (cases k) auto
    then have "n div 10 < 10 ^ j" using 1(2) by (simp add: div_less_iff_less_mult mult.commute)
    then show ?thesis using 1(1) [OF False _ k(2)] False k by (simp add: show_nat.simps [of n])
  qed
qed

lemma show_nat_inject [simp]: "show_nat m = show_nat n \<longleftrightarrow> m = n"
  by (metis digits_val_show_nat)

lemma not_digit_sign [simp]:
  "\<not> is_digit (CHR ''-'')" "\<not> is_digit (CHR ''+'')" "\<not> is_digit (CHR ''.'')"
  "\<not> is_digit (CHR 0x0A)"
  by (simp_all add: is_digit_def)

lemma show_nat_hd: "\<exists>c cs. show_nat n = c # cs \<and> is_digit c"
  using show_nat_digits [of n] by (cases "show_nat n") auto

lemma parse_show_int [simp]: "in_int64 i \<Longrightarrow> parse_int64 (show_int i) = Some i"
proof -
  assume r: "in_int64 i"
  obtain c cs where h: "show_nat (nat i) = c # cs" "is_digit c" using show_nat_hd by blast
  then have "c \<noteq> CHR ''-''" "c \<noteq> CHR ''+''" by auto
  then have "i \<ge> 0 \<Longrightarrow> parse_int64 (show_nat (nat i)) = Some i"
    using r h all_digits_show_nat [of "nat i"] digits_val_show_nat [of "nat i"]
    by (simp add: parse_int64_def)
  moreover have "i < 0 \<Longrightarrow> parse_int64 (CHR ''-'' # show_nat (nat (- i))) = Some i"
    using r by (simp add: parse_int64_def)
  ultimately show ?thesis by (simp add: show_int_def)
qed

lemma show_int_inject: "show_int i = show_int j \<longleftrightarrow> i = j"
proof
  assume eq: "show_int i = show_int j"
  obtain c cs where h: "show_nat (nat i) = c # cs" "is_digit c" using show_nat_hd by blast
  obtain d ds where k: "show_nat (nat j) = d # ds" "is_digit d" using show_nat_hd by blast
  from h k have "c \<noteq> CHR ''-''" "d \<noteq> CHR ''-''" by auto
  then have "i < 0 \<longleftrightarrow> j < 0" using eq h k by (auto simp: show_int_def split: if_splits)
  then show "i = j" using eq by (auto simp: show_int_def split: if_splits)
qed simp

lemma show_int_chars: "c \<in> set (show_int i) \<Longrightarrow> is_digit c \<or> c = CHR ''-''"
  using show_nat_digits by (auto simp: show_int_def list_all_iff split: if_splits)

lemma newline_notin_show_int [simp]: "CHR 0x0A \<notin> set (show_int i)"
  using show_int_chars [of "CHR 0x0A" i] by auto

lemma newline_notin_show_nat [simp]: "CHR 0x0A \<notin> set (show_nat n)"
  using show_nat_digits [of n] by (auto simp: list_all_iff)

subsection \<open>Hexadecimal (encoding/hex)\<close>

definition hex_digit :: "nat \<Rightarrow> char" where
  "hex_digit d = (if d < 10 then char_of (48 + d) else char_of (87 + d))"

definition hex_val :: "char \<Rightarrow> nat option" where
  "hex_val c =
     (let n = of_char c :: nat in
      if 48 \<le> n \<and> n \<le> 57 then Some (n - 48)
      else if 97 \<le> n \<and> n \<le> 102 then Some (n - 87)
      else if 65 \<le> n \<and> n \<le> 70 then Some (n - 55)
      else None)"

definition hex_encode :: "string \<Rightarrow> string" where
  "hex_encode bs =
     concat (map (\<lambda>b. let n = of_char b :: nat in [hex_digit (n div 16), hex_digit (n mod 16)]) bs)"

fun hex_decode :: "string \<Rightarrow> string option" where
  "hex_decode [] = Some []"
| "hex_decode [c] = None"
| "hex_decode (a # b # s) =
     (case (hex_val a, hex_val b) of
        (Some x, Some y) \<Rightarrow> map_option ((#) (char_of (16 * x + y))) (hex_decode s)
      | _ \<Rightarrow> None)"

lemma hex_val_digit [simp]: "d < 16 \<Longrightarrow> hex_val (hex_digit d) = Some d"
  by (auto simp: hex_val_def hex_digit_def Let_def)

lemma hex_decode_encode [simp]: "hex_decode (hex_encode bs) = Some bs"
proof (induction bs)
  case (Cons b bs)
  have "(of_char b :: nat) < 256" by simp
  then have "(of_char b :: nat) div 16 < 16" by (simp add: div_less_iff_less_mult)
  with Cons show ?case by (simp add: hex_encode_def Let_def)
qed (simp add: hex_encode_def)

lemma hex_encode_inject: "hex_encode a = hex_encode b \<longleftrightarrow> a = b"
  by (metis hex_decode_encode option.inject)

lemma length_hex_encode [simp]: "length (hex_encode bs) = 2 * length bs"
  by (induction bs) (simp_all add: hex_encode_def Let_def)

lemma hex_decode_length: "hex_decode s = Some bs \<Longrightarrow> length s = 2 * length bs"
  by (induction s arbitrary: bs rule: hex_decode.induct) (auto split: option.splits)

lemma hex_digit_newline [simp]: "d < 16 \<Longrightarrow> hex_digit d \<noteq> CHR 0x0A"
  using hex_val_digit [of d] by (auto simp: hex_val_def)

lemma newline_notin_hex_encode [simp]: "CHR 0x0A \<notin> set (hex_encode bs)"
proof -
  have "CHR 0x0A \<noteq> hex_digit d" if "d < 16" for d
    using hex_digit_newline [OF that] by metis
  moreover have "(of_char b :: nat) div 16 < 16" "(of_char b :: nat) mod 16 < 16" for b :: char
    by (simp_all add: div_less_iff_less_mult)
  ultimately show ?thesis by (simp add: hex_encode_def Let_def)
qed

subsection \<open>Interface: a value and its wire form\<close>

text \<open>
  Contract of an encoder and its decoder: what was encoded decodes to the same value. A
  strict codec accepts nothing but what the encoder writes, so a value has one wire form.
\<close>

locale codec =
  fixes enc :: "'a \<Rightarrow> 'w" and dec :: "'w \<Rightarrow> 'e + 'a" and ok :: "'a \<Rightarrow> bool"
  assumes dec_enc: "ok a \<Longrightarrow> dec (enc a) = Inr a"
begin

lemma enc_inject: "ok a \<Longrightarrow> ok b \<Longrightarrow> enc a = enc b \<longleftrightarrow> a = b"
  by (metis dec_enc sum.inject(2))

end

locale strict_codec = codec +
  assumes enc_dec: "dec w = Inr a \<Longrightarrow> enc a = w"
    and dec_ok: "dec w = Inr a \<Longrightarrow> ok a"
begin

lemma dec_iff: "dec w = Inr a \<longleftrightarrow> ok a \<and> w = enc a"
  using dec_enc enc_dec dec_ok by blast

lemma one_wire_form: "dec v = Inr a \<Longrightarrow> dec w = Inr a \<Longrightarrow> v = w"
  using enc_dec by blast

end

interpretation int64_text: codec show_int
  "\<lambda>s. case parse_int64 s of None \<Rightarrow> Inl () | Some i \<Rightarrow> Inr i" in_int64
  by unfold_locales simp

interpretation hex_text: codec hex_encode
  "\<lambda>s. case hex_decode s of None \<Rightarrow> Inl () | Some b \<Rightarrow> Inr b" "\<lambda>_. True"
  by unfold_locales simp

end
