(* ===== verification/GoRegexp.thy ===== *)
theory GoRegexp
  imports Prelude
begin

section \<open>Regular expressions (package regexp, the operators the SDK uses)\<close>

text \<open>
  The SDK compiles two anchored expressions and asks whether a whole string matches. An
  expression is a syntax tree, its meaning a set of strings, and the executable matcher
  takes derivatives. \<open>rx_matches_iff\<close> says the two agree, so facts about a pattern
  are facts about its language.
\<close>

datatype rx =
    RNone
  | REps
  | RIn "char list"
  | RSeq rx rx
  | RAlt rx rx
  | RStar rx

abbreviation ropt :: "rx \<Rightarrow> rx" where "ropt r \<equiv> RAlt r REps"
abbreviation rplus :: "rx \<Rightarrow> rx" where "rplus r \<equiv> RSeq r (RStar r)"

inductive_set star_lang :: "string set \<Rightarrow> string set" for A where
  star_Nil: "[] \<in> star_lang A"
| star_step: "u \<in> A \<Longrightarrow> v \<in> star_lang A \<Longrightarrow> u @ v \<in> star_lang A"

fun rx_lang :: "rx \<Rightarrow> string set" where
  "rx_lang RNone = {}"
| "rx_lang REps = {[]}"
| "rx_lang (RIn cs) = {[c] | c. c \<in> set cs}"
| "rx_lang (RSeq r s) = {u @ v | u v. u \<in> rx_lang r \<and> v \<in> rx_lang s}"
| "rx_lang (RAlt r s) = rx_lang r \<union> rx_lang s"
| "rx_lang (RStar r) = star_lang (rx_lang r)"

fun rx_nullable :: "rx \<Rightarrow> bool" where
  "rx_nullable RNone = False"
| "rx_nullable REps = True"
| "rx_nullable (RIn cs) = False"
| "rx_nullable (RSeq r s) = (rx_nullable r \<and> rx_nullable s)"
| "rx_nullable (RAlt r s) = (rx_nullable r \<or> rx_nullable s)"
| "rx_nullable (RStar r) = True"

fun rx_deriv :: "char \<Rightarrow> rx \<Rightarrow> rx" where
  "rx_deriv c RNone = RNone"
| "rx_deriv c REps = RNone"
| "rx_deriv c (RIn cs) = (if List.member cs c then REps else RNone)"
| "rx_deriv c (RSeq r s) =
     (if rx_nullable r then RAlt (RSeq (rx_deriv c r) s) (rx_deriv c s)
      else RSeq (rx_deriv c r) s)"
| "rx_deriv c (RAlt r s) = RAlt (rx_deriv c r) (rx_deriv c s)"
| "rx_deriv c (RStar r) = RSeq (rx_deriv c r) (RStar r)"

fun rx_matches :: "rx \<Rightarrow> string \<Rightarrow> bool" where
  "rx_matches r [] = rx_nullable r"
| "rx_matches r (c # s) = rx_matches (rx_deriv c r) s"

lemma rx_nullable_iff: "rx_nullable r \<longleftrightarrow> [] \<in> rx_lang r"
  by (induction r) (auto intro: star_Nil)

lemma star_Cons:
  "c # w \<in> star_lang A \<longleftrightarrow> (\<exists>u v. w = u @ v \<and> c # u \<in> A \<and> v \<in> star_lang A)"
proof
  assume "c # w \<in> star_lang A"
  then show "\<exists>u v. w = u @ v \<and> c # u \<in> A \<and> v \<in> star_lang A"
  proof (induction "c # w" arbitrary: w rule: star_lang.induct)
    case (star_step u v)
    then show ?case by (cases u) auto
  qed
next
  assume "\<exists>u v. w = u @ v \<and> c # u \<in> A \<and> v \<in> star_lang A"
  then obtain u v where "w = u @ v" "c # u \<in> A" "v \<in> star_lang A" by blast
  then show "c # w \<in> star_lang A" using star_step [of "c # u" A v] by simp
qed

lemma seq_Cons:
  "(\<exists>u v. c # w = u @ v \<and> u \<in> A \<and> v \<in> B) \<longleftrightarrow>
     (\<exists>u v. w = u @ v \<and> c # u \<in> A \<and> v \<in> B) \<or> [] \<in> A \<and> c # w \<in> B" (is "?l \<longleftrightarrow> ?r")
proof
  assume ?l
  then obtain u v where e: "c # w = u @ v" "u \<in> A" "v \<in> B" by blast
  then show ?r by (cases u) auto
next
  assume ?r
  then show ?l by (metis append_Cons append_Nil)
qed

lemma rx_deriv_lang: "w \<in> rx_lang (rx_deriv c r) \<longleftrightarrow> c # w \<in> rx_lang r"
proof (induction r arbitrary: w)
  case (RSeq r s)
  have "c # w \<in> rx_lang (RSeq r s) \<longleftrightarrow>
      (\<exists>u v. w = u @ v \<and> c # u \<in> rx_lang r \<and> v \<in> rx_lang s)
      \<or> [] \<in> rx_lang r \<and> c # w \<in> rx_lang s"
    using seq_Cons [of c w "rx_lang r" "rx_lang s"] by simp
  with RSeq show ?case by (auto simp: rx_nullable_iff)
next
  case (RStar r)
  then show ?case by (auto simp: star_Cons)
qed auto

theorem rx_matches_iff: "rx_matches r s \<longleftrightarrow> s \<in> rx_lang r"
  by (induction s arbitrary: r) (simp_all add: rx_nullable_iff rx_deriv_lang)

lemma star_RIn: "s \<in> star_lang {[c] | c. c \<in> set cs} \<longleftrightarrow> set s \<subseteq> set cs"
proof (induction s)
  case Nil
  show ?case by (simp add: star_Nil)
next
  case (Cons a s)
  then show ?case by (auto simp: star_Cons)
qed

lemma seq_RIn: "s \<in> rx_lang (RSeq (RIn cs) r) \<longleftrightarrow>
    (\<exists>c t. s = c # t \<and> c \<in> set cs \<and> t \<in> rx_lang r)" (is "?l \<longleftrightarrow> ?r")
proof
  assume ?r
  then obtain c t where "s = [c] @ t" "c \<in> set cs" "t \<in> rx_lang r" by auto
  then show ?l unfolding rx_lang.simps by blast
qed auto

lemma rplus_RIn:
  "s \<in> rx_lang (rplus (RIn cs)) \<longleftrightarrow> s \<noteq> [] \<and> set s \<subseteq> set cs"
  unfolding seq_RIn by (cases s) (auto simp: star_RIn)

end
