(* ===== verification/Decimal.thy ===== *)
theory Decimal
  imports GoRegexp Complex_Main
begin

section \<open>Exact decimals (internal/models/decimal.go, decimal.go)\<close>

text \<open>
  \<open>Decimal\<close> holds the served literal unchanged. This theory models the literal's
  regular expression, \<open>ParseDecimal\<close>, \<open>String\<close>, \<open>Rat\<close> and the JSON pair. The
  literal's grammar is proved to be the documented one, and decoding what was encoded
  gives the value back. \<open>Float64\<close> (documented as lossy, used by nothing in the SDK)
  is not modelled.
\<close>

record decimal =
  dec_s :: string

datatype dec_error =
    InvalidDecimal string
  | NotJsonString string

definition digit_chars :: "char list" where
  "digit_chars = ''0123456789''"

definition decimalLiteral :: rx where
  "decimalLiteral =
     RSeq (ropt (RIn ''-''))
       (RSeq (RAlt (RIn ''0'') (RSeq (RIn ''123456789'') (RStar (RIn digit_chars))))
         (ropt (RSeq (RIn ''.'') (rplus (RIn digit_chars)))))"

definition zero_decimal :: decimal where
  "zero_decimal = \<lparr>dec_s = []\<rparr>"

definition ParseDecimal :: "string \<Rightarrow> dec_error + decimal" where
  "ParseDecimal s =
     (if rx_matches decimalLiteral s then Inr \<lparr>dec_s = s\<rparr> else Inl (InvalidDecimal s))"

definition dec_String :: "decimal \<Rightarrow> string" where
  "dec_String d = (if dec_s d = [] then ''0'' else dec_s d)"

text \<open>
  The value of a literal as big.Rat.SetString reads it: sign, integer digits, and after a
  point as many fraction digits as follow it.
\<close>

definition lit_val :: "string \<Rightarrow> rat" where
  "lit_val s =
     (let neg = (s \<noteq> [] \<and> hd s = CHR ''-'');
          u = (if neg then tl s else s);
          ip = takeWhile (\<lambda>c. c \<noteq> CHR ''.'') u;
          fp = drop (Suc (length ip)) u;
          v = of_nat (digits_val (ip @ fp)) / 10 ^ length fp
      in if neg then - v else v)"

definition dec_Rat :: "decimal \<Rightarrow> rat" where
  "dec_Rat d = lit_val (dec_String d)"

definition dec_MarshalJSON :: "decimal \<Rightarrow> string" where
  "dec_MarshalJSON d = CHR 0x22 # dec_String d @ [CHR 0x22]"

definition dec_UnmarshalJSON :: "string \<Rightarrow> decimal \<Rightarrow> dec_error + decimal" where
  "dec_UnmarshalJSON s d =
     (if s = ''null'' then Inr d
      else if length s < 2 \<or> hd s \<noteq> CHR 0x22 \<or> last s \<noteq> CHR 0x22 then Inl (NotJsonString s)
      else ParseDecimal (butlast (tl s)))"

text \<open>What every decimal the package hands out satisfies: the zero value or a literal.\<close>

definition decimal_ok :: "decimal \<Rightarrow> bool" where
  "decimal_ok d = (dec_s d = [] \<or> rx_matches decimalLiteral (dec_s d))"

subsection \<open>The literal's grammar\<close>

definition int_part :: "string \<Rightarrow> bool" where
  "int_part s = (s = ''0'' \<or> all_digits s \<and> hd s \<noteq> CHR ''0'')"

definition frac_part :: "string \<Rightarrow> bool" where
  "frac_part s = (s = [] \<or> (\<exists>ds. s = CHR ''.'' # ds \<and> all_digits ds))"

lemma is_digit_iff: "is_digit c \<longleftrightarrow> c \<in> set digit_chars"
proof -
  have "c \<in> set digit_chars \<longleftrightarrow> (of_char c :: nat) \<in> of_char ` set digit_chars"
    by (simp add: inj_image_mem_iff inj_on_def)
  also have "\<dots> \<longleftrightarrow> (of_char c :: nat) \<in> {48, 49, 50, 51, 52, 53, 54, 55, 56, 57}"
    by (simp add: digit_chars_def)
  also have "\<dots> \<longleftrightarrow> is_digit c"
    unfolding is_digit_def by (simp only: insert_iff empty_iff) presburger
  finally show ?thesis by simp
qed

lemma all_digits_iff: "all_digits s \<longleftrightarrow> s \<noteq> [] \<and> set s \<subseteq> set digit_chars"
  by (auto simp: all_digits_def list_all_iff is_digit_iff)

lemma int_part_lang:
  "s \<in> rx_lang (RAlt (RIn ''0'') (RSeq (RIn ''123456789'') (RStar (RIn digit_chars)))) \<longleftrightarrow>
     int_part s"
proof (cases s)
  case (Cons a t)
  have nz: "a \<in> set ''123456789'' \<longleftrightarrow> a \<in> set digit_chars \<and> a \<noteq> CHR ''0''"
    by (auto simp: digit_chars_def)
  have A: "a # t \<in> rx_lang (RSeq (RIn ''123456789'') (RStar (RIn digit_chars))) \<longleftrightarrow>
      (a \<in> set digit_chars \<and> a \<noteq> CHR ''0'') \<and> set t \<subseteq> set digit_chars"
    unfolding seq_RIn nz [symmetric] by (simp add: star_RIn)
  have B: "a # t \<in> rx_lang (RIn ''0'') \<longleftrightarrow> a # t = ''0''" by simp
  show ?thesis
    unfolding Cons rx_lang.simps(5) Un_iff A B int_part_def all_digits_iff by auto
qed (simp add: int_part_def all_digits_def)

lemma frac_part_lang:
  "s \<in> rx_lang (ropt (RSeq (RIn ''.'') (rplus (RIn digit_chars)))) \<longleftrightarrow> frac_part s"
proof -
  have "s \<in> rx_lang (RSeq (RIn ''.'') (rplus (RIn digit_chars))) \<longleftrightarrow>
      (\<exists>ds. s = CHR ''.'' # ds \<and> ds \<in> rx_lang (rplus (RIn digit_chars)))"
    by auto
  then show ?thesis
    unfolding rplus_RIn by (auto simp: frac_part_def all_digits_iff)
qed

lemma literal_grammar:
  "rx_matches decimalLiteral s \<longleftrightarrow>
     (\<exists>sg ip fp. s = sg @ ip @ fp \<and> sg \<in> {[], ''-''} \<and> int_part ip \<and> frac_part fp)"
proof -
  have "s \<in> rx_lang decimalLiteral \<longleftrightarrow>
      (\<exists>sg ip fp. s = sg @ ip @ fp \<and> sg \<in> rx_lang (ropt (RIn ''-''))
         \<and> ip \<in> rx_lang (RAlt (RIn ''0'') (RSeq (RIn ''123456789'') (RStar (RIn digit_chars))))
         \<and> fp \<in> rx_lang (ropt (RSeq (RIn ''.'') (rplus (RIn digit_chars)))))"
    unfolding decimalLiteral_def rx_lang.simps(4) by blast
  then show ?thesis
    unfolding rx_matches_iff int_part_lang frac_part_lang by simp
qed

subsection \<open>Values of literals\<close>

lemma digit_not_dot: "is_digit c \<Longrightarrow> c \<noteq> CHR ''.''" "is_digit c \<Longrightarrow> c \<noteq> CHR ''-''"
  by (auto simp: is_digit_def)

lemma int_part_digits: "int_part s \<Longrightarrow> all_digits s"
  by (auto simp: int_part_def all_digits_def is_digit_def)

lemma takeWhile_digits:
  "all_digits ip \<Longrightarrow> takeWhile (\<lambda>c. c \<noteq> CHR ''.'') (ip @ CHR ''.'' # fp) = ip"
  "all_digits ip \<Longrightarrow> takeWhile (\<lambda>c. c \<noteq> CHR ''.'') ip = ip"
  by (auto simp: all_digits_def list_all_iff takeWhile_eq_all_conv takeWhile_append dest: digit_not_dot)

lemma lit_val_parts:
  assumes "sg \<in> {[], ''-''}" "int_part ip" "frac_part fp"
  shows "lit_val (sg @ ip @ fp) =
    (if sg = [] then 1 else -1) * (of_nat (digits_val (ip @ tl fp)) / 10 ^ (length fp - 1))"
proof -
  have ad: "all_digits ip" using assms(2) by (rule int_part_digits)
  then obtain a t where ip: "ip = a # t" "is_digit a" unfolding all_digits_def by (cases ip) simp_all
  have tw: "takeWhile (\<lambda>c. c \<noteq> CHR ''.'') (ip @ fp) = ip"
  proof (cases "fp = []")
    case True
    then show ?thesis using takeWhile_digits(2) [OF ad] by simp
  next
    case False
    then obtain ds where "fp = CHR ''.'' # ds" using assms(3) unfolding frac_part_def by blast
    then show ?thesis using takeWhile_digits(1) [OF ad] by metis
  qed
  have dr: "drop (Suc (length ip)) (ip @ fp) = tl fp"
    by (simp add: drop_Suc)
  have na: "a \<noteq> CHR ''-''" using ip digit_not_dot by blast
  have l: "length fp - 1 = length (tl fp)" by simp
  consider "sg = []" | "sg = ''-''" using assms(1) by blast
  then show ?thesis
  proof cases
    case 1
    have "hd (ip @ fp) \<noteq> CHR ''-''" using ip na by simp
    then show ?thesis unfolding lit_val_def Let_def 1 by (simp add: tw dr l drop_Suc)
  next
    case 2
    show ?thesis unfolding lit_val_def Let_def 2 by (simp add: tw dr l drop_Suc)
  qed
qed

lemma dec_String_literal: "decimal_ok d \<Longrightarrow> rx_matches decimalLiteral (dec_String d)"
proof -
  have "rx_matches decimalLiteral ''0''" by code_simp
  then show "decimal_ok d \<Longrightarrow> rx_matches decimalLiteral (dec_String d)"
    by (auto simp: decimal_ok_def dec_String_def)
qed

lemma literal_not_Nil: "rx_matches decimalLiteral s \<Longrightarrow> s \<noteq> []"
  by (auto simp: literal_grammar int_part_def all_digits_def)

lemma ParseDecimal_ok: "ParseDecimal s = Inr d \<longleftrightarrow> d = \<lparr>dec_s = s\<rparr> \<and> rx_matches decimalLiteral s"
  by (auto simp: ParseDecimal_def)

lemma ParseDecimal_decimal_ok: "ParseDecimal s = Inr d \<Longrightarrow> decimal_ok d"
  by (simp add: ParseDecimal_ok decimal_ok_def)

definition lit_ok :: "decimal \<Rightarrow> bool" where
  "lit_ok d = rx_matches decimalLiteral (dec_s d)"

lemma lit_ok_String: "lit_ok d \<Longrightarrow> dec_String d = dec_s d"
  by (auto simp: lit_ok_def dec_String_def dest: literal_not_Nil)

interpretation dec_text: strict_codec dec_s ParseDecimal lit_ok
  by unfold_locales (auto simp: ParseDecimal_def lit_ok_def split: if_splits)

lemma quoted_shape:
  assumes "2 \<le> length s" "hd s = q" "last s = q"
  shows "s = q # butlast (tl s) @ [q]"
proof -
  from assms(1) obtain a b t' where "s = a # b # t'"
    by (metis Suc_le_length_iff numeral_2_eq_2)
  then obtain t where s: "s = a # t" "t \<noteq> []" by blast
  with assms(3) have "t = butlast t @ [q]" by (metis append_butlast_last_id last_ConsR)
  with s assms(2) show ?thesis by simp
qed

interpretation dec_json: strict_codec dec_MarshalJSON
  "\<lambda>w. if w = ''null'' then Inl (NotJsonString w) else dec_UnmarshalJSON w zero_decimal" lit_ok
proof unfold_locales
  fix d assume "lit_ok d"
  then show "(if dec_MarshalJSON d = ''null'' then Inl (NotJsonString (dec_MarshalJSON d))
     else dec_UnmarshalJSON (dec_MarshalJSON d) zero_decimal) = Inr d"
    by (simp add: dec_MarshalJSON_def dec_UnmarshalJSON_def lit_ok_String ParseDecimal_ok lit_ok_def)
next
  fix w d
  assume a: "(if w = ''null'' then Inl (NotJsonString w) else dec_UnmarshalJSON w zero_decimal) = Inr d"
  then have sh: "2 \<le> length w" "hd w = CHR 0x22" "last w = CHR 0x22"
    and p: "ParseDecimal (butlast (tl w)) = Inr d"
    by (auto simp: dec_UnmarshalJSON_def split: if_splits)
  from p show ok: "lit_ok d" by (rule dec_text.dec_ok)
  have "w = CHR 0x22 # butlast (tl w) @ [CHR 0x22]" using sh by (rule quoted_shape)
  moreover have "butlast (tl w) = dec_s d" using p by (simp add: ParseDecimal_ok)
  ultimately show "dec_MarshalJSON d = w"
    using lit_ok_String [OF ok] by (simp add: dec_MarshalJSON_def)
qed

subsection \<open>Properties\<close>

text \<open>ParseDecimal accepts exactly the documented literals (an optional minus sign, an
  integer part without superfluous leading zeros, an optional fraction of one or more digits),
  and returns the text unchanged.\<close>

lemma ParseDecimal_grammar:
  "ParseDecimal s = Inr d \<longleftrightarrow>
     dec_s d = s \<and>
     (\<exists>sg ip fp. s = sg @ ip @ fp \<and> sg \<in> {[], ''-''} \<and>
        (ip = ''0'' \<or> all_digits ip \<and> hd ip \<noteq> CHR ''0'') \<and>
        (fp = [] \<or> (\<exists>ds. fp = CHR ''.'' # ds \<and> all_digits ds)))"
  unfolding ParseDecimal_ok literal_grammar int_part_def frac_part_def by (cases d) auto

text \<open>Encoding is lossless. A decimal that holds a literal encodes to a JSON text that
  decodes to the same decimal, digit for digit, whatever the target held before; and whatever
  non-null JSON text decodes re-encodes to itself, so "1.50" never becomes "1.5".\<close>

lemma decimal_json_roundtrip:
  "(lit_ok d \<longrightarrow> dec_UnmarshalJSON (dec_MarshalJSON d) d0 = Inr d) \<and>
   (w \<noteq> ''null'' \<longrightarrow> dec_UnmarshalJSON w d0 = Inr d \<longrightarrow> dec_MarshalJSON d = w)"
proof -
  have ind: "w \<noteq> ''null'' \<Longrightarrow> dec_UnmarshalJSON w d0 = dec_UnmarshalJSON w zero_decimal" for w
    by (simp add: dec_UnmarshalJSON_def)
  have "dec_MarshalJSON d \<noteq> ''null''" by (simp add: dec_MarshalJSON_def)
  then show ?thesis
    using dec_json.dec_enc [of d] dec_json.enc_dec [of w d] ind by simp
qed

end
