(* ===== verification/Rounding.thy ===== *)
theory Rounding
  imports Decimal
begin

section \<open>Snapping to the tick and lot grids (rounding.go)\<close>

text \<open>
  \<open>RoundPrice\<close> and \<open>RoundSize\<close> over exact rationals (math/big), down to the rendered
  decimal literal. The reference is \<open>grid_steps\<close>, truncation or rounding away from
  zero; the lemmas show that the rendered literal has exactly that value, that the error
  \<open>ParseDecimal\<close> could return is never produced, and that rounding twice changes
  nothing.
\<close>

record market =
  MarketId :: "string option"
  BaseAsset :: "string option"
  QuoteAsset :: "string option"
  TickSize :: "decimal option"
  LotSize :: "decimal option"
  MinOrderSize :: "decimal option"
  MaxOrderSize :: "decimal option"
  InitialMarginRate :: "decimal option"
  MaintenanceMarginRate :: "decimal option"
  MaxLeverage :: "int option"

type_synonym order_side = string

definition Buy :: order_side where "Buy = ''Buy''"
definition Sell :: order_side where "Sell = ''Sell''"

text \<open>big.Int.QuoRem: truncated division, the remainder with the sign of the dividend.\<close>

definition quo_rem :: "int \<Rightarrow> int \<Rightarrow> int \<times> int" where
  "quo_rem a b = (let q = sgn a * sgn b * (\<bar>a\<bar> div \<bar>b\<bar>) in (q, a - q * b))"

text \<open>big.Rat.FloatString: \<open>prec\<close> digits after the point, halves away from zero.\<close>

definition zero_pad :: "nat \<Rightarrow> string \<Rightarrow> string" where
  "zero_pad n s = replicate (n - length s) (CHR ''0'') @ s"

definition FloatString :: "rat \<Rightarrow> nat \<Rightarrow> string" where
  "FloatString x prec =
     (let (a, b) = quotient_of x;
          m = nat \<bar>a\<bar>; d = nat b; p = 10 ^ prec;
          q = m div d; t = (m mod d) * p;
          r = t div d; r2 = t mod d;
          r' = (if d \<le> 2 * r2 then r + 1 else r);
          (q', r'') = (if p \<le> r' then (q + 1, r' - p) else (q, r'))
      in (if a < 0 then ''-'' else []) @ show_nat q' @
         (if prec = 0 then [] else CHR ''.'' # zero_pad prec (show_nat r'')))"

definition decimalPlaces :: "string \<Rightarrow> nat" where
  "decimalPlaces s =
     (let i = length (takeWhile (\<lambda>c. c \<noteq> CHR ''.'') s)
      in if i < length s then length s - i - 1 else 0)"

definition roundToIncrement :: "decimal \<Rightarrow> decimal option \<Rightarrow> bool \<Rightarrow> decimal" where
  "roundToIncrement v inc awayFromZero =
     (case inc of
        None \<Rightarrow> v
      | Some i \<Rightarrow>
          (let step = dec_Rat i in
           if step = 0 then v
           else
             let steps = dec_Rat v / step;
                 (num, den) = quotient_of steps;
                 (n, rm) = quo_rem num den;
                 n = (if awayFromZero \<and> rm \<noteq> 0 then n + sgn num else n);
                 s = FloatString (of_int n * step) (decimalPlaces (dec_String i));
                 s = (if CHR ''.'' \<in> set s
                      then trim_right_char (CHR ''.'') (trim_right_char (CHR ''0'') s) else s)
             in (case ParseDecimal s of Inl _ \<Rightarrow> zero_decimal | Inr d \<Rightarrow> d)))"

datatype round_error = BadSide order_side

definition RoundPrice :: "market \<Rightarrow> decimal \<Rightarrow> order_side \<Rightarrow> round_error + decimal" where
  "RoundPrice m price side =
     (if side = Buy then Inr (roundToIncrement price (TickSize m) False)
      else if side = Sell then Inr (roundToIncrement price (TickSize m) True)
      else Inl (BadSide side))"

definition RoundSize :: "market \<Rightarrow> decimal \<Rightarrow> decimal" where
  "RoundSize m sz = roundToIncrement sz (LotSize m) False"

subsection \<open>Reference: steps of the grid\<close>

definition grid_steps :: "bool \<Rightarrow> rat \<Rightarrow> int" where
  "grid_steps away q =
     (if away = (0 \<le> q) then \<lceil>q\<rceil> else \<lfloor>q\<rfloor>)"

lemma quo_rem_floor:
  assumes "b > 0"
  shows "fst (quo_rem a b) = (if 0 \<le> a then a div b else - ((- a) div b))"
  using assms by (auto simp: quo_rem_def Let_def sgn_if)

lemma grid_steps_quotient:
  assumes "quotient_of q = (a, b)"
  shows "grid_steps away q =
    (let (n, rm) = quo_rem a b in if away \<and> rm \<noteq> 0 then n + sgn a else n)"
proof -
  from assms have b: "b > 0" and q: "q = of_int a / of_int b"
    by (auto dest: quotient_of_denom_pos quotient_of_div)
  have fl: "\<lfloor>q\<rfloor> = a div b" unfolding q by (simp add: floor_divide_of_int_eq)
  have ce: "\<lceil>q\<rceil> = - ((- a) div b)"
  proof -
    have "- q = of_int (- a) / of_int b" unfolding q by simp
    then have "\<lfloor>- q\<rfloor> = (- a) div b" by (simp only: floor_divide_of_int_eq)
    then show ?thesis by (simp add: ceiling_def)
  qed
  have pos: "0 \<le> q \<longleftrightarrow> 0 \<le> a"
    unfolding q using b by (simp add: zero_le_divide_iff)
  show ?thesis
  proof (cases "0 \<le> a")
    case True
    then have n: "fst (quo_rem a b) = a div b" using quo_rem_floor [OF b] by simp
    then have rm: "snd (quo_rem a b) = a mod b"
      by (simp add: quo_rem_def Let_def minus_div_mult_eq_mod)
    have c: "- ((- a) div b) = (if a mod b = 0 then a div b else a div b + 1)"
      using b by (simp add: zdiv_zminus1_eq_if)
    have s: "a mod b \<noteq> 0 \<Longrightarrow> sgn a = 1" using True by (auto simp: sgn_if)
    show ?thesis unfolding grid_steps_def fl ce pos c
      using True n rm s by (auto simp: case_prod_beta Let_def)
  next
    case False
    then have n: "fst (quo_rem a b) = - ((- a) div b)" using quo_rem_floor [OF b] by simp
    then have rm: "snd (quo_rem a b) = - ((- a) mod b)"
      by (simp add: quo_rem_def Let_def) (simp add: minus_div_mult_eq_mod [symmetric])
    have c: "a div b = (if (- a) mod b = 0 then - ((- a) div b) else - ((- a) div b) - 1)"
      using b zdiv_zminus1_eq_if [of b "- a"] by simp
    show ?thesis unfolding grid_steps_def fl ce pos
      using False n rm c by (auto simp: case_prod_beta Let_def sgn_if)
  qed
qed

lemma grid_steps_bounds:
  "\<bar>of_int (grid_steps False q)\<bar> \<le> \<bar>q\<bar>" "\<bar>q\<bar> \<le> \<bar>of_int (grid_steps True q)\<bar>"
  "\<bar>q - of_int (grid_steps away q)\<bar> < 1"
proof -
  have f: "of_int \<lfloor>q\<rfloor> \<le> q" "q < of_int \<lfloor>q\<rfloor> + 1" "of_int \<lceil>q\<rceil> - 1 < q" "q \<le> of_int \<lceil>q\<rceil>"
    by linarith+
  have z: "0 \<le> q \<Longrightarrow> 0 \<le> (of_int \<lfloor>q\<rfloor> :: rat)" "q < 0 \<Longrightarrow> (of_int \<lceil>q\<rceil> :: rat) \<le> 0"
    by (simp_all only: of_int_0_le_iff of_int_le_0_iff) linarith+
  have e: "0 \<le> q \<Longrightarrow> grid_steps False q = \<lfloor>q\<rfloor>" "0 \<le> q \<Longrightarrow> grid_steps True q = \<lceil>q\<rceil>"
    "q < 0 \<Longrightarrow> grid_steps False q = \<lceil>q\<rceil>" "q < 0 \<Longrightarrow> grid_steps True q = \<lfloor>q\<rfloor>"
    by (simp_all add: grid_steps_def)
  consider "0 \<le> q" | "q < 0" by linarith
  then have "\<bar>of_int (grid_steps False q)\<bar> \<le> \<bar>q\<bar> \<and> \<bar>q\<bar> \<le> \<bar>of_int (grid_steps True q)\<bar>
      \<and> \<bar>q - of_int (grid_steps away q)\<bar> < 1"
  proof cases
    case 1
    show ?thesis using f z(1) [OF 1] 1 by (cases away; simp only: e(1,2) [OF 1]; linarith)
  next
    case 2
    show ?thesis using f z(2) [OF 2] 2 by (cases away; simp only: e(3,4) [OF 2]; linarith)
  qed
  then show "\<bar>of_int (grid_steps False q)\<bar> \<le> \<bar>q\<bar>" "\<bar>q\<bar> \<le> \<bar>of_int (grid_steps True q)\<bar>"
    "\<bar>q - of_int (grid_steps away q)\<bar> < 1" by blast+
qed

lemma grid_steps_int [simp]: "grid_steps away (of_int n) = n"
  by (simp add: grid_steps_def)

subsection \<open>FloatString is exact on the grid\<close>

lemma int_part_show_nat: "int_part (show_nat n)"
  by (cases "n = 0") (auto simp: int_part_def show_nat_hd_zero)

lemma zero_pad_props:
  assumes "r < 10 ^ n" "0 < n"
  shows "length (zero_pad n (show_nat r)) = n" "digits_val (zero_pad n (show_nat r)) = r"
    "all_digits (zero_pad n (show_nat r))"
proof -
  have "length (show_nat r) \<le> n" using assms by (rule length_show_nat)
  then show "length (zero_pad n (show_nat r)) = n" by (simp add: zero_pad_def)
  show "digits_val (zero_pad n (show_nat r)) = r" by (simp add: zero_pad_def digits_val_append)
  show "all_digits (zero_pad n (show_nat r))"
    using show_nat_digits [of r] by (auto simp: zero_pad_def all_digits_def list_all_iff is_digit_def)
qed

definition grid_text :: "bool \<Rightarrow> nat \<Rightarrow> nat \<Rightarrow> nat \<Rightarrow> string" where
  "grid_text neg q r prec =
     (if neg then ''-'' else []) @ show_nat q @
     (if prec = 0 then [] else CHR ''.'' # zero_pad prec (show_nat r))"

lemma FloatString_exact:
  assumes "x * 10 ^ prec = of_int z"
  obtains q r where "FloatString x prec = grid_text (x < 0) q r prec" "r < 10 ^ prec"
    "\<bar>x\<bar> = of_nat (q * 10 ^ prec + r) / 10 ^ prec"
proof -
  obtain a b where ab: "quotient_of x = (a, b)" by fastforce
  then have b: "b > 0" and x: "x = of_int a / of_int b"
    by (auto dest: quotient_of_denom_pos quotient_of_div)
  define m d p where "m = nat \<bar>a\<bar>" and "d = nat b" and "p = (10::nat) ^ prec"
  have d: "d > 0" using b by (simp add: d_def)
  have ax: "\<bar>x\<bar> = of_nat m / of_nat d"
    unfolding x m_def d_def using b by simp
  have "of_nat (m * p) = (of_nat (nat \<bar>z\<bar>) :: rat) * of_nat d"
  proof -
    have "\<bar>x\<bar> * 10 ^ prec = \<bar>x * 10 ^ prec\<bar>" by (simp add: abs_mult)
    then have "\<bar>x\<bar> * 10 ^ prec = of_nat (nat \<bar>z\<bar>)" unfolding assms by simp
    then show ?thesis using d ax by (simp add: p_def field_simps)
  qed
  then have dv: "d dvd m * p" by (metis dvd_triv_right of_nat_eq_iff of_nat_mult)
  define t where "t = (m mod d) * p"
  have split: "m * p = (m div d) * p * d + t"
    unfolding t_def by (metis add_mult_distrib div_mult_mod_eq mult.assoc mult.commute)
  then have dt: "d dvd t" using dv by (metis dvd_add_right_iff dvd_triv_right)
  have tb: "t div d < p"
  proof -
    have "t < d * p" using d unfolding t_def p_def by simp
    then show ?thesis by (simp add: less_mult_imp_div_less mult.commute)
  qed
  have "FloatString x prec = grid_text (x < 0) (m div d) (t div d) prec"
  proof -
    have neg: "(a < 0) = (x < 0)" unfolding x using b by (simp add: divide_less_0_iff)
    have r0: "t mod d = 0" using dt by simp
    have c: "(d \<le> 2 * 0) = False" "(p \<le> t div d) = False" using d tb by simp_all
    show ?thesis
      unfolding FloatString_def grid_text_def ab Let_def prod.case m_def [symmetric]
        d_def [symmetric] p_def [symmetric] t_def [symmetric] r0 c if_False neg ..
  qed
  moreover have "\<bar>x\<bar> = of_nat ((m div d) * p + t div d) / of_nat p"
  proof -
    have "m * p = ((m div d) * p + t div d) * d"
      using split dt by (simp add: add_mult_distrib)
    then have "of_nat m * of_nat p = (of_nat ((m div d) * p + t div d) :: rat) * of_nat d"
      by (metis of_nat_mult)
    then show ?thesis unfolding ax using d by (simp add: p_def field_simps)
  qed
  ultimately show thesis using that tb by (simp add: p_def)
qed

text \<open>What is left of the rendered text after the trailing zeros and the point are cut.\<close>

definition cut_text :: "string \<Rightarrow> string" where
  "cut_text s = (if CHR ''.'' \<in> set s
     then trim_right_char (CHR ''.'') (trim_right_char (CHR ''0'') s) else s)"

lemma digits_no_dot: "all_digits s \<Longrightarrow> CHR ''.'' \<notin> set s"
  by (auto simp: all_digits_def list_all_iff dest: digit_not_dot)

lemma cut_text_frac:
  assumes ip: "int_part ip" and ds: "all_digits ds" and sg: "sg \<in> {[], ''-''}"
  obtains fp k where "cut_text (sg @ ip @ CHR ''.'' # ds) = sg @ ip @ fp" "frac_part fp"
    "ds = tl fp @ replicate k (CHR ''0'')" "fp = [] \<or> last fp \<noteq> CHR ''0'' \<and> last fp \<noteq> CHR ''.''"
    "length fp - 1 = length (tl fp)"
proof -
  let ?z = "CHR ''0''"
  have adi: "all_digits ip" using ip by (rule int_part_digits)
  have ipl: "ip \<noteq> []" "last ip \<noteq> CHR ''.''"
    using adi digits_no_dot [OF adi] last_in_set [of ip] by (auto simp: all_digits_def simp del: last_in_set)
  define ds' where "ds' = trim_right_char ?z ds"
  obtain k where k: "ds' @ replicate k ?z = ds"
    unfolding ds'_def using trim_right_char_split [of ds ?z] by metis
  have dot: "CHR ''.'' \<in> set (sg @ ip @ CHR ''.'' # ds)" by simp
  have z: "trim_right_char ?z (sg @ ip @ CHR ''.'' # ds) = sg @ ip @ CHR ''.'' # ds'"
    using trim_right_char_append [of ?z "sg @ ip @ [CHR ''.'']" ds]
      trim_right_char_id [of "sg @ ip @ [CHR ''.'']" ?z]
    by (auto simp: ds'_def trim_right_char_def dropWhile_eq_Nil_conv)
  show thesis
  proof (cases "ds' = []")
    case True
    have "trim_right_char (CHR ''.'') (sg @ ip @ [CHR ''.'']) = sg @ ip"
      using trim_right_char_append [of "CHR ''.''" "sg @ ip" "[CHR ''.'']"]
        trim_right_char_id [of "sg @ ip" "CHR ''.''"] ipl by simp
    then have "cut_text (sg @ ip @ CHR ''.'' # ds) = sg @ ip @ []"
      using True z dot by (simp add: cut_text_def)
    moreover have "ds = replicate k ?z" using k True by simp
    ultimately show thesis by (intro that [of "[]" k]) (simp_all add: frac_part_def)
  next
    case False
    have sub: "set ds' \<subseteq> set ds" using k by auto
    then have ad: "all_digits ds'" using ds False by (auto simp: all_digits_def list_all_iff)
    have l: "last ds' \<noteq> ?z" using False trim_right_char_last unfolding ds'_def by blast
    have ld: "last ds' \<noteq> CHR ''.''" using digits_no_dot [OF ad] False by (metis last_in_set)
    have "trim_right_char (CHR ''.'') (sg @ ip @ CHR ''.'' # ds') = sg @ ip @ CHR ''.'' # ds'"
      using ld False by (intro trim_right_char_id) auto
    then have "cut_text (sg @ ip @ CHR ''.'' # ds) = sg @ ip @ CHR ''.'' # ds'"
      using z dot by (simp add: cut_text_def)
    then show thesis using k [symmetric] ad l ld False
      by (intro that [of "CHR ''.'' # ds'" k]) (simp_all add: frac_part_def)
  qed
qed

subsection \<open>The rounded decimal\<close>

definition canonical_text :: "string \<Rightarrow> bool" where
  "canonical_text s = (CHR ''.'' \<in> set s \<longrightarrow> last s \<noteq> CHR ''0'' \<and> last s \<noteq> CHR ''.'')"

lemma decimalPlaces_parts:
  assumes "sg \<in> {[], ''-''}" "int_part ip" "frac_part fp"
  shows "decimalPlaces (sg @ ip @ fp) = length fp - 1"
proof -
  have "CHR ''.'' \<notin> set (sg @ ip)"
    using assms(1) digits_no_dot [OF int_part_digits [OF assms(2)]] by auto
  then have "takeWhile (\<lambda>c. c \<noteq> CHR ''.'') ((sg @ ip) @ fp) = sg @ ip"
    using assms(3) by (subst takeWhile_append2) (auto simp: frac_part_def)
  then show ?thesis by (auto simp: decimalPlaces_def Let_def)
qed

lemma on_grid_int:
  assumes "decimal_ok i"
  obtains z where "of_int n * dec_Rat i * 10 ^ decimalPlaces (dec_String i) = of_int z"
proof -
  obtain sg ip fp where s: "dec_String i = sg @ ip @ fp" "sg \<in> {[], ''-''}" "int_part ip" "frac_part fp"
    using dec_String_literal [OF assms] unfolding literal_grammar by blast
  let ?z = "n * ((if sg = [] then 1 else -1) * int (digits_val (ip @ tl fp)))"
  have "of_int n * dec_Rat i * 10 ^ decimalPlaces (dec_String i) = of_int ?z"
    unfolding dec_Rat_def s(1) lit_val_parts [OF s(2-4)] decimalPlaces_parts [OF s(2-4)] by simp
  then show thesis by (rule that)
qed

lemma grid_text_cut:
  assumes r: "r < 10 ^ prec"
  shows "rx_matches decimalLiteral (cut_text (grid_text neg q r prec))"
    and "lit_val (cut_text (grid_text neg q r prec)) =
      (if neg then -1 else 1) * (of_nat (q * 10 ^ prec + r) / 10 ^ prec)"
    and "canonical_text (cut_text (grid_text neg q r prec))"
proof -
  let ?sg = "if neg then ''-'' else []"
  have sg: "?sg \<in> {[], ''-''}" by simp
  have ip: "int_part (show_nat q)" by (rule int_part_show_nat)
  obtain fp k where c: "cut_text (grid_text neg q r prec) = ?sg @ show_nat q @ fp" "frac_part fp"
    and last: "fp = [] \<or> last fp \<noteq> CHR ''0'' \<and> last fp \<noteq> CHR ''.''"
    and v: "of_nat (digits_val (show_nat q @ tl fp)) / 10 ^ (length fp - 1) =
      (of_nat (q * 10 ^ prec + r) / 10 ^ prec :: rat)"
  proof (cases "prec = 0")
    case True
    have nd: "CHR ''.'' \<notin> set (?sg @ show_nat q)"
      using digits_no_dot [OF all_digits_show_nat [of q]] by auto
    then have "cut_text (grid_text neg q r prec) = ?sg @ show_nat q @ []"
      using True by (simp add: grid_text_def cut_text_def)
    then show thesis using that [of "[]"] True r by (simp add: frac_part_def)
  next
    case False
    note pad = zero_pad_props [OF r, unfolded gr0_conv_Suc]
    define ds where "ds = zero_pad prec (show_nat r)"
    have ds: "length ds = prec" "digits_val ds = r" "all_digits ds"
      unfolding ds_def using zero_pad_props [OF r] False by blast+
    obtain fp k where f: "cut_text (?sg @ show_nat q @ CHR ''.'' # ds) = ?sg @ show_nat q @ fp"
      "frac_part fp" "ds = tl fp @ replicate k (CHR ''0'')"
      "fp = [] \<or> last fp \<noteq> CHR ''0'' \<and> last fp \<noteq> CHR ''.''" "length fp - 1 = length (tl fp)"
      using cut_text_frac [OF ip ds(3) sg] by blast
    have len: "prec = length (tl fp) + k" using f(3) ds(1) by auto
    have "digits_val (show_nat q @ ds) = digits_val (show_nat q @ tl fp) * 10 ^ k"
      using digits_val_append [of "show_nat q @ tl fp" "replicate k (CHR ''0'')"] f(3) by simp
    moreover have "digits_val (show_nat q @ ds) = q * 10 ^ prec + r"
      using ds by (simp add: digits_val_append)
    ultimately have "q * 10 ^ prec + r = digits_val (show_nat q @ tl fp) * 10 ^ k" by simp
    then have "of_nat (digits_val (show_nat q @ tl fp)) / 10 ^ (length fp - 1) =
        (of_nat (q * 10 ^ prec + r) / 10 ^ prec :: rat)"
      by (simp add: f(5) len power_add)
    moreover have "cut_text (grid_text neg q r prec) = ?sg @ show_nat q @ fp"
      using f(1) False by (simp add: grid_text_def ds_def)
    ultimately show thesis using f that by blast
  qed
  show "rx_matches decimalLiteral (cut_text (grid_text neg q r prec))"
    unfolding literal_grammar c(1) using sg ip c(2) by blast
  show "lit_val (cut_text (grid_text neg q r prec)) =
      (if neg then -1 else 1) * (of_nat (q * 10 ^ prec + r) / 10 ^ prec)"
    unfolding c(1) lit_val_parts [OF sg ip c(2)] v by simp
  have "CHR ''.'' \<notin> set (?sg @ show_nat q)"
    using digits_no_dot [OF all_digits_show_nat [of q]] by auto
  then show "canonical_text (cut_text (grid_text neg q r prec))"
    unfolding canonical_text_def c(1) using last by (cases "fp = []") auto
qed

lemma round_step:
  fixes v :: decimal and away :: bool
  assumes ok: "decimal_ok i" and nz: "dec_Rat i \<noteq> 0"
  defines "n \<equiv> grid_steps away (dec_Rat v / dec_Rat i)"
  shows "\<exists>s. roundToIncrement v (Some i) away = \<lparr>dec_s = s\<rparr> \<and> rx_matches decimalLiteral s \<and>
      lit_val s = of_int n * dec_Rat i \<and> canonical_text s \<and>
      s = cut_text (FloatString (of_int n * dec_Rat i) (decimalPlaces (dec_String i)))"
proof -
  let ?x = "of_int n * dec_Rat i" and ?p = "decimalPlaces (dec_String i)"
  obtain z where "?x * 10 ^ ?p = of_int z" using on_grid_int [OF ok] by blast
  then obtain q r where f: "FloatString ?x ?p = grid_text (?x < 0) q r ?p" "r < 10 ^ ?p"
    "\<bar>?x\<bar> = of_nat (q * 10 ^ ?p + r) / 10 ^ ?p" by (rule FloatString_exact)
  define s where "s = cut_text (FloatString ?x ?p)"
  have m: "rx_matches decimalLiteral s" and c: "canonical_text s"
    unfolding s_def f(1) using grid_text_cut [OF f(2)] by blast+
  have v: "lit_val s = ?x"
    unfolding s_def f(1) grid_text_cut(2) [OF f(2)] f(3) [symmetric] by simp
  obtain a b where ab: "quotient_of (dec_Rat v / dec_Rat i) = (a, b)" by fastforce
  have "roundToIncrement v (Some i) away =
      (case ParseDecimal s of Inl _ \<Rightarrow> zero_decimal | Inr d \<Rightarrow> d)"
    using nz grid_steps_quotient [OF ab, of away]
    by (simp add: roundToIncrement_def ab s_def n_def cut_text_def case_prod_beta Let_def)
  also have "\<dots> = \<lparr>dec_s = s\<rparr>" using m by (simp add: ParseDecimal_def)
  finally show ?thesis using m v c s_def by blast
qed

lemma round_no_grid:
  "roundToIncrement v None away = v"
  "dec_Rat i = 0 \<Longrightarrow> roundToIncrement v (Some i) away = v"
  by (simp_all add: roundToIncrement_def)

subsection \<open>Properties\<close>

text \<open>C36: for a market whose increment is a non-zero decimal, rounding returns a valid
  literal (the error ParseDecimal could return never occurs) with no superfluous fraction
  digits, whose exact value is the reference number of steps, truncated or rounded away from
  zero, times the increment. The rendered text loses nothing.\<close>

theorem round_exact_value:
  assumes "decimal_ok i" and "dec_Rat i \<noteq> 0"
  shows "lit_ok (roundToIncrement v (Some i) away) \<and>
    canonical_text (dec_s (roundToIncrement v (Some i) away)) \<and>
    dec_Rat (roundToIncrement v (Some i) away) =
      of_int (grid_steps away (dec_Rat v / dec_Rat i)) * dec_Rat i"
  using round_step [OF assms, of v away]
  by (auto simp: lit_ok_def dec_Rat_def dec_String_def dest: literal_not_Nil)

theorem round_exact_value_witness:
  "dec_Rat (roundToIncrement \<lparr>dec_s = ''-50000.76''\<rparr> (Some \<lparr>dec_s = ''0.50''\<rparr>) True) =
     of_int (grid_steps True (dec_Rat \<lparr>dec_s = ''-50000.76''\<rparr> / dec_Rat \<lparr>dec_s = ''0.50''\<rparr>))
       * dec_Rat \<lparr>dec_s = ''0.50''\<rparr>"
proof -
  have "decimal_ok \<lparr>dec_s = ''0.50''\<rparr>" "dec_Rat \<lparr>dec_s = ''0.50''\<rparr> \<noteq> 0"
    by code_simp+
  then show ?thesis using round_exact_value by blast
qed

text \<open>C11: a rounded price is on the safe side of the book and less than a tick away: for a
  non-negative price and a positive tick a Buy comes out at or below the price, a Sell at or
  above it, both a whole number of ticks.\<close>

theorem RoundPrice_safe_side:
  assumes "TickSize m = Some t" and "decimal_ok t" and "0 < dec_Rat t" and "0 \<le> dec_Rat p"
  shows "\<exists>b s k l. RoundPrice m p Buy = Inr b \<and> RoundPrice m p Sell = Inr s \<and>
    dec_Rat b = of_int k * dec_Rat t \<and> dec_Rat s = of_int l * dec_Rat t \<and>
    dec_Rat b \<le> dec_Rat p \<and> dec_Rat p < dec_Rat b + dec_Rat t \<and>
    dec_Rat p \<le> dec_Rat s \<and> dec_Rat s < dec_Rat p + dec_Rat t"
proof -
  let ?q = "dec_Rat p / dec_Rat t"
  have q: "0 \<le> ?q" "?q * dec_Rat t = dec_Rat p" using assms(3,4) by simp_all
  have steps: "grid_steps False ?q = \<lfloor>?q\<rfloor>" "grid_steps True ?q = \<lceil>?q\<rceil>"
    using q by (simp_all add: grid_steps_def)
  have nz: "dec_Rat t \<noteq> 0" using assms(3) by simp
  note val = round_step [OF assms(2) nz, of p]
  obtain b where b: "RoundPrice m p Buy = Inr b" "dec_Rat b = of_int \<lfloor>?q\<rfloor> * dec_Rat t"
    using val [of False] assms(1) steps
    by (auto simp: RoundPrice_def dec_Rat_def dec_String_def dest: literal_not_Nil)
  obtain s where s: "RoundPrice m p Sell = Inr s" "dec_Rat s = of_int \<lceil>?q\<rceil> * dec_Rat t"
    using val [of True] assms(1) steps
    by (auto simp: RoundPrice_def Buy_def Sell_def dec_Rat_def dec_String_def dest: literal_not_Nil)
  have "of_int \<lfloor>?q\<rfloor> * dec_Rat t \<le> dec_Rat p" "dec_Rat p < (of_int \<lfloor>?q\<rfloor> + 1) * dec_Rat t"
    "dec_Rat p \<le> of_int \<lceil>?q\<rceil> * dec_Rat t" "(of_int \<lceil>?q\<rceil> - 1) * dec_Rat t < dec_Rat p"
    using assms(3) by (simp_all only: pos_le_divide_eq [symmetric] pos_divide_less_eq [symmetric]
      pos_divide_le_eq [symmetric] pos_less_divide_eq [symmetric]) linarith+
  then show ?thesis using b s by (auto simp: algebra_simps)
qed

theorem RoundPrice_safe_side_witness:
  "\<exists>b s k l.
    RoundPrice \<lparr>MarketId = None, BaseAsset = None, QuoteAsset = None,
      TickSize = Some \<lparr>dec_s = ''0.5''\<rparr>, LotSize = None, MinOrderSize = None, MaxOrderSize = None,
      InitialMarginRate = None, MaintenanceMarginRate = None, MaxLeverage = None\<rparr>
      \<lparr>dec_s = ''100.3''\<rparr> Buy = Inr b \<and>
    RoundPrice \<lparr>MarketId = None, BaseAsset = None, QuoteAsset = None,
      TickSize = Some \<lparr>dec_s = ''0.5''\<rparr>, LotSize = None, MinOrderSize = None, MaxOrderSize = None,
      InitialMarginRate = None, MaintenanceMarginRate = None, MaxLeverage = None\<rparr>
      \<lparr>dec_s = ''100.3''\<rparr> Sell = Inr s \<and>
    dec_Rat b = of_int k * dec_Rat \<lparr>dec_s = ''0.5''\<rparr> \<and>
    dec_Rat s = of_int l * dec_Rat \<lparr>dec_s = ''0.5''\<rparr> \<and>
    dec_Rat b \<le> dec_Rat \<lparr>dec_s = ''100.3''\<rparr> \<and>
    dec_Rat \<lparr>dec_s = ''100.3''\<rparr> < dec_Rat b + dec_Rat \<lparr>dec_s = ''0.5''\<rparr> \<and>
    dec_Rat \<lparr>dec_s = ''100.3''\<rparr> \<le> dec_Rat s \<and>
    dec_Rat s < dec_Rat \<lparr>dec_s = ''100.3''\<rparr> + dec_Rat \<lparr>dec_s = ''0.5''\<rparr>"
proof -
  have ok: "decimal_ok \<lparr>dec_s = ''0.5''\<rparr>" by code_simp
  have pos: "0 < dec_Rat \<lparr>dec_s = ''0.5''\<rparr>" by code_simp
  have price: "0 \<le> dec_Rat \<lparr>dec_s = ''100.3''\<rparr>" by code_simp
  show ?thesis by (rule RoundPrice_safe_side [OF _ ok pos price]) simp
qed

text \<open>Rounding is idempotent on the text itself: rounding an already rounded decimal, in
  either direction, returns it unchanged, with or without an increment.\<close>

lemma round_idempotent:
  assumes "\<forall>i. inc = Some i \<longrightarrow> decimal_ok i"
  shows "roundToIncrement (roundToIncrement v inc a) inc b =
    (if inc = None then v else roundToIncrement v inc a)"
proof (cases inc)
  case None
  then show ?thesis by (simp add: round_no_grid)
next
  case (Some i)
  show ?thesis
  proof (cases "dec_Rat i = 0")
    case True
    with Some show ?thesis by (simp add: round_no_grid)
  next
    case False
    have ok: "decimal_ok i" using assms Some by blast
    let ?n = "grid_steps a (dec_Rat v / dec_Rat i)"
    obtain s where s: "roundToIncrement v (Some i) a = \<lparr>dec_s = s\<rparr>" "rx_matches decimalLiteral s"
      "lit_val s = of_int ?n * dec_Rat i"
      "s = cut_text (FloatString (of_int ?n * dec_Rat i) (decimalPlaces (dec_String i)))"
      using round_step [OF ok False, of v a] by blast
    have "dec_Rat \<lparr>dec_s = s\<rparr> = of_int ?n * dec_Rat i"
      using literal_not_Nil [OF s(2)] s(3)
      by (simp add: dec_Rat_def [of "\<lparr>dec_s = s\<rparr>"] dec_String_def [of "\<lparr>dec_s = s\<rparr>"])
    then have "dec_Rat \<lparr>dec_s = s\<rparr> / dec_Rat i = of_int ?n"
      using False by simp
    then have "grid_steps b (dec_Rat \<lparr>dec_s = s\<rparr> / dec_Rat i) = ?n" by simp
    then have "roundToIncrement \<lparr>dec_s = s\<rparr> (Some i) b = \<lparr>dec_s = s\<rparr>"
      using round_step [OF ok False, of "\<lparr>dec_s = s\<rparr>" b] s(4) by auto
    then show ?thesis using Some s(1) by simp
  qed
qed

end
