(* ===== verification/Json.thy ===== *)
theory Json
  imports Prelude
begin

section \<open>JSON texts and values (encoding/json, transport.go UnmarshalNumbers)\<close>

text \<open>
  The scanner and decoder of encoding/json as far as the SDK uses them. A text is cut into
  tokens by a byte-at-a-time state machine, as Go's scanner does it, and the tokens are
  folded into a value by a machine with an explicit stack (Go's parseState). A number keeps
  its literal, so a value read as a \<open>json.RawMessage\<close> or a \<open>json.Number\<close> loses no
  digit; only white space between tokens is not represented.

  A text can fail in ways that callers of a Decoder tell apart: it holds no value at all
  (\<open>JEof\<close>: io.EOF), it ends inside a value (\<open>JCut\<close>: io.ErrUnexpectedEOF), or a byte cannot
  continue it (\<open>JSyntax\<close>: *json.SyntaxError). json.Unmarshal reports all as a SyntaxError.
\<close>

datatype json =
    JNull
  | JBool bool
  | JNum string
  | JStr string
  | JArr "json list"
  | JObj "(string \<times> json) list"

datatype json_error =
    JEof
  | JCut
  | JSyntax
  | JType
  | JTrailing
  | JCustom string

subsection \<open>Strings\<close>

datatype piece =
    PByte char
  | PUnit nat

definition utf8_bytes :: "nat \<Rightarrow> string" where
  "utf8_bytes r = map char_of
     (if r < 0x80 then [r]
      else if r < 0x800 then [0xC0 + r div 64, 0x80 + r mod 64]
      else if r < 0x10000 then [0xE0 + r div 4096, 0x80 + r div 64 mod 64, 0x80 + r mod 64]
      else [0xF0 + r div 262144, 0x80 + r div 4096 mod 64, 0x80 + r div 64 mod 64, 0x80 + r mod 64])"

text \<open>U+FFFD, which replaces a byte that is not UTF-8 and a lone surrogate.\<close>

definition replacement_char :: string where
  "replacement_char = [CHR 0xEF, CHR 0xBF, CHR 0xBD]"

definition cont_byte :: "nat \<Rightarrow> bool" where
  "cont_byte n = (0x80 \<le> n \<and> n \<le> 0xBF)"

text \<open>The number of continuation bytes after lead byte a whose next byte is b, or None.\<close>

definition utf8_follow :: "nat \<Rightarrow> nat \<Rightarrow> nat option" where
  "utf8_follow a b =
     (if 0xC2 \<le> a \<and> a \<le> 0xDF \<and> cont_byte b then Some 1
      else if a = 0xE0 \<and> 0xA0 \<le> b \<and> b \<le> 0xBF then Some 2
      else if 0xE1 \<le> a \<and> a \<le> 0xEC \<and> cont_byte b then Some 2
      else if a = 0xED \<and> 0x80 \<le> b \<and> b \<le> 0x9F then Some 2
      else if 0xEE \<le> a \<and> a \<le> 0xEF \<and> cont_byte b then Some 2
      else if a = 0xF0 \<and> 0x90 \<le> b \<and> b \<le> 0xBF then Some 3
      else if 0xF1 \<le> a \<and> a \<le> 0xF3 \<and> cont_byte b then Some 3
      else if a = 0xF4 \<and> 0x80 \<le> b \<and> b \<le> 0x8F then Some 3
      else None)"

fun piece_cont :: "piece \<Rightarrow> bool" where
  "piece_cont (PByte c) = cont_byte (of_char c)"
| "piece_cont (PUnit u) = False"

text \<open>How many pieces the UTF-8 character at the head of the list takes; 0 when it is none.\<close>

fun utf8_width :: "piece list \<Rightarrow> nat" where
  "utf8_width (PByte a # PByte b # ps) =
     (case utf8_follow (of_char a) (of_char b) of
        None \<Rightarrow> 0
      | Some k \<Rightarrow> if k - 1 \<le> length ps \<and> list_all piece_cont (take (k - 1) ps) then Suc k else 0)"
| "utf8_width ps = 0"

fun piece_char :: "piece \<Rightarrow> char" where
  "piece_char (PByte c) = c"
| "piece_char (PUnit u) = CHR 0x00"

fun unquote_pieces :: "piece list \<Rightarrow> string" where
  "unquote_pieces [] = []"
| "unquote_pieces (PUnit u # ps) =
     (if 0xD800 \<le> u \<and> u < 0xDC00 then
        (case ps of
           PUnit l # qs \<Rightarrow>
             if 0xDC00 \<le> l \<and> l < 0xE000
             then utf8_bytes (0x10000 + (u - 0xD800) * 0x400 + (l - 0xDC00)) @ unquote_pieces qs
             else replacement_char @ unquote_pieces ps
         | _ \<Rightarrow> replacement_char @ unquote_pieces ps)
      else if 0xDC00 \<le> u \<and> u < 0xE000 then replacement_char @ unquote_pieces ps
      else utf8_bytes u @ unquote_pieces ps)"
| "unquote_pieces (PByte c # ps) =
     (if (of_char c :: nat) < 0x80 then c # unquote_pieces ps
      else let w = utf8_width (PByte c # ps) in
           if w = 0 then replacement_char @ unquote_pieces ps
           else c # map piece_char (take (w - 1) ps) @ unquote_pieces (drop (w - 1) ps))"

subsection \<open>Tokens\<close>

datatype token =
    TLBrack | TRBrack | TLBrace | TRBrace | TComma | TColon
  | TTrue | TFalse | TNull
  | TNumber string
  | TString string
  | TEnd
  | TCut bool
  | TBad

text \<open>
  \<open>TCut\<close> is a token the text ends in, \<open>TCut True\<close> a string; \<open>TBad\<close> a byte that
  starts or continues no token.
\<close>

text \<open>
  The number states are Go's: after a leading minus, after a leading 0, in the integer
  digits, after the point, in the fraction, after e, after its sign, in the exponent.
\<close>

datatype num_state = NNeg | N0 | N1 | NDot | NDot0 | NE | NESign | NE0

datatype lex_state =
    LBegin
  | LStr "piece list"
  | LEsc "piece list"
  | LHex "piece list" "nat list"
  | LNum num_state string
  | LWord string token

definition is_json_space :: "char \<Rightarrow> bool" where
  "is_json_space c = (c \<in> {CHR '' '', CHR 0x09, CHR 0x0D, CHR 0x0A})"

text \<open>One byte at the beginning of a token; None when no token starts with it.\<close>

definition lex_begin :: "char \<Rightarrow> (token list \<times> lex_state) option" where
  "lex_begin c =
     (if is_json_space c then Some ([], LBegin)
      else if c = CHR ''['' then Some ([TLBrack], LBegin)
      else if c = CHR '']'' then Some ([TRBrack], LBegin)
      else if c = CHR ''{'' then Some ([TLBrace], LBegin)
      else if c = CHR ''}'' then Some ([TRBrace], LBegin)
      else if c = CHR '','' then Some ([TComma], LBegin)
      else if c = CHR '':'' then Some ([TColon], LBegin)
      else if c = CHR 0x22 then Some ([], LStr [])
      else if c = CHR ''-'' then Some ([], LNum NNeg ''-'')
      else if c = CHR ''0'' then Some ([], LNum N0 ''0'')
      else if is_digit c then Some ([], LNum N1 [c])
      else if c = CHR ''t'' then Some ([], LWord ''rue'' TTrue)
      else if c = CHR ''f'' then Some ([], LWord ''alse'' TFalse)
      else if c = CHR ''n'' then Some ([], LWord ''ull'' TNull)
      else None)"

definition escape_char :: "char \<Rightarrow> char option" where
  "escape_char c =
     (if c = CHR ''b'' then Some (CHR 0x08)
      else if c = CHR ''f'' then Some (CHR 0x0C)
      else if c = CHR ''n'' then Some (CHR 0x0A)
      else if c = CHR ''r'' then Some (CHR 0x0D)
      else if c = CHR ''t'' then Some (CHR 0x09)
      else if c = CHR 0x22 \<or> c = CHR 0x5C \<or> c = CHR ''/'' then Some c
      else None)"

text \<open>What a number state does with a byte: the next state, or None where the number ends
  or the byte is an error.\<close>

fun num_step :: "num_state \<Rightarrow> char \<Rightarrow> num_state option" where
  "num_step NNeg c = (if c = CHR ''0'' then Some N0 else if is_digit c then Some N1 else None)"
| "num_step N1 c =
     (if is_digit c then Some N1 else if c = CHR ''.'' then Some NDot
      else if c = CHR ''e'' \<or> c = CHR ''E'' then Some NE else None)"
| "num_step N0 c =
     (if c = CHR ''.'' then Some NDot else if c = CHR ''e'' \<or> c = CHR ''E'' then Some NE else None)"
| "num_step NDot c = (if is_digit c then Some NDot0 else None)"
| "num_step NDot0 c =
     (if is_digit c then Some NDot0 else if c = CHR ''e'' \<or> c = CHR ''E'' then Some NE else None)"
| "num_step NE c =
     (if c = CHR ''+'' \<or> c = CHR ''-'' then Some NESign else if is_digit c then Some NE0 else None)"
| "num_step NESign c = (if is_digit c then Some NE0 else None)"
| "num_step NE0 c = (if is_digit c then Some NE0 else None)"

definition num_final :: "num_state \<Rightarrow> bool" where
  "num_final st = (st \<in> {N0, N1, NDot0, NE0})"

definition word_hex :: "nat list \<Rightarrow> nat" where
  "word_hex ds = foldl (\<lambda>a d. 16 * a + d) 0 ds"

fun lex_step :: "lex_state \<Rightarrow> char \<Rightarrow> (token list \<times> lex_state) option" where
  "lex_step LBegin c = lex_begin c"
| "lex_step (LStr ps) c =
     (if c = CHR 0x22 then Some ([TString (unquote_pieces ps)], LBegin)
      else if c = CHR 0x5C then Some ([], LEsc ps)
      else if (of_char c :: nat) < 0x20 then None
      else Some ([], LStr (ps @ [PByte c])))"
| "lex_step (LEsc ps) c =
     (if c = CHR ''u'' then Some ([], LHex ps [])
      else map_option (\<lambda>e. ([], LStr (ps @ [PByte e]))) (escape_char c))"
| "lex_step (LHex ps ds) c =
     (case hex_val c of
        None \<Rightarrow> None
      | Some d \<Rightarrow> if length ds = 3 then Some ([], LStr (ps @ [PUnit (word_hex (ds @ [d]))]))
                  else Some ([], LHex ps (ds @ [d])))"
| "lex_step (LNum st lit) c =
     (case num_step st c of
        Some st' \<Rightarrow> Some ([], LNum st' (lit @ [c]))
      | None \<Rightarrow>
          if num_final st
          then (case lex_begin c of
                  Some (ts, m) \<Rightarrow> Some (TNumber lit # ts, m)
                | None \<Rightarrow> Some ([TNumber lit, TBad], LBegin))
          else None)"
| "lex_step (LWord w t) c =
     (case w of
        [] \<Rightarrow> None
      | x # xs \<Rightarrow> if c \<noteq> x then None
                  else if xs = [] then Some ([t], LBegin) else Some ([], LWord xs t))"

definition lex_end :: "lex_state \<Rightarrow> token list" where
  "lex_end m =
     (case m of
        LBegin \<Rightarrow> [TEnd]
      | LNum st lit \<Rightarrow> if num_final st then [TNumber lit, TEnd] else [TCut False]
      | LWord w t \<Rightarrow> [TCut False]
      | _ \<Rightarrow> [TCut True])"

fun lex :: "lex_state \<Rightarrow> string \<Rightarrow> token list" where
  "lex m [] = lex_end m"
| "lex m (c # cs) =
     (case lex_step m c of
        None \<Rightarrow> [TBad]
      | Some (ts, m') \<Rightarrow> ts @ lex m' cs)"

subsection \<open>Values\<close>

datatype frame =
    FArr "json list"
  | FObj "(string \<times> json) list" string

datatype parse_state =
    VBegin
  | VBeginOrEnd
  | VKey
  | VKeyOrEnd
  | VColon string
  | VAfter

definition max_nesting :: nat where
  "max_nesting = 10000"

text \<open>
  What is still expected, the open arrays and objects, innermost first, and for the objects
  whose key is being read the members so far. \<open>finish\<close> puts a complete value where it
  belongs; with nothing open it is the text's value.
\<close>

fun finish :: "json \<Rightarrow> frame list \<Rightarrow> json + frame list" where
  "finish v [] = Inl v"
| "finish v (FArr vs # st) = Inr (FArr (vs @ [v]) # st)"
| "finish v (FObj ms k # st) = Inr (FObj (ms @ [(k, v)]) k # st)"

definition scalar_token :: "token \<Rightarrow> json option" where
  "scalar_token t =
     (case t of
        TTrue \<Rightarrow> Some (JBool True)
      | TFalse \<Rightarrow> Some (JBool False)
      | TNull \<Rightarrow> Some JNull
      | TNumber n \<Rightarrow> Some (JNum n)
      | TString s \<Rightarrow> Some (JStr s)
      | _ \<Rightarrow> None)"

definition closes :: "parse_state \<Rightarrow> frame list \<Rightarrow> token \<Rightarrow> (json \<times> frame list) option" where
  "closes p st t =
     (case st of
        FArr vs # st' \<Rightarrow>
          if t = TRBrack \<and> (p = VBeginOrEnd \<or> p = VAfter) then Some (JArr vs, st') else None
      | FObj ms k # st' \<Rightarrow>
          if t = TRBrace \<and> (p = VKeyOrEnd \<or> p = VAfter) then Some (JObj ms, st') else None
      | [] \<Rightarrow> None)"

text \<open>
  The error at a token that cannot stand where it does. A token the text ends in is an early
  end only where a token of its kind could begin; elsewhere its first byte is the error.
\<close>

definition token_error :: "parse_state \<Rightarrow> frame list \<Rightarrow> token \<Rightarrow> json_error" where
  "token_error p st t =
     (case t of
        TEnd \<Rightarrow> if p = VBegin \<and> st = [] then JEof else JCut
      | TCut str \<Rightarrow>
          if p = VBegin \<or> p = VBeginOrEnd \<or> str \<and> (p = VKey \<or> p = VKeyOrEnd) then JCut else JSyntax
      | _ \<Rightarrow> JSyntax)"

definition parse_step ::
  "parse_state \<Rightarrow> frame list \<Rightarrow> token \<Rightarrow> json_error + (json + (parse_state \<times> frame list))" where
  "parse_step p st t =
     (let value = (\<lambda>v st'. case finish v st' of Inl w \<Rightarrow> Inr (Inl w) | Inr s \<Rightarrow> Inr (Inr (VAfter, s)))
      in case closes p st t of
           Some (v, st') \<Rightarrow> value v st'
         | None \<Rightarrow>
           if p = VBegin \<or> p = VBeginOrEnd then
             (case scalar_token t of
                Some v \<Rightarrow> value v st
              | None \<Rightarrow>
                  if (t = TLBrack \<or> t = TLBrace) \<and> length st \<ge> max_nesting then Inl JSyntax
                  else if t = TLBrack then Inr (Inr (VBeginOrEnd, FArr [] # st))
                  else if t = TLBrace then Inr (Inr (VKeyOrEnd, FObj [] [] # st))
                  else Inl (token_error p st t))
           else
             (case (p, st, t) of
                (VAfter, FArr vs # st', TComma) \<Rightarrow> Inr (Inr (VBegin, st))
              | (VAfter, FObj ms k # st', TComma) \<Rightarrow> Inr (Inr (VKey, st))
              | (VKey, FObj ms k # st', TString s) \<Rightarrow> Inr (Inr (VColon s, FObj ms s # st'))
              | (VKeyOrEnd, FObj ms k # st', TString s) \<Rightarrow> Inr (Inr (VColon s, FObj ms s # st'))
              | (VColon s, _, TColon) \<Rightarrow> Inr (Inr (VBegin, st))
              | _ \<Rightarrow> Inl (token_error p st t)))"

fun parse_run :: "parse_state \<Rightarrow> frame list \<Rightarrow> token list \<Rightarrow> json_error + (json \<times> token list)" where
  "parse_run p st [] = Inl JEof"
| "parse_run p st (t # ts) =
     (case parse_step p st t of
        Inl e \<Rightarrow> Inl e
      | Inr (Inl v) \<Rightarrow> Inr (v, ts)
      | Inr (Inr (p', st')) \<Rightarrow> parse_run p' st' ts)"

text \<open>The first value of a text and the tokens after it: what Decoder.Decode reads.\<close>

definition decode_first :: "string \<Rightarrow> json_error + (json \<times> token list)" where
  "decode_first s = parse_run VBegin [] (lex LBegin s)"

text \<open>
  json.Unmarshal into a RawMessage or a value of unknown type: one value and nothing but
  white space after it, every failure a SyntaxError.
\<close>

definition json_parse :: "string \<Rightarrow> json_error + json" where
  "json_parse s =
     (case decode_first s of
        Inl e \<Rightarrow> Inl JSyntax
      | Inr (v, ts) \<Rightarrow> if ts = [TEnd] then Inr v else Inl JSyntax)"

text \<open>Decoder.More at the top level: something follows, and it is no closing bracket.\<close>

definition json_more :: "token list \<Rightarrow> bool" where
  "json_more ts = (case ts of [] \<Rightarrow> False | t # _ \<Rightarrow> t \<notin> {TEnd, TRBrack, TRBrace})"

subsection \<open>Typed decoding\<close>

text \<open>
  A member of an object belongs to the struct field whose name it folds to: ASCII case, and
  the two non-ASCII characters that fold to an ASCII letter (U+017F to s, U+212A to k).
\<close>

fun fold_name :: "string \<Rightarrow> string" where
  "fold_name (a # b # c # s) =
     (if [a, b] = [CHR 0xC5, CHR 0xBF] then CHR ''S'' # fold_name (c # s)
      else if [a, b, c] = [CHR 0xE2, CHR 0x84, CHR 0xAA] then CHR ''K'' # fold_name s
      else upper_char a # fold_name (b # c # s))"
| "fold_name [a, b] = (if [a, b] = [CHR 0xC5, CHR 0xBF] then ''S'' else [upper_char a, upper_char b])"
| "fold_name s = map upper_char s"

definition field_vals :: "string \<Rightarrow> (string \<times> json) list \<Rightarrow> json list" where
  "field_vals name ms = map snd (filter (\<lambda>(k, _). fold_name k = fold_name name) ms)"

text \<open>
  Decoding into a string variable: null leaves it, a value of another kind is a type error,
  which the decoder reports at the end and meanwhile leaves the variable.
\<close>

fun set_string :: "json \<Rightarrow> bool \<times> string \<Rightarrow> bool \<times> string" where
  "set_string (JStr s) (bad, v) = (bad, s)"
| "set_string JNull (bad, v) = (bad, v)"
| "set_string _ (bad, v) = (True, v)"

definition string_field :: "string \<Rightarrow> (string \<times> json) list \<Rightarrow> bool \<times> string" where
  "string_field name ms = fold set_string (field_vals name ms) (False, [])"

definition unmarshal_string :: "json \<Rightarrow> json_error + string" where
  "unmarshal_string j =
     (case set_string j (False, []) of (bad, s) \<Rightarrow> if bad then Inl JType else Inr s)"

text \<open>
  Decoding into a \<open>map[string]json.RawMessage\<close>: members are added to the map, a repeated
  key replacing the earlier value, and null makes the map nil.
\<close>

fun set_map :: "json \<Rightarrow> bool \<times> (string \<times> json) list \<Rightarrow> bool \<times> (string \<times> json) list" where
  "set_map (JObj ms) (bad, m) = (bad, fold (\<lambda>(k, v). AList.update k v) ms m)"
| "set_map JNull (bad, m) = (bad, [])"
| "set_map _ (bad, m) = (True, m)"

definition map_field :: "string \<Rightarrow> (string \<times> json) list \<Rightarrow> bool \<times> (string \<times> json) list" where
  "map_field name ms = fold set_map (field_vals name ms) (False, [])"

definition unmarshal_map :: "json \<Rightarrow> json_error + (string \<times> json) list" where
  "unmarshal_map j = (case set_map j (False, []) of (bad, m) \<Rightarrow> if bad then Inl JType else Inr m)"

definition unmarshal_list :: "json \<Rightarrow> json_error + json list" where
  "unmarshal_list j =
     (case j of JArr vs \<Rightarrow> Inr vs | JNull \<Rightarrow> Inr [] | _ \<Rightarrow> Inl JType)"

text \<open>
  \<open>UnmarshalNumbers\<close> decodes the first value of the text and then asks the decoder whether
  more follows. The type of the destination is the decoding function.
\<close>

definition UnmarshalNumbers :: "(json \<Rightarrow> json_error + 'a) \<Rightarrow> string \<Rightarrow> json_error + 'a" where
  "UnmarshalNumbers dec data =
     bind_res (decode_first data) (\<lambda>(v, rest).
       bind_res (dec v) (\<lambda>a. if json_more rest then Inl JTrailing else Inr a))"

definition Unmarshal :: "(json \<Rightarrow> json_error + 'a) \<Rightarrow> string \<Rightarrow> json_error + 'a" where
  "Unmarshal dec data = bind_res (json_parse data) dec"

end
