(* ===== verification/JsonPrint.thy ===== *)
theory JsonPrint
  imports Json
begin

section \<open>Encoding JSON (json.Marshal) and its round trip\<close>

text \<open>
  json.Marshal's text of a value: no white space, members in the order given, and in strings
  the escapes Go writes, the HTML ones included. The round trip with the decoder holds for
  every value whose numbers are literals, whose strings are ASCII and whose nesting is
  within the decoder's bound; it is the interpretation \<open>json_text\<close> of the codec contract.
\<close>

definition u_escape :: "nat \<Rightarrow> string" where
  "u_escape n =
     [CHR 0x5C, CHR ''u'', hex_digit (n div 4096 mod 16), hex_digit (n div 256 mod 16),
      hex_digit (n div 16 mod 16), hex_digit (n mod 16)]"

text \<open>A byte below 0x80 inside a string.\<close>

definition quote_ascii :: "char \<Rightarrow> string" where
  "quote_ascii c =
     (if c = CHR 0x22 \<or> c = CHR 0x5C then [CHR 0x5C, c]
      else if c = CHR 0x08 then [CHR 0x5C, CHR ''b'']
      else if c = CHR 0x0C then [CHR 0x5C, CHR ''f'']
      else if c = CHR 0x0A then [CHR 0x5C, CHR ''n'']
      else if c = CHR 0x0D then [CHR 0x5C, CHR ''r'']
      else if c = CHR 0x09 then [CHR 0x5C, CHR ''t'']
      else if (of_char c :: nat) < 0x20 \<or> c \<in> {CHR ''<'', CHR ''>'', CHR ''&''}
      then u_escape (of_char c)
      else [c])"

fun quote_body :: "string \<Rightarrow> string" where
  "quote_body [] = []"
| "quote_body (c # s) =
     (if (of_char c :: nat) < 0x80 then quote_ascii c @ quote_body s
      else let w = utf8_width (map PByte (c # s)) in
           if w = 0 then u_escape 0xFFFD @ quote_body s
           else (if c = CHR 0xE2 \<and> take 2 s = [CHR 0x80, CHR 0xA8] then u_escape 0x2028
                 else if c = CHR 0xE2 \<and> take 2 s = [CHR 0x80, CHR 0xA9] then u_escape 0x2029
                 else c # take (w - 1) s) @ quote_body (drop (w - 1) s))"

definition quote_string :: "string \<Rightarrow> string" where
  "quote_string s = CHR 0x22 # quote_body s @ [CHR 0x22]"

fun json_print :: "json \<Rightarrow> string" where
  "json_print JNull = ''null''"
| "json_print (JBool b) = (if b then ''true'' else ''false'')"
| "json_print (JNum n) = n"
| "json_print (JStr s) = quote_string s"
| "json_print (JArr vs) = CHR ''['' # join_on (CHR '','') (map json_print vs) @ '']''"
| "json_print (JObj ms) =
     CHR ''{'' # join_on (CHR '','') (map (\<lambda>(k, v). quote_string k @ CHR '':'' # json_print v) ms) @ ''}''"

subsection \<open>The round trip\<close>

fun num_run :: "num_state \<Rightarrow> string \<Rightarrow> num_state option" where
  "num_run st [] = Some st"
| "num_run st (c # cs) = (case num_step st c of None \<Rightarrow> None | Some st' \<Rightarrow> num_run st' cs)"

definition num_start :: "char \<Rightarrow> num_state option" where
  "num_start c =
     (if c = CHR ''-'' then Some NNeg else if c = CHR ''0'' then Some N0
      else if is_digit c then Some N1 else None)"

fun num_lit :: "string \<Rightarrow> bool" where
  "num_lit [] = False"
| "num_lit (c # cs) =
     (case num_start c of
        None \<Rightarrow> False
      | Some st \<Rightarrow> (case num_run st cs of None \<Rightarrow> False | Some st' \<Rightarrow> num_final st'))"

definition ascii :: "string \<Rightarrow> bool" where
  "ascii s = list_all (\<lambda>c. (of_char c :: nat) < 0x80) s"

fun json_ok_at :: "nat \<Rightarrow> json \<Rightarrow> bool" where
  "json_ok_at n (JNum s) = num_lit s"
| "json_ok_at n (JStr s) = ascii s"
| "json_ok_at n (JArr vs) = (0 < n \<and> (\<forall>v \<in> set vs. json_ok_at (n - 1) v))"
| "json_ok_at n (JObj ms) = (0 < n \<and> (\<forall>(k, v) \<in> set ms. ascii k \<and> json_ok_at (n - 1) v))"
| "json_ok_at n v = True"

fun sep_toks :: "token list list \<Rightarrow> token list" where
  "sep_toks [] = []"
| "sep_toks [ts] = ts"
| "sep_toks (ts # us # vs) = ts @ TComma # sep_toks (us # vs)"

fun toks :: "json \<Rightarrow> token list" where
  "toks JNull = [TNull]"
| "toks (JBool b) = [if b then TTrue else TFalse]"
| "toks (JNum n) = [TNumber n]"
| "toks (JStr s) = [TString s]"
| "toks (JArr vs) = TLBrack # sep_toks (map toks vs) @ [TRBrack]"
| "toks (JObj ms) = TLBrace # sep_toks (map (\<lambda>(k, v). TString k # TColon # toks v) ms) @ [TRBrace]"

definition delim :: "string \<Rightarrow> bool" where
  "delim r = (r = [] \<or> hd r \<in> {CHR '','', CHR '']'', CHR ''}''})"

definition ascii_piece :: "char \<Rightarrow> piece" where
  "ascii_piece c =
     (if c \<in> {CHR 0x08, CHR 0x0C, CHR 0x0A, CHR 0x0D, CHR 0x09} then PByte c
      else if (of_char c :: nat) < 0x20 \<or> c \<in> {CHR ''<'', CHR ''>'', CHR ''&''} then PUnit (of_char c)
      else PByte c)"

lemma lex_u_escape:
  assumes "n < 65536"
  shows "lex (LEsc ps) (tl (u_escape n) @ r) = lex (LStr (ps @ [PUnit n])) r"
proof -
  have "n div 4096 mod 16 < 16" "n div 256 mod 16 < 16" "n div 16 mod 16 < 16" "n mod 16 < 16"
    by simp_all
  moreover have "word_hex [n div 4096 mod 16, n div 256 mod 16, n div 16 mod 16, n mod 16] = n"
  proof -
    have "n div 256 = n div 16 div 16" "n div 4096 = n div 16 div 16 div 16"
      by (simp_all flip: div_mult2_eq)
    moreover have "n div 16 div 16 div 16 mod 16 = n div 16 div 16 div 16"
      using assms by (simp flip: div_mult2_eq)
    moreover have "16 * (m div 16) + m mod 16 = m" for m :: nat by simp
    ultimately show ?thesis
      unfolding word_hex_def foldl.simps by (metis add_0 mult_0_right)
  qed
  ultimately show ?thesis by (simp add: u_escape_def)
qed

lemma lex_quote_ascii:
  assumes "(of_char c :: nat) < 0x80"
  shows "lex (LStr ps) (quote_ascii c @ r) = lex (LStr (ps @ [ascii_piece c])) r"
proof -
  have h: "u_escape n = CHR 0x5C # tl (u_escape n)" for n by (simp add: u_escape_def)
  consider "c = CHR 0x22 \<or> c = CHR 0x5C" | "c = CHR 0x08" | "c = CHR 0x0C" | "c = CHR 0x0A"
    | "c = CHR 0x0D" | "c = CHR 0x09"
    | "c \<noteq> CHR 0x22" "c \<noteq> CHR 0x5C" "c \<notin> {CHR 0x08, CHR 0x0C, CHR 0x0A, CHR 0x0D, CHR 0x09}"
      "(of_char c :: nat) < 0x20 \<or> c \<in> {CHR ''<'', CHR ''>'', CHR ''&''}"
    | "c \<noteq> CHR 0x22" "c \<noteq> CHR 0x5C" "c \<notin> {CHR 0x08, CHR 0x0C, CHR 0x0A, CHR 0x0D, CHR 0x09}"
      "\<not> ((of_char c :: nat) < 0x20 \<or> c \<in> {CHR ''<'', CHR ''>'', CHR ''&''})"
    by blast
  then show ?thesis
  proof cases
    case 7
    then have "quote_ascii c = u_escape (of_char c)" by (auto simp: quote_ascii_def)
    moreover have "ascii_piece c = PUnit (of_char c)" using 7 by (auto simp: ascii_piece_def)
    moreover have "lex (LStr ps) (u_escape (of_char c) @ r) = lex (LEsc ps) (tl (u_escape (of_char c)) @ r)"
      by (subst h) simp
    moreover have "(of_char c :: nat) < 65536" using assms by simp
    ultimately show ?thesis by (simp add: lex_u_escape)
  next
    case 8
    then show ?thesis by (simp add: quote_ascii_def ascii_piece_def)
  qed (auto simp: quote_ascii_def ascii_piece_def escape_char_def)
qed

lemma lex_quote_body:
  "ascii s \<Longrightarrow> lex (LStr ps) (quote_body s @ r) = lex (LStr (ps @ map ascii_piece s)) r"
  by (induction s arbitrary: ps) (simp_all add: ascii_def lex_quote_ascii)

lemma unquote_ascii: "ascii s \<Longrightarrow> unquote_pieces (map ascii_piece s) = s"
proof (induction s)
  case (Cons c s)
  then have "(of_char c :: nat) < 0x80" by (simp add: ascii_def)
  then show ?case using Cons by (auto simp: ascii_def ascii_piece_def utf8_bytes_def)
qed simp

lemma lex_quote_string:
  assumes "ascii s" shows "lex LBegin (quote_string s @ r) = TString s # lex LBegin r"
proof -
  have "lex (LStr []) (quote_body s @ CHR 0x22 # r) = TString s # lex LBegin r"
    using lex_quote_body [OF assms, of "[]" "CHR 0x22 # r"] unquote_ascii [OF assms] by simp
  then show ?thesis by (simp add: quote_string_def lex_begin_def is_json_space_def is_digit_def)
qed

lemma num_stop: "c \<in> {CHR '','', CHR '']'', CHR ''}''} \<Longrightarrow> num_step st c = None"
  by (cases st) (auto simp: is_digit_def)

lemma lex_begin_delim:
  "c \<in> {CHR '','', CHR '']'', CHR ''}''} \<Longrightarrow> \<exists>ts m. lex_begin c = Some (ts, m)"
  by (auto simp: lex_begin_def)

lemma lex_num_run:
  assumes "num_run st cs = Some st'" "num_final st'" "delim r"
  shows "lex (LNum st lit) (cs @ r) = TNumber (lit @ cs) # lex LBegin r"
  using assms
proof (induction cs arbitrary: st lit)
  case Nil
  show ?case
  proof (cases r)
    case Nil
    then show ?thesis using \<open>num_run st [] = _\<close> assms(2) by (simp add: lex_end_def)
  next
    case (Cons d ds)
    then have d: "d \<in> {CHR '','', CHR '']'', CHR ''}''}" using assms(3) by (simp add: delim_def)
    then obtain ts m where b: "lex_begin d = Some (ts, m)" using lex_begin_delim [OF d] by blast
    have f: "num_final st" using Nil(1) assms(2) by simp
    show ?thesis unfolding Cons by (simp add: num_stop [OF d] b f)
  qed
next
  case (Cons c cs)
  then show ?case by (auto split: option.splits)
qed

lemma num_start_lex: "num_start c = Some st \<Longrightarrow> lex_begin c = Some ([], LNum st [c])"
proof -
  assume s: "num_start c = Some st"
  have d: "c \<notin> {CHR '' '', CHR 0x09, CHR 0x0D, CHR 0x0A, CHR ''['', CHR '']'', CHR ''{'', CHR ''}'',
      CHR '','', CHR '':'', CHR 0x22, CHR ''-''}" if "is_digit c"
    using that by (auto simp: is_digit_def)
  show ?thesis
  proof (cases "c = CHR ''-'' \<or> c = CHR ''0''")
    case True
    then show ?thesis using s
      by (elim disjE) (simp_all add: num_start_def lex_begin_def is_json_space_def)
  next
    case False
    then have "is_digit c" "st = N1" using s by (simp_all add: num_start_def split: if_splits)
    then show ?thesis using d False by (simp add: lex_begin_def is_json_space_def)
  qed
qed

lemma lex_num_lit:
  assumes "num_lit n" "delim r" shows "lex LBegin (n @ r) = TNumber n # lex LBegin r"
proof -
  obtain c cs where n: "n = c # cs" using assms(1) by (cases n) simp_all
  obtain st st' where b: "num_start c = Some st" "num_run st cs = Some st'" "num_final st'"
    using assms(1) n by (auto split: option.splits)
  show ?thesis
    using lex_num_run [OF b(2,3) assms(2), of "[c]"] n num_start_lex [OF b(1)] by simp
qed

lemma delim_intros [simp]:
  "delim (CHR '','' # r)" "delim (CHR '']'' # r)" "delim (CHR ''}'' # r)" "delim []"
  by (simp_all add: delim_def)

lemma lex_join:
  assumes "\<And>p r. p \<in> set ps \<Longrightarrow> delim r \<Longrightarrow> lex LBegin (f p @ r) = g p @ lex LBegin r" "delim r"
  shows "lex LBegin (join_on (CHR '','') (map f ps) @ r) = sep_toks (map g ps) @ lex LBegin r"
  using assms(1)
proof (induction ps)
  case (Cons p ps)
  show ?case
  proof (cases ps)
    case Nil
    then show ?thesis using Cons assms(2) by simp
  next
    case (Cons q qs)
    then show ?thesis
      using Cons.IH Cons.prems [of p "CHR '','' # join_on (CHR '','') (map f ps) @ r"] Cons.prems
      by (simp add: lex_begin_def is_json_space_def)
  qed
qed simp

lemma lex_print:
  "json_ok_at n v \<Longrightarrow> delim r \<Longrightarrow> lex LBegin (json_print v @ r) = toks v @ lex LBegin r"
proof (induction v arbitrary: n r)
  case (JNum x)
  then show ?case by (simp add: lex_num_lit)
next
  case (JStr x)
  then show ?case by (simp add: lex_quote_string)
next
  case (JArr vs)
  have "lex LBegin (join_on (CHR '','') (map json_print vs) @ CHR '']'' # r) =
      sep_toks (map toks vs) @ lex LBegin (CHR '']'' # r)"
    by (rule lex_join) (use JArr in auto)
  then show ?case by (simp add: lex_begin_def is_json_space_def is_digit_def)
next
  case (JObj ms)
  have "lex LBegin (join_on (CHR '','') (map (\<lambda>(k, v). quote_string k @ CHR '':'' # json_print v) ms) @ CHR ''}'' # r) =
      sep_toks (map (\<lambda>(k, v). TString k # TColon # toks v) ms) @ lex LBegin (CHR ''}'' # r)"
  proof (rule lex_join)
    fix p r assume p: "p \<in> set ms" "delim r"
    obtain k v where kv: "p = (k, v)" by fastforce
    have "ascii k" "json_ok_at (n - 1) v" using JObj.prems(1) p(1) kv by auto
    then show "lex LBegin ((case p of (k, v) \<Rightarrow> quote_string k @ CHR '':'' # json_print v) @ r) =
        (case p of (k, v) \<Rightarrow> TString k # TColon # toks v) @ lex LBegin r"
      using JObj.IH [OF p(1), of v "n - 1" r] p(2) kv
      by (simp add: lex_quote_string lex_begin_def is_json_space_def is_digit_def)
  qed simp
  then show ?case by (simp add: lex_begin_def is_json_space_def is_digit_def)
qed (simp_all add: lex_begin_def is_json_space_def is_digit_def)

text \<open>What the parser does once a value is complete.\<close>

definition resume :: "json \<Rightarrow> frame list \<Rightarrow> token list \<Rightarrow> json_error + (json \<times> token list)" where
  "resume v st ts =
     (case finish v st of Inl w \<Rightarrow> Inr (w, ts) | Inr st' \<Rightarrow> parse_run VAfter st' ts)"

lemma run_scalar:
  "scalar_token t = Some v \<Longrightarrow> p \<in> {VBegin, VBeginOrEnd} \<Longrightarrow>
     parse_run p st (t # ts) = resume v st ts"
  by (cases "finish v st")
    (auto simp: parse_step_def closes_def resume_def scalar_token_def
      split: token.splits list.splits frame.splits)

lemma run_close_arr:
  "p \<in> {VBeginOrEnd, VAfter} \<Longrightarrow> parse_run p (FArr vs # st) (TRBrack # ts) = resume (JArr vs) st ts"
  by (cases "finish (JArr vs) st") (auto simp: parse_step_def closes_def resume_def)

lemma run_close_obj:
  "p \<in> {VKeyOrEnd, VAfter} \<Longrightarrow> parse_run p (FObj ms k # st) (TRBrace # ts) = resume (JObj ms) st ts"
  by (cases "finish (JObj ms) st") (auto simp: parse_step_def closes_def resume_def)

lemma run_open:
  "p \<in> {VBegin, VBeginOrEnd} \<Longrightarrow> length st < max_nesting \<Longrightarrow>
     parse_run p st (TLBrack # ts) = parse_run VBeginOrEnd (FArr [] # st) ts"
  "p \<in> {VBegin, VBeginOrEnd} \<Longrightarrow> length st < max_nesting \<Longrightarrow>
     parse_run p st (TLBrace # ts) = parse_run VKeyOrEnd (FObj [] [] # st) ts"
  by (auto simp: parse_step_def closes_def scalar_token_def split: list.splits frame.splits)

lemma run_comma:
  "parse_run VAfter (FArr vs # st) (TComma # ts) = parse_run VBegin (FArr vs # st) ts"
  "parse_run VAfter (FObj ms k # st) (TComma # ts) = parse_run VKey (FObj ms k # st) ts"
  by (auto simp: parse_step_def closes_def)

lemma run_key:
  "p \<in> {VKey, VKeyOrEnd} \<Longrightarrow>
     parse_run p (FObj ms k # st) (TString s # TColon # ts) = parse_run VBegin (FObj ms s # st) ts"
  by (auto simp: parse_step_def closes_def)

lemma run_elems:
  assumes "\<And>v p st ts. v \<in> set vs \<Longrightarrow> length st \<le> m \<Longrightarrow> p \<in> {VBegin, VBeginOrEnd} \<Longrightarrow>
      parse_run p st (toks v @ ts) = resume v st ts"
    and "vs \<noteq> []" "Suc (length st) \<le> m" "p \<in> {VBegin, VBeginOrEnd}"
  shows "parse_run p (FArr us # st) (sep_toks (map toks vs) @ TRBrack # ts) = resume (JArr (us @ vs)) st ts"
  using assms
proof (induction vs arbitrary: us p)
  case (Cons v vs)
  have v: "parse_run p (FArr us # st) (toks v @ ts') = parse_run VAfter (FArr (us @ [v]) # st) ts'" for ts'
    using Cons.prems(1) [of v "FArr us # st" p ts'] Cons.prems(3,4) by (simp add: resume_def)
  show ?case
  proof (cases "vs = []")
    case True
    then show ?thesis using v [of "TRBrack # ts"] by (simp add: run_close_arr del: parse_run.simps)
  next
    case False
    then obtain w ws where vs: "vs = w # ws" by (cases vs) simp_all
    have "parse_run VBegin (FArr (us @ [v]) # st) (sep_toks (map toks vs) @ TRBrack # ts)
        = resume (JArr ((us @ [v]) @ vs)) st ts"
      by (rule Cons.IH) (use Cons.prems False in auto)
    then show ?thesis using v by (simp add: vs run_comma del: parse_run.simps)
  qed
qed simp

lemma run_members:
  assumes "\<And>k v st ts. (k, v) \<in> set ms \<Longrightarrow> length st \<le> m \<Longrightarrow>
      parse_run VBegin st (toks v @ ts) = resume v st ts"
    and "ms \<noteq> []" "Suc (length st) \<le> m" "p \<in> {VKey, VKeyOrEnd}"
  shows "parse_run p (FObj us k0 # st)
      (sep_toks (map (\<lambda>(k, v). TString k # TColon # toks v) ms) @ TRBrace # ts)
    = resume (JObj (us @ ms)) st ts"
  using assms
proof (induction ms arbitrary: us p k0)
  case (Cons x ms)
  obtain k v where x: "x = (k, v)" by fastforce
  have v: "parse_run p (FObj us k0 # st) (TString k # TColon # toks v @ ts') =
      parse_run VAfter (FObj (us @ [(k, v)]) k # st) ts'" for ts'
    using Cons.prems(1) [of k v "FObj us k # st" ts'] Cons.prems(3,4) x
    by (simp add: resume_def run_key del: parse_run.simps)
  show ?case
  proof (cases "ms = []")
    case True
    then show ?thesis using v [of "TRBrace # ts"] x by (simp add: run_close_obj del: parse_run.simps)
  next
    case False
    then obtain w ws where ms: "ms = w # ws" by (cases ms) simp_all
    have "parse_run VKey (FObj (us @ [(k, v)]) k # st)
        (sep_toks (map (\<lambda>(k, v). TString k # TColon # toks v) ms) @ TRBrace # ts)
        = resume (JObj ((us @ [(k, v)]) @ ms)) st ts"
      by (rule Cons.IH) (use Cons.prems False in auto)
    then show ?thesis using v by (simp add: ms x run_comma del: parse_run.simps)
  qed
qed simp

lemma run_toks:
  "json_ok_at n v \<Longrightarrow> length st + n \<le> max_nesting \<Longrightarrow> p \<in> {VBegin, VBeginOrEnd} \<Longrightarrow>
     parse_run p st (toks v @ ts) = resume v st ts"
proof (induction v arbitrary: n p st ts)
  case (JArr vs)
  then obtain m where n: "n = Suc m" by (cases n) auto
  have ok: "json_ok_at m v" if "v \<in> set vs" for v using JArr.prems(1) that n by simp
  have o: "parse_run p st (TLBrack # ts') = parse_run VBeginOrEnd (FArr [] # st) ts'" for ts'
    by (rule run_open) (use JArr.prems n in auto)
  show ?case
  proof (cases "vs = []")
    case True
    then show ?thesis by (simp add: o run_close_arr del: parse_run.simps)
  next
    case False
    have el: "parse_run q st' (toks v @ ts') = resume v st' ts'"
      if "v \<in> set vs" "length st' \<le> max_nesting - m" "q \<in> {VBegin, VBeginOrEnd}" for v q st' ts'
      by (rule JArr.IH [OF that(1) ok [OF that(1)] _ that(3)]) (use that JArr.prems(2) n in simp)
    have "parse_run VBeginOrEnd (FArr [] # st) (sep_toks (map toks vs) @ TRBrack # ts)
        = resume (JArr ([] @ vs)) st ts"
      by (rule run_elems [OF el False]) (use JArr.prems(2) n in linarith | simp)+
    then show ?thesis by (simp add: o del: parse_run.simps)
  qed
next
  case (JObj ms)
  then obtain m where n: "n = Suc m" by (cases n) auto
  have ok: "json_ok_at m v" if "(k, v) \<in> set ms" for k v using JObj.prems(1) that n by auto
  have o: "parse_run p st (TLBrace # ts') = parse_run VKeyOrEnd (FObj [] [] # st) ts'" for ts'
    by (rule run_open) (use JObj.prems n in auto)
  show ?case
  proof (cases "ms = []")
    case True
    then show ?thesis by (simp add: o run_close_obj del: parse_run.simps)
  next
    case False
    have el: "parse_run VBegin st' (toks v @ ts') = resume v st' ts'"
      if "(k, v) \<in> set ms" "length st' \<le> max_nesting - m" for k v st' ts'
      by (rule JObj.IH [OF that(1) _ ok [OF that(1)]]) (use that JObj.prems(2) n in simp_all)
    have "parse_run VKeyOrEnd (FObj [] [] # st)
        (sep_toks (map (\<lambda>(k, v). TString k # TColon # toks v) ms) @ TRBrace # ts)
        = resume (JObj ([] @ ms)) st ts"
      by (rule run_members [OF el False]) (use JObj.prems(2) n in linarith | simp)+
    then show ?thesis by (simp add: o del: parse_run.simps)
  qed
qed (simp_all add: run_scalar scalar_token_def del: parse_run.simps)

definition json_ok :: "json \<Rightarrow> bool" where
  "json_ok v = json_ok_at max_nesting v"

lemma decode_first_print:
  assumes "json_ok v" shows "decode_first (json_print v) = Inr (v, [TEnd])"
proof -
  have "lex LBegin (json_print v) = toks v @ [TEnd]"
    using lex_print [of max_nesting v "[]"] assms by (simp add: json_ok_def lex_end_def)
  then show ?thesis
    using run_toks [of max_nesting v "[]" VBegin "[TEnd]"] assms
    by (simp add: decode_first_def json_ok_def resume_def)
qed

lemma json_parse_print: "json_ok v \<Longrightarrow> json_parse (json_print v) = Inr v"
  by (simp add: json_parse_def decode_first_print)

lemma UnmarshalNumbers_print: "json_ok v \<Longrightarrow> UnmarshalNumbers dec (json_print v) = dec v"
  by (cases "dec v") (simp_all add: UnmarshalNumbers_def decode_first_print json_more_def)

interpretation json_text: codec json_print json_parse json_ok
  by unfold_locales (rule json_parse_print)

end
