(* ===== verification/JsonTyped.thy ===== *)
theory JsonTyped
  imports JsonPrint
begin

section \<open>Decoding into Go types (encoding/json)\<close>

text \<open>
  The destinations the SDK decodes into, each as a function from the parsed value: integers
  at their width, json.Number, slices, pointers and struct fields. null leaves a plain field
  as it is and empties a pointer or a slice; a member that appears twice is decoded twice.
  The decoder goes on after a type error and reports it at the end, so the result here is
  an error as soon as one member is bad.
\<close>

fun map_res :: "('a \<Rightarrow> 'e + 'b) \<Rightarrow> 'a list \<Rightarrow> 'e + 'b list" where
  "map_res f [] = Inr []"
| "map_res f (x # xs) = bind_res (f x) (\<lambda>y. bind_res (map_res f xs) (\<lambda>ys. Inr (y # ys)))"

definition max_uint64 :: int where "max_uint64 = 2 ^ 64 - 1"
definition max_uint32 :: int where "max_uint32 = 2 ^ 32 - 1"

text \<open>A JSON number into an unsigned integer: strconv.ParseUint of its literal.\<close>

definition parse_uint :: "int \<Rightarrow> string \<Rightarrow> int option" where
  "parse_uint m s =
     (if s \<noteq> [] \<and> all_digits s \<and> int (digits_val s) \<le> m then Some (int (digits_val s)) else None)"

definition num_field :: "(string \<Rightarrow> int option) \<Rightarrow> json \<Rightarrow> json_error + int" where
  "num_field parse j =
     (case j of
        JNum s \<Rightarrow> (case parse s of None \<Rightarrow> Inl JType | Some n \<Rightarrow> Inr n)
      | _ \<Rightarrow> Inl JType)"

definition dec_uint64 :: "json \<Rightarrow> json_error + int" where
  "dec_uint64 = num_field (parse_uint max_uint64)"

definition dec_uint32 :: "json \<Rightarrow> json_error + int" where
  "dec_uint32 = num_field (parse_uint max_uint32)"

definition dec_int64 :: "json \<Rightarrow> json_error + int" where
  "dec_int64 = num_field parse_int64"

definition dec_string :: "json \<Rightarrow> json_error + string" where
  "dec_string j = (case j of JStr s \<Rightarrow> Inr s | _ \<Rightarrow> Inl JType)"

definition dec_bool :: "json \<Rightarrow> json_error + bool" where
  "dec_bool j = (case j of JBool b \<Rightarrow> Inr b | _ \<Rightarrow> Inl JType)"

definition dec_raw :: "json \<Rightarrow> json_error + json" where
  "dec_raw j = Inr j"

text \<open>json.Number keeps the literal, also of a number in quotes.\<close>

definition dec_number :: "json \<Rightarrow> json_error + string" where
  "dec_number j =
     (case j of
        JNum s \<Rightarrow> Inr s
      | JStr s \<Rightarrow> if num_lit s then Inr s else Inl (JCustom ''invalid number literal'')
      | _ \<Rightarrow> Inl JType)"

text \<open>A variable of the type dec decodes, which null leaves at d.\<close>

definition or_null :: "'a \<Rightarrow> (json \<Rightarrow> json_error + 'a) \<Rightarrow> json \<Rightarrow> json_error + 'a" where
  "or_null d dec j = (if j = JNull then Inr d else dec j)"

definition dec_slice :: "(json \<Rightarrow> json_error + 'a) \<Rightarrow> json \<Rightarrow> json_error + 'a list" where
  "dec_slice dec j =
     (case j of JArr vs \<Rightarrow> map_res dec vs | JNull \<Rightarrow> Inr [] | _ \<Rightarrow> Inl JType)"

text \<open>A struct: its members, or an error; null leaves every field.\<close>

definition members :: "json \<Rightarrow> json_error + (string \<times> json) list" where
  "members j = (case j of JObj ms \<Rightarrow> Inr ms | JNull \<Rightarrow> Inr [] | _ \<Rightarrow> Inl JType)"

definition field :: "'a \<Rightarrow> (json \<Rightarrow> json_error + 'a) \<Rightarrow> string \<Rightarrow> (string \<times> json) list \<Rightarrow> json_error + 'a" where
  "field d dec name ms =
     fold (\<lambda>j acc. bind_res acc (\<lambda>v. or_null v dec j)) (field_vals name ms) (Inr d)"

definition ptr_field :: "(json \<Rightarrow> json_error + 'a) \<Rightarrow> string \<Rightarrow> (string \<times> json) list \<Rightarrow> json_error + 'a option" where
  "ptr_field dec name ms =
     fold (\<lambda>j acc. bind_res acc (\<lambda>_. if j = JNull then Inr None else map_sum (\<lambda>e. e) Some (dec j)))
       (field_vals name ms) (Inr None)"

definition slice_field :: "(json \<Rightarrow> json_error + 'a) \<Rightarrow> string \<Rightarrow> (string \<times> json) list \<Rightarrow> json_error + 'a list" where
  "slice_field dec name ms =
     fold (\<lambda>j acc. bind_res acc (\<lambda>_. dec_slice dec j)) (field_vals name ms) (Inr [])"

subsection \<open>Facts\<close>

lemma map_res_Inr:
  "map_res f xs = Inr ys \<longleftrightarrow> list_all2 (\<lambda>x y. f x = Inr y) xs ys"
proof (induction xs arbitrary: ys)
  case (Cons x xs)
  then show ?case by (cases ys) auto
qed auto

lemma map_res_map: "(\<And>y. y \<in> set ys \<Longrightarrow> f (g y) = Inr y) \<Longrightarrow> map_res f (map g ys) = Inr ys"
  by (induction ys) auto

lemma length_map_res: "map_res f xs = Inr ys \<Longrightarrow> length ys = length xs"
  by (auto simp: map_res_Inr dest: list_all2_lengthD)

lemma parse_uint_show [simp]: "int n \<le> m \<Longrightarrow> parse_uint m (show_nat n) = Some (int n)"
  by (simp add: parse_uint_def)

lemma dec_uint64_range: "dec_uint64 j = Inr n \<Longrightarrow> 0 \<le> n \<and> n \<le> max_uint64"
  by (auto simp: dec_uint64_def num_field_def parse_uint_def split: json.splits option.splits if_splits)

lemma parse_int64_range: "parse_int64 s = Some n \<Longrightarrow> in_int64 n"
  by (auto simp: parse_int64_def in_int64_def Let_def split: prod.splits if_splits)

lemma dec_int64_range: "dec_int64 j = Inr n \<Longrightarrow> in_int64 n"
  by (auto simp: dec_int64_def num_field_def parse_int64_range split: json.splits option.splits)

text \<open>A member that occurs once under its own name, and a field no member names.\<close>

lemma field_vals_simps [simp]:
  "field_vals n [] = []"
  "field_vals n ((k, v) # ms) = (if fold_name k = fold_name n then v # field_vals n ms else field_vals n ms)"
  by (simp_all add: field_vals_def)

lemma num_run_digits: "list_all is_digit s \<Longrightarrow> num_run N1 s = Some N1"
  by (induction s) simp_all

lemma num_lit_show_nat: "num_lit (show_nat n)"
proof (cases "n = 0")
  case False
  obtain c cs where s: "show_nat n = c # cs" by (cases "show_nat n") simp_all
  then have "c \<noteq> CHR ''0''" "is_digit c" "list_all is_digit cs"
    using show_nat_hd_zero [OF False] show_nat_digits [of n] by simp_all
  then show ?thesis by (auto simp: s num_start_def num_run_digits num_final_def is_digit_def)
qed (simp add: num_start_def num_final_def)

lemma num_lit_show_int [simp]: "num_lit (show_int i)"
proof -
  obtain c cs where s: "show_nat (nat (- i)) = c # cs" by (cases "show_nat (nat (- i))") simp_all
  have d: "num_lit (CHR ''-'' # c # cs)" if "num_lit (c # cs)" "is_digit c"
    using that by (auto simp: num_start_def is_digit_def split: if_splits option.splits)
  show ?thesis using num_lit_show_nat [of "nat i"] num_lit_show_nat [of "nat (- i)"] show_nat_digits [of "nat (- i)"] d
    by (auto simp: show_int_def s)
qed

end
