(* ===== verification/GoTime.thy ===== *)
theory GoTime
  imports Prelude
begin

section \<open>Time and durations (package time, http.ParseTime)\<close>

text \<open>
  An instant is its distance from the Unix epoch in nanoseconds, a Duration a 64-bit count
  of nanoseconds. Instants are not bounded; \<open>time_sub\<close> saturates at the Duration range as
  Time.Sub does. A clock reading is an argument of the operations that read the clock.
\<close>

definition second :: int where "second = 1000000000"
definition minute :: int where "minute = 60 * second"
definition hour :: int where "hour = 60 * minute"

text \<open>The zero Time, January 1 of year 1 UTC.\<close>

definition zero_time :: int where
  "zero_time = - 62135596800 * second"

definition time_sub :: "int \<Rightarrow> int \<Rightarrow> int" where
  "time_sub t u = max min_int64 (min max_int64 (t - u))"

definition duration_round :: "int \<Rightarrow> int \<Rightarrow> int" where
  "duration_round d m =
     (if m \<le> 0 then d
      else if d < 0 then
        (let r = (- d) mod m in
         if 2 * r < m then d + r else if d - m + r \<ge> min_int64 then d - m + r else min_int64)
      else
        (let r = d mod m in
         if 2 * r < m then d - r else if d + m - r \<le> max_int64 then d + m - r else max_int64))"

lemma time_sub_exact: "in_int64 (t - u) \<Longrightarrow> time_sub t u = t - u"
  by (simp add: time_sub_def in_int64_def)

lemma time_sub_range [go_int]: "in_int64 (time_sub t u)"
  by (simp add: time_sub_def in_int64_def min_int64_def max_int64_def)

lemma duration_round_second:
  assumes "in_int64 d" "\<bar>d\<bar> \<le> max_int64 - second"
  shows "second dvd duration_round d second \<and> 2 * \<bar>duration_round d second - d\<bar> \<le> second"
proof -
  have s: "(0::int) < second" by (simp add: second_def)
  have m: "second dvd x - x mod second" for x :: int by (simp add: minus_mod_eq_mult_div)
  have r: "0 \<le> x mod second" "x mod second < second" for x :: int using s by simp_all
  show ?thesis
  proof (cases "d < 0")
    case True
    have e: "d + (- d) mod second = - ((- d) - (- d) mod second)" by simp
    have D: "second dvd d + (- d) mod second" unfolding e using m [of "- d"] by (simp only: dvd_minus_iff)
    then have D': "second dvd d - second + (- d) mod second"
      by (metis add.commute add_diff_eq dvd_diff dvd_refl)
    show ?thesis
      using True s D D' r [of "- d"] assms
      by (auto simp: duration_round_def Let_def in_int64_def min_int64_def max_int64_def)
  next
    case False
    have D': "second dvd d + second - d mod second"
      using m [of d] by (metis add.commute add_diff_eq dvd_add dvd_refl)
    show ?thesis
      using False s m [of d] D' r [of d] assms
      by (auto simp: duration_round_def Let_def in_int64_def min_int64_def max_int64_def)
  qed
qed

subsection \<open>Duration.String\<close>

text \<open>v / 10^prec with the fraction's trailing zeros dropped, and the point with it.\<close>

definition pad_left :: "nat \<Rightarrow> string \<Rightarrow> string" where
  "pad_left n s = replicate (n - length s) (CHR ''0'') @ s"

definition show_frac :: "nat \<Rightarrow> nat \<Rightarrow> string" where
  "show_frac v prec =
     (let f = trim_right_char (CHR ''0'') (pad_left prec (show_nat (v mod 10 ^ prec)))
      in show_nat (v div 10 ^ prec) @ (if v mod 10 ^ prec = 0 then [] else CHR ''.'' # f))"

definition duration_string :: "int \<Rightarrow> string" where
  "duration_string d =
     (let u = nat \<bar>d\<bar>;
          body =
            (if u = 0 then ''0s''
             else if u < 1000 then show_nat u @ ''ns''
             else if u < 1000000 then show_frac u 3 @ [CHR 0xC2, CHR 0xB5, CHR ''s'']
             else if u < 1000000000 then show_frac u 6 @ ''ms''
             else
               (let secs = u div 10 ^ 9;
                    s = show_frac (u mod (60 * 10 ^ 9)) 9 @ ''s'';
                    mins = secs div 60;
                    m = show_nat (mins mod 60) @ ''m'';
                    h = show_nat (mins div 60) @ ''h''
                in if mins = 0 then s else if mins div 60 = 0 then m @ s else h @ m @ s))
      in if d < 0 then CHR ''-'' # body else body)"

subsection \<open>Dates\<close>

definition leap_year :: "int \<Rightarrow> bool" where
  "leap_year y = (y mod 4 = 0 \<and> (y mod 100 \<noteq> 0 \<or> y mod 400 = 0))"

definition days_in :: "nat \<Rightarrow> int \<Rightarrow> nat" where
  "days_in m y = (if m = 2 then (if leap_year y then 29 else 28)
     else [31, 28, 31, 30, 31, 30, 31, 31, 30, 31, 30, 31] ! (m - 1))"

definition days_before_year :: "int \<Rightarrow> int" where
  "days_before_year y = 365 * (y - 1) + (y - 1) div 4 - (y - 1) div 100 + (y - 1) div 400"

definition days_before_month :: "nat \<Rightarrow> int \<Rightarrow> int" where
  "days_before_month m y = (\<Sum>k \<leftarrow> [1..<m]. int (days_in k y))"

definition unix_seconds :: "int \<Rightarrow> nat \<Rightarrow> nat \<Rightarrow> nat \<Rightarrow> nat \<Rightarrow> nat \<Rightarrow> int" where
  "unix_seconds y mo d h mi s =
     (days_before_year y + days_before_month mo y + int d - 1 - 719162) * 86400
       + int h * 3600 + int mi * 60 + int s"

definition month_names :: "string list" where
  "month_names = [''jan'', ''feb'', ''mar'', ''apr'', ''may'', ''jun'',
     ''jul'', ''aug'', ''sep'', ''oct'', ''nov'', ''dec'']"

definition day_names :: "string list" where
  "day_names = [''sun'', ''mon'', ''tue'', ''wed'', ''thu'', ''fri'', ''sat'']"

text \<open>
  The readers of package time's layouts, each from a text to a value and the rest:
  a name of a table in any case, a number of two digits, or of one or two, a literal (a
  space in it standing for any number of spaces).
\<close>

definition take_name :: "string list \<Rightarrow> string \<Rightarrow> (nat \<times> string) option" where
  "take_name ns s =
     (case filter (\<lambda>i. to_lower (take 3 s) = ns ! i) [0..<length ns] of
        [] \<Rightarrow> None | i # _ \<Rightarrow> Some (i, drop 3 s))"

fun take_num :: "bool \<Rightarrow> string \<Rightarrow> (nat \<times> string) option" where
  "take_num fixed (a # b # s) =
     (if \<not> is_digit a then None
      else if is_digit b then Some (10 * digit_val a + digit_val b, s)
      else if fixed then None else Some (digit_val a, b # s))"
| "take_num fixed [a] = (if is_digit a \<and> \<not> fixed then Some (digit_val a, []) else None)"
| "take_num fixed [] = None"

fun skip_layout :: "string \<Rightarrow> string \<Rightarrow> string option" where
  "skip_layout [] s = Some s"
| "skip_layout (p # ps) s =
     (if p = CHR '' '' then
        (if s \<noteq> [] \<and> hd s \<noteq> CHR '' '' then None
         else skip_layout ps (dropWhile (\<lambda>c. c = CHR '' '') s))
      else (case s of [] \<Rightarrow> None | c # cs \<Rightarrow> if c = p then skip_layout ps cs else None))"

text \<open>A fraction after the seconds is accepted although the layout has none: up to nine
  digits of it count.\<close>

definition take_fraction :: "string \<Rightarrow> nat \<times> string" where
  "take_fraction s =
     (case s of
        p # d # _ \<Rightarrow>
          if (p = CHR ''.'' \<or> p = CHR '','') \<and> is_digit d
          then (let ds = takeWhile is_digit (tl s); k = take 9 ds
                in (digits_val k * 10 ^ (9 - length k), drop (Suc (length ds)) s))
          else (0, s)
      | _ \<Rightarrow> (0, s))"

definition take_year4 :: "string \<Rightarrow> (nat \<times> string) option" where
  "take_year4 s =
     (if length s \<ge> 4 \<and> list_all is_digit (take 4 s) then Some (digits_val (take 4 s), drop 4 s) else None)"

text \<open>
  http.TimeFormat, the first layout http.ParseTime tries: Mon, 02 Jan 2006 15:04:05 GMT.
  The two obsolete layouts it tries next (RFC 850, whose zone is looked up in the host's
  time zone, and ANSI C) are the argument of \<open>http_ParseTime\<close>.
\<close>

definition parse_http_date :: "string \<Rightarrow> int option" where
  "parse_http_date s =
     Option.bind (take_name day_names s) (\<lambda>(_, s).
     Option.bind (skip_layout '', '' s) (\<lambda>s.
     Option.bind (take_num True s) (\<lambda>(d, s).
     Option.bind (skip_layout '' '' s) (\<lambda>s.
     Option.bind (take_name month_names s) (\<lambda>(mo, s).
     Option.bind (skip_layout '' '' s) (\<lambda>s.
     Option.bind (take_year4 s) (\<lambda>(y, s).
     Option.bind (skip_layout '' '' s) (\<lambda>s.
     Option.bind (take_num False s) (\<lambda>(h, s).
     Option.bind (skip_layout '':'' s) (\<lambda>s.
     Option.bind (take_num True s) (\<lambda>(mi, s).
     Option.bind (skip_layout '':'' s) (\<lambda>s.
     Option.bind (take_num True s) (\<lambda>(sec, s).
     (case take_fraction s of (ns, s) \<Rightarrow>
     Option.bind (skip_layout '' GMT'' s) (\<lambda>s.
       if s = [] \<and> h < 24 \<and> mi < 60 \<and> sec < 60 \<and> 1 \<le> d \<and> d \<le> days_in (Suc mo) (int y)
       then Some (unix_seconds (int y) (Suc mo) d h mi sec * second + int ns)
       else None)))))))))))))))"

definition http_ParseTime :: "(string \<Rightarrow> int option) \<Rightarrow> string \<Rightarrow> int option" where
  "http_ParseTime obsolete s =
     (case parse_http_date s of Some t \<Rightarrow> Some t | None \<Rightarrow> obsolete s)"

end
