(* ===== verification/ApiError.thy ===== *)
theory ApiError
  imports JsonPrint GoTime
begin

section \<open>API errors (internal/transport/errors.go, version.go)\<close>

text \<open>
  \<open>decodeError\<close> turns a response that is not 2xx into an \<open>api_error\<close>: the three envelope
  shapes, the details that are left over, and the Retry-After of a 429. \<open>estimateSkew\<close>
  adds the server's clock to a 401, and \<open>newVersionError\<close> reads a 426.

  A header map is the list of its names and first values, the names in canonical form; a
  \<open>map[string]json.RawMessage\<close> is an association list with distinct keys.
\<close>

type_synonym headers = "(string \<times> string) list"
type_synonym raw_map = "(string \<times> json) list"

definition hget :: "headers \<Rightarrow> string \<Rightarrow> string" where
  "hget h k = (case map_of h k of None \<Rightarrow> [] | Some v \<Rightarrow> v)"

definition hset :: "headers \<Rightarrow> string \<Rightarrow> string \<Rightarrow> headers" where
  "hset h k v = AList.update k v h"

lemma hget_hset [simp]: "hget (hset h k v) k' = (if k = k' then v else hget h k')"
  by (simp add: hget_def hset_def update_conv')

datatype sentinel =
    ErrUnauthorized | ErrNotFound | ErrRateLimited | ErrMarginUnavailable | ErrMainnetNotTargetable

definition maxRetryAfter :: int where
  "maxRetryAfter = 5 * minute"

record api_error =
  StatusCode :: int
  Code :: string
  Message :: string
  Details :: raw_map
  RetryAfter :: int
  Bucket :: string
  Tier :: string
  ServerTime :: int
  ClockSkew :: int

definition no_error :: "int \<Rightarrow> api_error" where
  "no_error status =
     \<lparr>StatusCode = status, Code = [], Message = [], Details = [], RetryAfter = 0, Bucket = [],
      Tier = [], ServerTime = zero_time, ClockSkew = 0\<rparr>"

definition APIError_Error :: "api_error \<Rightarrow> string" where
  "APIError_Error e =
     ''nexus: HTTP '' @ show_int (StatusCode e)
     @ (if Code e \<noteq> [] then '' '' @ Code e else [])
     @ (if Message e \<noteq> [] then '': '' @ Message e else [])
     @ (if ServerTime e \<noteq> zero_time
        then '' (server clock differs from local by '' @ duration_string (ClockSkew e) @
             ''; signatures are accepted within 30s; the 401 does not say which check failed)''
        else [])"

definition APIError_Is :: "api_error \<Rightarrow> sentinel \<Rightarrow> bool" where
  "APIError_Is e target =
     (case target of
        ErrUnauthorized \<Rightarrow> StatusCode e = 401
      | ErrNotFound \<Rightarrow> StatusCode e = 404
      | ErrRateLimited \<Rightarrow> StatusCode e = 429
      | ErrMarginUnavailable \<Rightarrow> Code e = ''authoritative_margin_unavailable''
      | ErrMainnetNotTargetable \<Rightarrow> False)"

subsection \<open>Decoding\<close>

definition retry_after :: "int \<Rightarrow> headers \<Rightarrow> int" where
  "retry_after status h =
     (if status = 429
      then (case parse_int64 (trim_space (hget h ''Retry-After'')) of
              Some secs \<Rightarrow> if secs \<ge> 0 then min (wrap64 (secs * second)) maxRetryAfter else 0
            | None \<Rightarrow> 0)
      else 0)"

definition take_key :: "string \<Rightarrow> raw_map \<Rightarrow> string \<times> raw_map" where
  "take_key key fs =
     (case map_of fs key of
        None \<Rightarrow> ([], fs)
      | Some raw \<Rightarrow>
          (case unmarshal_string raw of
             Inl _ \<Rightarrow> ([], fs)
           | Inr s \<Rightarrow> (s, AList.delete key fs)))"

definition merge :: "raw_map \<Rightarrow> raw_map \<Rightarrow> raw_map" where
  "merge dst src = fold (\<lambda>(k, v) d. if map_of d k = None then d @ [(k, v)] else d) src dst"

text \<open>The anonymous struct of the BridgeError shape: code, message and details.\<close>

definition unmarshal_nested :: "json \<Rightarrow> (string \<times> string \<times> raw_map) option" where
  "unmarshal_nested raw =
     (case raw of
        JNull \<Rightarrow> Some ([], [], [])
      | JObj ms \<Rightarrow>
          (case (string_field ''code'' ms, string_field ''message'' ms, map_field ''details'' ms) of
             ((e1, c), (e2, m), (e3, d)) \<Rightarrow> if e1 \<or> e2 \<or> e3 then None else Some (c, m, d))
      | _ \<Rightarrow> None)"

definition decode_fields :: "api_error \<Rightarrow> raw_map \<Rightarrow> api_error" where
  "decode_fields e fs =
     (let (code, fs) = take_key ''code'' fs;
          (legacy, fs) = take_key ''error'' fs;
          (message, fs) = take_key ''message'' fs;
          (bucket, fs) = take_key ''bucket'' fs;
          (tier, fs) = take_key ''tier'' fs;
          (legacy, message, fs) =
            (case map_of fs ''error'' of
               None \<Rightarrow> (legacy, message, fs)
             | Some raw \<Rightarrow>
                 (case unmarshal_nested raw of
                    None \<Rightarrow> (legacy, message, fs)
                  | Some (c, m, d) \<Rightarrow>
                      (c, if message = [] then m else message, merge (AList.delete ''error'' fs) d)));
          code = (if code = [] then legacy else code);
          fs =
            (case map_of fs ''details'' of
               None \<Rightarrow> fs
             | Some raw \<Rightarrow>
                 (case unmarshal_map raw of
                    Inl _ \<Rightarrow> fs
                  | Inr d \<Rightarrow> merge (AList.delete ''details'' fs) d))
      in e\<lparr>Code := code, Message := message, Bucket := bucket, Tier := tier, Details := fs\<rparr>)"

definition decodeError :: "int \<Rightarrow> headers \<Rightarrow> string \<Rightarrow> api_error" where
  "decodeError status h body =
     (let e = (no_error status)\<lparr>RetryAfter := retry_after status h\<rparr>
      in case Unmarshal unmarshal_map body of
           Inl _ \<Rightarrow> e\<lparr>Message := trim_space body\<rparr>
         | Inr fs \<Rightarrow> decode_fields e fs)"

text \<open>
  \<open>estimateSkew\<close> (transport.go): obsolete is the reader of the two old date forms.
\<close>

definition estimateSkew :: "(string \<Rightarrow> int option) \<Rightarrow> api_error \<Rightarrow> headers \<Rightarrow> int \<Rightarrow> api_error" where
  "estimateSkew obsolete e h now =
     (case http_ParseTime obsolete (hget h ''Date'') of
        None \<Rightarrow> e
      | Some d \<Rightarrow> e\<lparr>ServerTime := d, ClockSkew := duration_round (time_sub d now) second\<rparr>)"

subsection \<open>Version errors\<close>

record version_error =
  Pinned :: string
  Current :: string
  MinV :: string
  SpecURL :: string
  Err :: api_error

definition newVersionError :: "api_error \<Rightarrow> string \<Rightarrow> headers \<Rightarrow> version_error" where
  "newVersionError e pinned h =
     (let str = (\<lambda>key. case map_of (Details e) key of
                   None \<Rightarrow> []
                 | Some raw \<Rightarrow> snd (set_string raw (False, [])));
          m = str ''min_version''
      in \<lparr>Pinned = pinned, Current = str ''current_version'',
          MinV = (if m = [] then trim_space (hget h ''X-Nexus-Api-Min-Version'') else m),
          SpecURL = str ''spec_url'', Err = e\<rparr>)"

definition VersionError_Error :: "version_error \<Rightarrow> string" where
  "VersionError_Error v =
     ''nexus: the server no longer supports API version '' @ Pinned v @ '' (HTTP 426''
     @ (if Code (Err v) \<noteq> [] then '' '' @ Code (Err v) else []) @ '')''
     @ (if MinV v \<noteq> [] then ''; oldest accepted '' @ MinV v else [])
     @ (if Current v \<noteq> [] then ''; current '' @ Current v else [])
     @ ''; upgrade nexus-exchange-go''"

subsection \<open>What a call can fail with\<close>

text \<open>
  The errors the SDK's calls return, wrapped as the code wraps them: \<open>ELocal\<close> is
  transport.localError, \<open>ERefresh\<close> the error of a session refresh. An error of net/http or
  of reading the body is opaque.
\<close>

datatype go_error =
    EMainnet
  | EContext
  | EMisuse
  | EEncode
  | EBuild
  | ENetwork
  | ERead
  | EPanic
  | EDecode json_error
  | EApi api_error
  | EVersion version_error
  | ELocal go_error
  | ERefresh go_error
  | EAgentCannotWithdraw
  | ESessionExpired
  | EAccountUnresolved "api_error option"
  | ENoCredential
  | EInvalid string

subsection \<open>Facts about the field maps\<close>

lemma map_of_fold_update:
  "map_of (fold (\<lambda>(k, v). AList.update k v) ms m) = map_of m ++ map_of (rev ms)"
proof (induction ms arbitrary: m)
  case (Cons x ms)
  then show ?case by (cases x) (simp add: update_conv' map_add_upd_left fun_upd_def map_add_def fun_eq_iff split: option.splits)
qed simp

lemma unmarshal_map_obj:
  "unmarshal_map (JObj ms) = Inr (fold (\<lambda>(k, v). AList.update k v) ms [])"
  by (simp add: unmarshal_map_def)

lemma take_key_other: "k \<noteq> key \<Longrightarrow> map_of (snd (take_key key fs)) k = map_of fs k"
  by (auto simp: take_key_def delete_conv' split: option.splits sum.splits)

lemma map_of_merge: "map_of (merge dst src) k = (case map_of dst k of Some v \<Rightarrow> Some v | None \<Rightarrow> map_of src k)"
proof (induction src arbitrary: dst)
  case Nil
  show ?case by (simp add: merge_def split: option.splits)
next
  case (Cons x src)
  obtain k' v' where x: "x = (k', v')" by fastforce
  have "merge dst (x # src) = merge (if map_of dst k' = None then dst @ [(k', v')] else dst) src"
    by (simp add: merge_def x)
  then show ?case by (simp add: Cons.IH x map_add_def split: option.splits)
qed

lemma merge_Nil [simp]: "merge dst [] = dst"
  by (simp add: merge_def)

lemma map_of_decode_fields:
  assumes "k \<notin> {''code'', ''error'', ''message'', ''bucket'', ''tier'', ''details''}"
    and "map_of fs k = Some v"
  shows "map_of (Details (decode_fields e fs)) k = Some v"
proof -
  have t: "map_of f k = Some v" if "take_key key m = (s, f)" "map_of m k = Some v"
    "key \<in> {''code'', ''error'', ''message'', ''bucket'', ''tier'', ''details''}" for key m s f
    using take_key_other [of k key m] that assms(1) by auto
  have d: "map_of (AList.delete ''error'' m) k = map_of m k"
    "map_of (AList.delete ''details'' m) k = map_of m k" for m
    using assms(1) by (auto simp: delete_conv')
  obtain s1 f1 where 1: "take_key ''code'' fs = (s1, f1)" by fastforce
  obtain s2 f2 where 2: "take_key ''error'' f1 = (s2, f2)" by fastforce
  obtain s3 f3 where 3: "take_key ''message'' f2 = (s3, f3)" by fastforce
  obtain s4 f4 where 4: "take_key ''bucket'' f3 = (s4, f4)" by fastforce
  obtain s5 f5 where 5: "take_key ''tier'' f4 = (s5, f5)" by fastforce
  have "map_of f1 k = Some v" by (rule t [OF 1 assms(2)]) simp
  then have "map_of f2 k = Some v" by (rule t [OF 2]) simp
  then have "map_of f3 k = Some v" by (rule t [OF 3]) simp
  then have "map_of f4 k = Some v" by (rule t [OF 4]) simp
  then have f5: "map_of f5 k = Some v" by (rule t [OF 5]) simp
  show ?thesis
    unfolding decode_fields_def Let_def 1 2 3 4 5 prod.case
    using f5 by (simp add: d map_of_merge split: prod.split option.split sum.split)
qed

subsection \<open>Properties\<close>

text \<open>The three envelope shapes on the wire decode to the same error: the code and the
  message, nothing left in the details. When code and error are both sent, code wins.\<close>

lemma envelopes_agree:
  assumes "ascii c" "ascii m" "ascii l"
  shows "(\<forall>body \<in> {json_print (JObj [(''code'', JStr c), (''message'', JStr m)]),
      json_print (JObj [(''error'', JStr c), (''message'', JStr m)]),
      json_print (JObj [(''error'', JObj [(''code'', JStr c), (''message'', JStr m)])])}.
    decodeError status h body =
      (no_error status)\<lparr>RetryAfter := retry_after status h, Code := c, Message := m\<rparr>)
    \<and> Code (decodeError status h (json_print (JObj [(''code'', JStr c), (''error'', JStr l)]))) =
      (if c = [] then l else c)"
proof -
  have a: "ascii ''code''" "ascii ''message''" "ascii ''error''" by code_simp+
  have p: "json_parse (json_print (JObj [(''code'', JStr c), (''message'', JStr m)])) =
        Inr (JObj [(''code'', JStr c), (''message'', JStr m)])"
      "json_parse (json_print (JObj [(''error'', JStr c), (''message'', JStr m)])) =
        Inr (JObj [(''error'', JStr c), (''message'', JStr m)])"
      "json_parse (json_print (JObj [(''error'', JObj [(''code'', JStr c), (''message'', JStr m)])])) =
        Inr (JObj [(''error'', JObj [(''code'', JStr c), (''message'', JStr m)])])"
      "json_parse (json_print (JObj [(''code'', JStr c), (''error'', JStr l)])) =
        Inr (JObj [(''code'', JStr c), (''error'', JStr l)])"
    by (rule json_parse_print, use assms a in \<open>simp add: json_ok_def max_nesting_def\<close>)+
  have f: "string_field ''code'' [(''code'', JStr c), (''message'', JStr m)] = (False, c)"
      "string_field ''message'' [(''code'', JStr c), (''message'', JStr m)] = (False, m)"
      "map_field ''details'' [(''code'', JStr c), (''message'', JStr m)] = (False, [])"
    by (simp_all add: string_field_def map_field_def field_vals_def upper_char_def)
  show ?thesis
    using p f
    by (simp add: decodeError_def Unmarshal_def unmarshal_map_obj decode_fields_def take_key_def
        unmarshal_string_def unmarshal_nested_def no_error_def)
qed

text \<open>C38: no detail the server sent is lost: a top-level member that is no part of the
  envelope is in the details under its own key with its own (last) value, whatever the
  nested objects hold.\<close>

theorem details_keep_members:
  assumes "json_parse body = Inr (JObj ms)" "map_of (rev ms) k = Some v"
    and "k \<notin> {''code'', ''error'', ''message'', ''bucket'', ''tier'', ''details''}"
  shows "map_of (Details (decodeError status h body)) k = Some v"
  using assms map_of_fold_update [of ms "[]"]
  by (simp add: decodeError_def Unmarshal_def unmarshal_map_obj map_of_decode_fields)

theorem details_keep_members_witness:
  "map_of (Details (decodeError 401 []
     (json_print (JObj [(''code'', JStr ''SIGNER_MISMATCH''), (''claimed'', JStr ''0xab'')])))) ''claimed''
   = Some (JStr ''0xab'')"
proof (rule details_keep_members)
  have "ascii ''code''" "ascii ''SIGNER_MISMATCH''" "ascii ''claimed''" "ascii ''0xab''" by code_simp+
  then show "json_parse (json_print (JObj [(''code'', JStr ''SIGNER_MISMATCH''), (''claimed'', JStr ''0xab'')]))
      = Inr (JObj [(''code'', JStr ''SIGNER_MISMATCH''), (''claimed'', JStr ''0xab'')])"
    by (intro json_parse_print) (simp add: json_ok_def max_nesting_def)
qed simp_all

text \<open>A 429's wait is the served number of seconds, capped at five minutes, as long as the
  number fits a Duration; on any other status it is zero.\<close>

lemma retry_after_capped:
  assumes "parse_int64 (trim_space (hget h ''Retry-After'')) = Some secs" "0 \<le> secs" "secs \<le> 9223372036"
  shows "RetryAfter (decodeError status h body) =
    (if status = 429 then min (secs * second) maxRetryAfter else 0)"
proof -
  have "in_int64 (secs * second)"
    using assms(2,3) by (simp add: in_int64_def min_int64_def max_int64_def second_def)
  then have "retry_after status h = (if status = 429 then min (secs * second) maxRetryAfter else 0)"
    using assms by (simp add: retry_after_def wrap64_id)
  moreover have "RetryAfter (decode_fields e fs) = RetryAfter e" for e fs
    by (simp add: decode_fields_def split: prod.splits)
  ultimately show ?thesis by (simp add: decodeError_def Let_def split: sum.splits)
qed

text \<open>
  The cap is applied after the multiplication, which wraps: a larger number of seconds can
  give a negative wait, or a positive one far below what the server asked.
\<close>

lemma retry_after_overflow:
  "retry_after 429 [(''Retry-After'', ''9223372037'')] < 0 \<and>
   retry_after 429 [(''Retry-After'', ''18446744074'')] = 290448384"
proof -
  have "trim_space ''9223372037'' = ''9223372037''" "trim_space ''18446744074'' = ''18446744074''"
    by code_simp+
  moreover have "parse_int64 ''9223372037'' = Some 9223372037"
    "parse_int64 ''18446744074'' = Some 18446744074"
    by (simp_all add: parse_int64_def all_digits_def is_digit_def digits_val_def digit_val_def
        in_int64_def min_int64_def max_int64_def)
  ultimately show ?thesis
    by (simp add: retry_after_def hget_def wrap64_def second_def maxRetryAfter_def minute_def)
qed

text \<open>The skew a 401 reports is a whole number of seconds within half a second of the
  server's date minus the signer's clock, and without a readable Date header nothing is
  reported.\<close>

lemma skew_to_the_second:
  assumes "\<bar>d - now\<bar> \<le> max_int64 - second"
  shows "(http_ParseTime ob (hget h ''Date'') = Some d \<longrightarrow>
      (let e' = estimateSkew ob e h now in
        ServerTime e' = d \<and> second dvd ClockSkew e' \<and> 2 * \<bar>ClockSkew e' - (d - now)\<bar> \<le> second))
    \<and> (http_ParseTime ob (hget h ''Date'') = None \<longrightarrow> estimateSkew ob e h now = e)"
proof -
  have "in_int64 (d - now)"
    using assms by (auto simp: in_int64_def min_int64_def max_int64_def second_def)
  then show ?thesis
    using duration_round_second [of "d - now"] assms
    by (simp add: estimateSkew_def time_sub_exact Let_def)
qed

text \<open>A 426 gives the versions the indexer's body names; when the body names no oldest
  version, the X-Nexus-Api-Min-Version header does.\<close>

lemma version_error_reads_426:
  assumes "ascii cur" "ascii mn" "ascii url" "ascii c"
  shows "newVersionError (decodeError 426 h (json_print (JObj
        [(''code'', JStr c), (''current_version'', JStr cur), (''min_version'', JStr mn), (''spec_url'', JStr url)])))
      pinned h' =
    \<lparr>Pinned = pinned, Current = cur,
     MinV = (if mn = [] then trim_space (hget h' ''X-Nexus-Api-Min-Version'') else mn), SpecURL = url,
     Err = (no_error 426)\<lparr>Code := c, Details :=
       [(''current_version'', JStr cur), (''min_version'', JStr mn), (''spec_url'', JStr url)]\<rparr>\<rparr>"
proof -
  have a: "ascii ''code''" "ascii ''current_version''" "ascii ''min_version''" "ascii ''spec_url''"
    by code_simp+
  have p: "json_parse (json_print (JObj
        [(''code'', JStr c), (''current_version'', JStr cur), (''min_version'', JStr mn), (''spec_url'', JStr url)]))
      = Inr (JObj
        [(''code'', JStr c), (''current_version'', JStr cur), (''min_version'', JStr mn), (''spec_url'', JStr url)])"
    by (rule json_parse_print) (use assms a in \<open>simp add: json_ok_def max_nesting_def\<close>)
  show ?thesis
    using p
    by (simp add: decodeError_def Unmarshal_def unmarshal_map_obj decode_fields_def take_key_def
        unmarshal_string_def no_error_def newVersionError_def retry_after_def)
qed

end
