(* ===== verification/Float64.thy ===== *)
theory Float64
  imports Prelude Complex_Main
begin

section \<open>float64 arithmetic (the rate limiter's token level)\<close>

text \<open>
  A float64 is the rational number it stands for, and an operation is the exact one followed
  by rounding to 53 significant bits, ties to even. The exponent range is not modelled: the
  limiter's numbers stay between 2^-145 and 2^97 in magnitude (limits and durations are
  int64 values), far inside the normal range. What the proofs need of the rounding is the
  locale \<open>rounding\<close>: it is monotone, leaves floats alone, and maps 0 to 0.
\<close>

function exp_up :: "rat \<Rightarrow> nat" where
  "exp_up q = (if q < 2 then 0 else Suc (exp_up (q / 2)))"
  by auto
termination
proof (relation "measure (\<lambda>q. nat \<lfloor>q\<rfloor>)")
  fix q :: rat assume "\<not> q < 2"
  then have q: "2 \<le> q" by simp
  have "\<lfloor>q / 2\<rfloor> \<le> \<lfloor>q - 1\<rfloor>" by (rule floor_mono) (use q in simp)
  moreover have "2 \<le> \<lfloor>q\<rfloor>" using q by (simp add: le_floor_iff)
  ultimately show "(q / 2, q) \<in> measure (\<lambda>q. nat \<lfloor>q\<rfloor>)" by simp
qed simp

function exp_down :: "rat \<Rightarrow> nat" where
  "exp_down q = (if q \<le> 0 \<or> 1 \<le> q then 0 else Suc (exp_down (2 * q)))"
  by auto
termination
proof (relation "measure (\<lambda>q. nat \<lfloor>1 / q\<rfloor>)")
  fix q :: rat assume "\<not> (q \<le> 0 \<or> 1 \<le> q)"
  then have q: "0 < q" "q < 1" by simp_all
  have x: "1 < 1 / q" using q by (simp add: field_simps)
  show "(2 * q, q) \<in> measure (\<lambda>q. nat \<lfloor>1 / q\<rfloor>)"
  proof (cases "1 / q < 2")
    case True
    then have "1 / (2 * q) < 1" using q by (simp add: field_simps)
    then have "\<lfloor>1 / (2 * q)\<rfloor> \<le> 0" by (simp add: floor_le_iff)
    moreover have "1 \<le> \<lfloor>1 / q\<rfloor>" using x by (simp add: le_floor_iff)
    ultimately show ?thesis by simp
  next
    case False
    have "\<lfloor>1 / (2 * q)\<rfloor> \<le> \<lfloor>1 / q - 1\<rfloor>"
      by (rule floor_mono) (use False q in \<open>simp add: field_simps\<close>)
    moreover have "2 \<le> \<lfloor>1 / q\<rfloor>" using False by (simp add: le_floor_iff)
    ultimately show ?thesis by simp
  qed
qed simp

declare exp_up.simps [simp del] exp_down.simps [simp del]

text \<open>The exponent of a positive number: 2^e \<le> q < 2^(e+1).\<close>

definition exponent :: "rat \<Rightarrow> int" where
  "exponent q = (if 1 \<le> q then int (exp_up q) else - int (exp_down q))"

definition round_even :: "rat \<Rightarrow> int" where
  "round_even x =
     (let n = \<lfloor>x\<rfloor>; f = x - of_int n
      in if f < 1 / 2 then n else if 1 / 2 < f then n + 1 else if even n then n else n + 1)"

definition ulp :: "int \<Rightarrow> rat" where
  "ulp e = 2 powi (e - 52)"

definition fl64 :: "rat \<Rightarrow> rat" where
  "fl64 q =
     (if q = 0 then 0
      else let u = ulp (exponent \<bar>q\<bar>); m = of_int (round_even (\<bar>q\<bar> / u)) * u
           in if q < 0 then - m else m)"

subsection \<open>Interface: a rounding\<close>

locale rounding =
  fixes fl :: "rat \<Rightarrow> rat"
  assumes mono: "x \<le> y \<Longrightarrow> fl x \<le> fl y"
    and idem: "fl (fl x) = fl x"
    and zero: "fl 0 = 0"
begin

lemma nonneg: "0 \<le> x \<Longrightarrow> 0 \<le> fl x"
  using mono [of 0 x] zero by simp

lemma nonpos: "x \<le> 0 \<Longrightarrow> fl x \<le> 0"
  using mono [of x 0] zero by simp

lemma below_float: "x \<le> y \<Longrightarrow> fl y = y \<Longrightarrow> fl x \<le> y"
  using mono [of x y] by simp

lemma above_float: "y \<le> x \<Longrightarrow> fl y = y \<Longrightarrow> y \<le> fl x"
  using mono [of y x] by simp

lemma minus_le: "fl x = x \<Longrightarrow> 0 \<le> y \<Longrightarrow> fl (x - y) \<le> x"
  by (rule below_float) simp_all

lemma min_float: "fl x = x \<Longrightarrow> fl y = y \<Longrightarrow> fl (min x y) = min x y"
  by (simp add: min_def)

end

subsection \<open>fl64 is one\<close>

lemma exp_up_bounds: "1 \<le> q \<Longrightarrow> 2 ^ exp_up q \<le> q \<and> q < 2 * 2 ^ exp_up q"
proof (induction q rule: exp_up.induct)
  case (1 q)
  show ?case
  proof (cases "q < 2")
    case True
    then show ?thesis using 1 by (simp add: exp_up.simps [of q])
  next
    case False
    then show ?thesis using 1 by (simp add: exp_up.simps [of q])
  qed
qed

lemma exp_down_bounds:
  "0 < q \<Longrightarrow> q < 1 \<Longrightarrow> 1 \<le> q * 2 ^ exp_down q \<and> q * 2 ^ exp_down q < 2"
proof (induction q rule: exp_down.induct)
  case (1 q)
  show ?case
  proof (cases "2 * q < 1")
    case True
    then show ?thesis using 1 by (simp add: exp_down.simps [of q] mult.assoc mult.left_commute)
  next
    case False
    have "exp_down (2 * q) = 0" using False by (simp add: exp_down.simps)
    then show ?thesis using False 1(2,3) by (simp add: exp_down.simps [of q])
  qed
qed

lemma exponent_bounds: "0 < q \<Longrightarrow> 2 powi (exponent q) \<le> q \<and> q < 2 * 2 powi (exponent q)"
proof (cases "1 \<le> q")
  case True
  then show ?thesis using exp_up_bounds by (simp add: exponent_def)
next
  case False
  assume "0 < q"
  with False show ?thesis using exp_down_bounds [of q]
    by (simp add: exponent_def power_int_minus field_simps)
qed

lemma powi_mono: "a \<le> b \<Longrightarrow> (2 :: rat) powi a \<le> 2 powi b"
  by (simp add: power_int_increasing)

lemma powi_pos: "0 < (2 :: rat) powi e"
  by simp

lemma powi_Suc: "(2 :: rat) powi (a + 1) = 2 * 2 powi a"
  by (simp add: power_int_add)

lemma exponent_mono: "0 < x \<Longrightarrow> x \<le> y \<Longrightarrow> exponent x \<le> exponent y"
proof (rule ccontr)
  assume xy: "0 < x" "x \<le> y" "\<not> exponent x \<le> exponent y"
  then have "(2 :: rat) powi (exponent y + 1) \<le> 2 powi (exponent x)" by (intro powi_mono) simp
  then have "y < x" using exponent_bounds [of x] exponent_bounds [of y] xy by (simp add: powi_Suc)
  then show False using xy by simp
qed

lemma exponent_unique: "2 powi e \<le> q \<Longrightarrow> q < 2 * 2 powi e \<Longrightarrow> exponent q = e"
proof -
  assume q: "2 powi e \<le> q" "q < 2 * 2 powi e"
  have pos: "0 < q" using q(1) powi_pos [of e] by linarith
  show ?thesis
  proof (rule antisym)
    show "exponent q \<le> e"
    proof (rule ccontr)
      assume "\<not> exponent q \<le> e"
      then have "(2 :: rat) powi (e + 1) \<le> 2 powi (exponent q)" by (intro powi_mono) simp
      then show False using q exponent_bounds [OF pos] by (simp add: powi_Suc)
    qed
    show "e \<le> exponent q"
    proof (rule ccontr)
      assume "\<not> e \<le> exponent q"
      then have "(2 :: rat) powi (exponent q + 1) \<le> 2 powi e" by (intro powi_mono) simp
      then show False using q exponent_bounds [OF pos] by (simp add: powi_Suc)
    qed
  qed
qed

lemma ulp_pos [simp]: "0 < ulp e"
  by (simp add: ulp_def)

lemma ulp_scale: "ulp e * 2 ^ 52 = 2 powi e"
proof -
  have "(2 :: rat) powi (e - 52) * 2 powi 52 = 2 powi e"
    by (subst power_int_add [symmetric]) simp_all
  then show ?thesis by (simp add: ulp_def)
qed

lemma round_even_int [simp]: "round_even (of_int n) = n"
  by (simp add: round_even_def)

lemma round_even_near: "\<lfloor>x\<rfloor> \<le> round_even x \<and> round_even x \<le> \<lfloor>x\<rfloor> + 1"
  by (simp add: round_even_def Let_def)

lemma round_even_mono: "x \<le> y \<Longrightarrow> round_even x \<le> round_even y"
proof -
  assume xy: "x \<le> y"
  then have "\<lfloor>x\<rfloor> \<le> \<lfloor>y\<rfloor>" by (rule floor_mono)
  then consider "\<lfloor>x\<rfloor> + 1 \<le> \<lfloor>y\<rfloor>" | "\<lfloor>x\<rfloor> = \<lfloor>y\<rfloor>" by linarith
  then show ?thesis
  proof cases
    case 1
    then show ?thesis using round_even_near [of x] round_even_near [of y] by linarith
  next
    case 2
    then show ?thesis using xy by (auto simp: round_even_def Let_def)
  qed
qed

lemma fl64_pos: "0 < q \<Longrightarrow> fl64 q = of_int (round_even (q / ulp (exponent q))) * ulp (exponent q)"
  by (simp add: fl64_def Let_def)

lemma fl64_minus: "fl64 (- q) = - fl64 q"
  by (simp add: fl64_def Let_def)

lemma fl64_zero [simp]: "fl64 0 = 0"
  by (simp add: fl64_def)

lemma mantissa_bounds:
  assumes "0 < q"
  shows "2 ^ 52 \<le> round_even (q / ulp (exponent q)) \<and> round_even (q / ulp (exponent q)) \<le> 2 ^ 53"
proof -
  have "2 ^ 52 \<le> q / ulp (exponent q)" "q / ulp (exponent q) \<le> 2 ^ 53"
    using exponent_bounds [OF assms] ulp_scale [of "exponent q"]
    by (simp_all add: pos_le_divide_eq pos_divide_le_eq mult.commute)
  then show ?thesis
    using round_even_mono [of "of_int (2 ^ 52)" "q / ulp (exponent q)"]
      round_even_mono [of "q / ulp (exponent q)" "of_int (2 ^ 53)"]
    unfolding round_even_int by simp
qed

lemma fl64_bounds:
  assumes "0 < q"
  shows "2 powi exponent q \<le> fl64 q \<and> fl64 q \<le> 2 * 2 powi exponent q"
proof -
  let ?m = "round_even (q / ulp (exponent q))"
  have b: "of_int (2 ^ 52) * ulp (exponent q) \<le> of_int ?m * ulp (exponent q)"
    "of_int ?m * ulp (exponent q) \<le> of_int (2 ^ 53) * ulp (exponent q)"
    using mantissa_bounds [OF assms] less_imp_le [OF ulp_pos]
    by (intro mult_right_mono; simp only: of_int_le_iff)+
  have "of_int (2 ^ 52) * ulp (exponent q) = 2 powi exponent q"
    "of_int (2 ^ 53) * ulp (exponent q) = 2 * 2 powi exponent q"
    using ulp_scale [of "exponent q"] by (simp_all add: mult.commute)
  then show ?thesis using b unfolding fl64_pos [OF assms] by linarith
qed

lemma fl64_mono_pos: "0 < x \<Longrightarrow> x \<le> y \<Longrightarrow> fl64 x \<le> fl64 y"
proof (cases "exponent x = exponent y")
  assume xy: "0 < x" "x \<le> y"
  case True
  have "x / ulp (exponent x) \<le> y / ulp (exponent x)" using xy by (simp add: divide_right_mono less_imp_le)
  then show ?thesis
    using xy by (simp add: fl64_pos True round_even_mono mult_right_mono less_imp_le)
next
  assume xy: "0 < x" "x \<le> y"
  case False
  then have "exponent x + 1 \<le> exponent y" using exponent_mono [OF xy] by simp
  then have "(2 :: rat) powi (exponent x + 1) \<le> 2 powi (exponent y)" by (rule powi_mono)
  then show ?thesis
    using fl64_bounds [of x] fl64_bounds [of y] xy by (simp add: powi_Suc)
qed

lemma fl64_pos_pos: "0 < q \<Longrightarrow> 0 < fl64 q"
  using fl64_bounds [of q] powi_pos [of "exponent q"] by linarith

lemma fl64_mono: "x \<le> y \<Longrightarrow> fl64 x \<le> fl64 y"
proof -
  assume xy: "x \<le> y"
  consider "0 < x" | "x \<le> 0" "0 \<le> y" | "y < 0" by linarith
  then show ?thesis
  proof cases
    case 1
    then show ?thesis using xy by (rule fl64_mono_pos)
  next
    case 2
    have "fl64 x \<le> 0"
      using fl64_pos_pos [of "- x"] 2 by (cases "x = 0") (simp_all add: fl64_minus less_imp_le)
    moreover have "0 \<le> fl64 y"
      using fl64_pos_pos [of y] 2 by (cases "y = 0") (simp_all add: less_imp_le)
    ultimately show ?thesis by simp
  next
    case 3
    then have "fl64 (- y) \<le> fl64 (- x)" using xy by (intro fl64_mono_pos) simp_all
    then show ?thesis by (simp add: fl64_minus)
  qed
qed

text \<open>A multiple of its own ulp is a float.\<close>

lemma fl64_exact: "0 < q \<Longrightarrow> q = of_int m * ulp (exponent q) \<Longrightarrow> fl64 q = q"
  using ulp_pos [of "exponent q"]
  by (metis fl64_pos less_irrefl nonzero_mult_div_cancel_right round_even_int)

lemma fl64_idem_pos:
  assumes "0 < q" shows "fl64 (fl64 q) = fl64 q"
proof -
  let ?e = "exponent q" and ?m = "round_even (q / ulp (exponent q))"
  have f: "fl64 q = of_int ?m * ulp ?e" using assms by (rule fl64_pos)
  show ?thesis
  proof (cases "fl64 q < 2 * 2 powi ?e")
    case True
    then have "exponent (fl64 q) = ?e" using fl64_bounds [OF assms] by (intro exponent_unique) simp_all
    then show ?thesis using f fl64_exact [OF fl64_pos_pos [OF assms]] by metis
  next
    case False
    then have p: "fl64 q = 2 powi (?e + 1)" using fl64_bounds [OF assms] by (simp add: powi_Suc)
    then have e: "exponent (fl64 q) = ?e + 1" by (intro exponent_unique) simp_all
    have "of_int (2 ^ 52) * ulp (?e + 1) = 2 powi (?e + 1)"
      using ulp_scale [of "?e + 1"] by (simp add: mult.commute)
    then have "fl64 q = of_int (2 ^ 52) * ulp (exponent (fl64 q))" using p e by metis
    then show ?thesis by (rule fl64_exact [OF fl64_pos_pos [OF assms]])
  qed
qed

lemma fl64_idem: "fl64 (fl64 q) = fl64 q"
proof -
  consider "0 < q" | "q = 0" | "q < 0" by linarith
  then show ?thesis
  proof cases
    case 3
    then have "fl64 (fl64 (- q)) = fl64 (- q)" by (intro fl64_idem_pos) simp
    then show ?thesis by (simp add: fl64_minus)
  qed (simp_all add: fl64_idem_pos)
qed

interpretation fl: rounding fl64
  by unfold_locales (simp_all add: fl64_mono fl64_idem)

text \<open>Integers up to 2^53 are floats.\<close>

lemma fl64_int_pos:
  assumes "0 < n" "n < 2 ^ 53" shows "fl64 (of_int n) = of_int n"
proof -
  let ?q = "of_int n :: rat" and ?k = "nat (52 - exponent (of_int n))"
  have pos: "0 < ?q" using assms by simp
  have e: "exponent ?q \<le> 52"
  proof (rule ccontr)
    assume "\<not> exponent ?q \<le> 52"
    then have "(2 :: rat) powi 53 \<le> 2 powi (exponent ?q)" by (intro powi_mono) simp
    then have "(2 :: rat) ^ 53 \<le> ?q" using exponent_bounds [OF pos] by simp
    then have "of_int (2 ^ 53) \<le> ?q" by simp
    then show False using assms by (simp only: of_int_le_iff)
  qed
  then have "2 ^ ?k * ulp (exponent ?q) = 1"
    by (simp add: ulp_def power_int_def power_mult_distrib [symmetric])
  then have "?q = of_int (n * 2 ^ ?k) * ulp (exponent ?q)" by simp
  then show ?thesis by (rule fl64_exact [OF pos])
qed

lemma fl64_int [simp]:
  assumes "\<bar>n\<bar> < 2 ^ 53" shows "fl64 (of_int n) = of_int n"
proof -
  consider "0 < n" | "n = 0" | "n < 0" by linarith
  then show ?thesis
  proof cases
    case 3
    then have "fl64 (of_int (- n)) = of_int (- n)" using assms by (intro fl64_int_pos) simp_all
    then show ?thesis by (simp add: fl64_minus)
  qed (use assms in \<open>simp_all add: fl64_int_pos\<close>)
qed

end
