(* ===== verification/RateLimit.thy ===== *)
theory RateLimit
  imports ApiError Float64
begin

section \<open>Rate limits (internal/transport/ratelimit.go, weights.gen.go)\<close>

text \<open>
  What a request costs (\<open>costOf\<close>, over the table \<open>specCosts\<close>), and the three local
  buckets that pace requests on the budgets the server reports. The bucket's token level is
  a float64; its arithmetic is written with \<open>fl64\<close> at every operation of the code. A bucket
  has one lock and each of \<open>set\<close>, \<open>block\<close>, \<open>reserve\<close> and the give-back of \<open>wait\<close> holds it
  throughout, so each is one atomic step; goroutines interleave the steps in any order, with
  clock readings in any order (\<open>bucket_step\<close>).
\<close>

type_synonym Tokens = int

datatype budget_class = ClassRequest | ClassOrder | ClassCancel | ClassLogin

record opCost =
  op_method :: string
  op_path :: string
  op_class :: budget_class
  op_weight :: Tokens
  op_perOrders :: int

definition row :: "string \<Rightarrow> string \<Rightarrow> budget_class \<Rightarrow> Tokens \<Rightarrow> int \<Rightarrow> opCost" where
  "row m p c w n = \<lparr>op_method = m, op_path = p, op_class = c, op_weight = w, op_perOrders = n\<rparr>"

definition specCosts :: "opCost list" where
  "specCosts =
    [row ''DELETE'' ''/admin/tiers/{address}'' ClassRequest 1 0,
     row ''DELETE'' ''/agents/{address}'' ClassRequest 1 0,
     row ''DELETE'' ''/keys/{key_id}'' ClassRequest 1 0,
     row ''DELETE'' ''/orders'' ClassCancel 1 0,
     row ''DELETE'' ''/orders/{order_id}'' ClassCancel 1 0,
     row ''GET'' ''/account'' ClassRequest 1 0,
     row ''GET'' ''/account/cancel-on-disconnect'' ClassRequest 1 0,
     row ''GET'' ''/account/equity-history'' ClassRequest 1 0,
     row ''GET'' ''/account/fees'' ClassRequest 1 0,
     row ''GET'' ''/account/portfolio-history'' ClassRequest 5 0,
     row ''GET'' ''/account/rate-limit'' ClassRequest 1 0,
     row ''GET'' ''/account/state'' ClassRequest 1 0,
     row ''GET'' ''/account/summary'' ClassRequest 5 0,
     row ''GET'' ''/account/{address}/adl-history'' ClassRequest 1 0,
     row ''GET'' ''/admin/tiers'' ClassRequest 1 0,
     row ''GET'' ''/agents'' ClassRequest 1 0,
     row ''GET'' ''/deposits'' ClassRequest 1 0,
     row ''GET'' ''/fills'' ClassRequest 5 0,
     row ''GET'' ''/funding'' ClassRequest 1 0,
     row ''GET'' ''/keys'' ClassRequest 1 0,
     row ''GET'' ''/markets'' ClassRequest 1 0,
     row ''GET'' ''/markets/summary'' ClassRequest 1 0,
     row ''GET'' ''/markets/{market_id}/adl-events'' ClassRequest 1 0,
     row ''GET'' ''/markets/{market_id}/candles'' ClassRequest 1 0,
     row ''GET'' ''/markets/{market_id}/funding'' ClassRequest 1 0,
     row ''GET'' ''/markets/{market_id}/funding-samples'' ClassRequest 1 0,
     row ''GET'' ''/markets/{market_id}/mark-price'' ClassRequest 1 0,
     row ''GET'' ''/markets/{market_id}/orderbook'' ClassRequest 1 0,
     row ''GET'' ''/markets/{market_id}/risk-params'' ClassRequest 1 0,
     row ''GET'' ''/markets/{market_id}/status'' ClassRequest 1 0,
     row ''GET'' ''/markets/{market_id}/ticker'' ClassRequest 1 0,
     row ''GET'' ''/markets/{market_id}/trades'' ClassRequest 1 0,
     row ''GET'' ''/orders'' ClassRequest 1 0,
     row ''GET'' ''/orders/history'' ClassRequest 5 0,
     row ''GET'' ''/orders/{order_id}'' ClassRequest 1 0,
     row ''GET'' ''/positions'' ClassRequest 1 0,
     row ''GET'' ''/positions/closed'' ClassRequest 1 0,
     row ''GET'' ''/stats'' ClassRequest 1 0,
     row ''GET'' ''/stats/history'' ClassRequest 1 0,
     row ''GET'' ''/status'' ClassRequest 1 0,
     row ''GET'' ''/stream'' ClassRequest 1 0,
     row ''GET'' ''/tickers'' ClassRequest 1 0,
     row ''GET'' ''/withdrawals'' ClassRequest 1 0,
     row ''GET'' ''/ws'' ClassRequest 1 0,
     row ''PATCH'' ''/orders/{order_id}'' ClassOrder 1 0,
     row ''POST'' ''/account/credit'' ClassRequest 1 0,
     row ''POST'' ''/account/deposit'' ClassRequest 1 0,
     row ''POST'' ''/account/margin'' ClassRequest 1 0,
     row ''POST'' ''/agents/register'' ClassRequest 1 0,
     row ''POST'' ''/auth/login'' ClassRequest 1 0,
     row ''POST'' ''/deposits'' ClassRequest 1 0,
     row ''POST'' ''/faucet'' ClassRequest 1 0,
     row ''POST'' ''/keys'' ClassRequest 1 0,
     row ''POST'' ''/orders'' ClassOrder 1 0,
     row ''POST'' ''/orders/batch'' ClassOrder 1 40,
     row ''POST'' ''/orders/preview'' ClassOrder 1 0,
     row ''POST'' ''/ws-tokens'' ClassRequest 1 0,
     row ''POST'' ''/ws/token'' ClassRequest 1 0,
     row ''PUT'' ''/account/cancel-on-disconnect'' ClassRequest 1 0,
     row ''PUT'' ''/admin/tiers'' ClassRequest 1 0]"

subsection \<open>What a request costs\<close>

fun match_segments :: "string list \<Rightarrow> string list \<Rightarrow> bool" where
  "match_segments (s # ss) (p # ps) =
     ((s = p \<or> has_prefix s ''{'' \<and> p \<noteq> []) \<and> match_segments ss ps)"
| "match_segments [] [] = True"
| "match_segments _ _ = False"

definition matchTemplate :: "string \<Rightarrow> string \<Rightarrow> bool" where
  "matchTemplate tmpl path = match_segments (split_on (CHR ''/'') tmpl) (split_on (CHR ''/'') path)"

text \<open>The loop of \<open>lookup\<close>: a literal match returns at once, the first template match is kept.\<close>

fun lookup_from :: "opCost list \<Rightarrow> opCost option \<Rightarrow> string \<Rightarrow> string \<Rightarrow> opCost option" where
  "lookup_from [] tmpl m p = tmpl"
| "lookup_from (c # cs) tmpl m p =
     (if op_method c \<noteq> m then lookup_from cs tmpl m p
      else if op_path c = p then Some c
      else if tmpl = None \<and> matchTemplate (op_path c) p then lookup_from cs (Some c) m p
      else lookup_from cs tmpl m p)"

definition lookup :: "string \<Rightarrow> string \<Rightarrow> opCost option" where
  "lookup m p = lookup_from specCosts None m p"

text \<open>The body is None where the code has a nil slice, which is no JSON text.\<close>

definition costOf :: "string \<Rightarrow> string \<Rightarrow> string option \<Rightarrow> budget_class \<times> Tokens" where
  "costOf m p body =
     (let path = cut_before (CHR ''?'') p in
      if m = ''POST'' \<and> path = ''/auth/login'' then (ClassLogin, 1)
      else
        (case lookup m path of
           None \<Rightarrow> (ClassRequest, 1)
         | Some c \<Rightarrow>
             (op_class c,
              if op_perOrders c > 0
              then (case Unmarshal unmarshal_list (case body of None \<Rightarrow> [] | Some b \<Rightarrow> b) of
                      Inr orders \<Rightarrow> op_weight c + int (length orders) div op_perOrders c
                    | Inl _ \<Rightarrow> op_weight c)
              else op_weight c)))"

subsection \<open>Buckets\<close>

record bucket =
  b_limit :: Tokens
  b_level :: rat
  b_at :: int
  b_until :: int

definition new_bucket :: bucket where
  "new_bucket = \<lparr>b_limit = 0, b_level = 0, b_at = zero_time, b_until = zero_time\<rparr>"

definition float_of_int :: "int \<Rightarrow> rat" where
  "float_of_int n = fl64 (of_int n)"

text \<open>Duration.Seconds of a duration that is not negative, and the conversion of a float64 to
  a Duration: truncated, and the least int64 when it does not fit (amd64).\<close>

definition duration_seconds :: "int \<Rightarrow> rat" where
  "duration_seconds d =
     fl64 (float_of_int (d div second) + fl64 (float_of_int (d mod second) / of_int second))"

definition float_to_duration :: "rat \<Rightarrow> int" where
  "float_to_duration x =
     (let n = (if x < 0 then - \<lfloor>- x\<rfloor> else \<lfloor>x\<rfloor>) in if in_int64 n then n else min_int64)"

definition bucket_set :: "bucket \<Rightarrow> Tokens \<Rightarrow> Tokens \<Rightarrow> int \<Rightarrow> bucket" where
  "bucket_set b limit remaining now =
     b\<lparr>b_limit := limit, b_level := float_of_int (min remaining limit), b_at := now\<rparr>"

definition bucket_block :: "bucket \<Rightarrow> int \<Rightarrow> bucket" where
  "bucket_block b till = (if b_until b < till then b\<lparr>b_until := till\<rparr> else b)"

definition reserve :: "bucket \<Rightarrow> Tokens \<Rightarrow> int \<Rightarrow> int \<times> bucket" where
  "reserve b w now =
     (if b_limit b = 0 then (max (time_sub (b_until b) now) 0, b)
      else
        (let d = time_sub now (b_at b);
             refilled = (if d > 0
                then min (float_of_int (b_limit b))
                       (fl64 (b_level b + fl64 (duration_seconds d * float_of_int (b_limit b))))
                else b_level b);
             level = fl64 (refilled - float_of_int (min w (b_limit b)));
             wait = time_sub (b_until b) now;
             wait = (if level < 0
                then max wait (float_to_duration
                       (fl64 (fl64 (- level / float_of_int (b_limit b)) * of_int second)))
                else wait)
         in (max wait 0, b\<lparr>b_level := level, b_at := now\<rparr>)))"

text \<open>What \<open>wait\<close> does when its context ends first.\<close>

definition give_back :: "bucket \<Rightarrow> Tokens \<Rightarrow> bucket" where
  "give_back b w =
     (if b_limit b > 0
      then b\<lparr>b_level := min (float_of_int (b_limit b))
               (fl64 (b_level b + float_of_int (min w (b_limit b))))\<rparr>
      else b)"

text \<open>
  \<open>wait\<close> with nothing in between: cancelled says that the context ended before the timer.
  The result is whether the request may be sent, and how long it slept.
\<close>

definition bucket_wait :: "bucket \<Rightarrow> Tokens \<Rightarrow> int \<Rightarrow> bool \<Rightarrow> bool \<times> int \<times> bucket" where
  "bucket_wait b w now cancelled =
     (let (d, b') = reserve b w now in
      if d \<le> 0 then (True, 0, b')
      else if cancelled then (False, d, give_back b' w)
      else (True, d, b'))"

subsection \<open>The limiter\<close>

datatype bucket_id = BRequest | BOrder | BLogin

record limiter =
  l_request :: bucket
  l_order :: bucket
  l_login :: bucket

definition new_limiter :: limiter where
  "new_limiter = \<lparr>l_request = new_bucket, l_order = new_bucket, l_login = new_bucket\<rparr>"

fun get_bucket :: "limiter \<Rightarrow> bucket_id \<Rightarrow> bucket" where
  "get_bucket l BRequest = l_request l"
| "get_bucket l BOrder = l_order l"
| "get_bucket l BLogin = l_login l"

fun put_bucket :: "limiter \<Rightarrow> bucket_id \<Rightarrow> bucket \<Rightarrow> limiter" where
  "put_bucket l BRequest b = l\<lparr>l_request := b\<rparr>"
| "put_bucket l BOrder b = l\<lparr>l_order := b\<rparr>"
| "put_bucket l BLogin b = l\<lparr>l_login := b\<rparr>"

text \<open>limiter.of: None is Go's nil bucket.\<close>

fun bucket_of :: "budget_class \<Rightarrow> bucket_id option" where
  "bucket_of ClassRequest = Some BRequest"
| "bucket_of ClassOrder = Some BOrder"
| "bucket_of ClassLogin = Some BLogin"
| "bucket_of ClassCancel = None"

definition labelled :: "string \<Rightarrow> bucket_id option" where
  "labelled label =
     (if label \<in> {''key'', ''owner'', ''ip''} then Some BRequest
      else if label = ''order'' then Some BOrder
      else if label = ''login'' then Some BLogin
      else None)"

definition observed_bucket :: "budget_class \<Rightarrow> headers \<Rightarrow> api_error option \<Rightarrow> bucket_id option" where
  "observed_bucket c h e =
     (let label = (case e of
            Some err \<Rightarrow> if Bucket err \<noteq> [] then Bucket err else hget h ''X-Ratelimit-Bucket''
          | None \<Rightarrow> hget h ''X-Ratelimit-Bucket'')
      in if label \<noteq> [] then labelled label
         else if c \<noteq> ClassRequest then None
         else bucket_of c)"

definition observe_bucket :: "bucket \<Rightarrow> headers \<Rightarrow> api_error option \<Rightarrow> int \<Rightarrow> bucket" where
  "observe_bucket b h e now =
     (let b = (case (parse_int64 (hget h ''X-Ratelimit-Limit''), parse_int64 (hget h ''X-Ratelimit-Remaining'')) of
            (Some limit, Some remaining) \<Rightarrow>
              if limit > 0 \<and> remaining \<ge> 0 then bucket_set b limit remaining now else b
          | _ \<Rightarrow> b)
      in case e of
           Some err \<Rightarrow> if StatusCode err = 429 then bucket_block b (now + max (RetryAfter err) second) else b
         | None \<Rightarrow> b)"

definition observe :: "limiter \<Rightarrow> budget_class \<Rightarrow> headers \<Rightarrow> api_error option \<Rightarrow> int \<Rightarrow> limiter" where
  "observe l c h e now =
     (case observed_bucket c h e of
        None \<Rightarrow> l
      | Some i \<Rightarrow> put_bucket l i (observe_bucket (get_bucket l i) h e now))"

text \<open>
  \<open>retryAfterDelay\<close>: rand.N(n) is a number below n, here the draw reduced to the range.
\<close>

definition rand_N :: "nat \<Rightarrow> int \<Rightarrow> int" where
  "rand_N r n = int r mod n"

definition retryAfterDelay :: "int \<Rightarrow> nat \<Rightarrow> int" where
  "retryAfterDelay retryAfter r =
     (let d = max retryAfter second in d + rand_N r (d div 2 + 1))"

subsection \<open>The cost table\<close>

lemma lookup_from_sound:
  "lookup_from cs tmpl m p = Some c \<Longrightarrow>
     tmpl = Some c \<or> c \<in> set cs \<and> op_method c = m \<and> (op_path c = p \<or> matchTemplate (op_path c) p)"
  by (induction cs tmpl m p rule: lookup_from.induct) (auto split: if_splits)

lemma lookup_sound:
  "lookup m p = Some c \<Longrightarrow>
     c \<in> set specCosts \<and> op_method c = m \<and> (op_path c = p \<or> matchTemplate (op_path c) p)"
  using lookup_from_sound [of specCosts None m p c] by (auto simp: lookup_def)

lemma lookup_filter:
  "lookup_from cs tmpl m p = lookup_from (filter (\<lambda>c. op_method c = m) cs) tmpl m p"
  by (induction cs tmpl m p rule: lookup_from.induct) auto

lemma lookup_literal:
  "distinct (map (\<lambda>c. (op_method c, op_path c)) cs) \<Longrightarrow> c \<in> set cs \<Longrightarrow>
     lookup_from cs tmpl (op_method c) (op_path c) = Some c"
  by (induction cs arbitrary: tmpl) (auto simp: rev_image_eqI)

lemma distinct_rows: "distinct (map (\<lambda>c. (op_method c, op_path c)) specCosts)"
  by code_simp

lemma cancel_rows:
  "filter (\<lambda>c. op_class c = ClassCancel) specCosts =
     [row ''DELETE'' ''/orders'' ClassCancel 1 0, row ''DELETE'' ''/orders/{order_id}'' ClassCancel 1 0]"
  by code_simp

lemma delete_rows:
  "filter (\<lambda>c. op_method c = ''DELETE'') specCosts =
     [row ''DELETE'' ''/admin/tiers/{address}'' ClassRequest 1 0,
      row ''DELETE'' ''/agents/{address}'' ClassRequest 1 0,
      row ''DELETE'' ''/keys/{key_id}'' ClassRequest 1 0,
      row ''DELETE'' ''/orders'' ClassCancel 1 0,
      row ''DELETE'' ''/orders/{order_id}'' ClassCancel 1 0]"
  by code_simp

lemma rows_weight: "list_all (\<lambda>c. 1 \<le> op_weight c \<and> 0 \<le> op_perOrders c) specCosts"
  by code_simp

lemma match_segments_Nil: "match_segments [] qs \<longleftrightarrow> qs = []"
  by (cases qs) simp_all

lemma match_segments_Cons:
  "match_segments (s # ss) qs \<longleftrightarrow>
     (\<exists>q qr. qs = q # qr \<and> (s = q \<or> has_prefix s ''{'' \<and> q \<noteq> []) \<and> match_segments ss qr)"
  by (cases qs) simp_all

definition order_id_path :: "string \<Rightarrow> bool" where
  "order_id_path p = (\<exists>oid. p = ''/orders/'' @ oid \<and> oid \<noteq> [] \<and> CHR ''/'' \<notin> set oid)"

lemma split_order_id: "CHR ''/'' \<notin> set oid \<Longrightarrow> split_on (CHR ''/'') (''/orders/'' @ oid) = [[], ''orders'', oid]"
  using split_on_append [of "CHR ''/''" "''orders''" oid] by (simp add: split_on_free)

lemma match_order_id: "matchTemplate ''/orders/{order_id}'' p \<longleftrightarrow> order_id_path p"
proof -
  have s: "split_on (CHR ''/'') ''/orders/{order_id}'' = [[], ''orders'', ''{order_id}'']" by code_simp
  have h: "has_prefix ''{order_id}'' ''{''" "\<not> has_prefix ''orders'' ''{''" "\<not> has_prefix [] ''{''" by code_simp+
  show ?thesis
  proof
    assume "matchTemplate ''/orders/{order_id}'' p"
    then obtain oid where oid: "split_on (CHR ''/'') p = [[], ''orders'', oid]" "oid = ''{order_id}'' \<or> oid \<noteq> []"
      unfolding matchTemplate_def s
      by (auto simp: match_segments_Cons match_segments_Nil h)
    have p: "p = ''/orders/'' @ oid" using join_split [of "CHR ''/''" p] by (simp add: oid(1))
    have "CHR ''/'' \<notin> set oid"
    proof
      assume "CHR ''/'' \<in> set oid"
      then obtain a b where "oid = a @ CHR ''/'' # b" "CHR ''/'' \<notin> set a" by (meson split_list_first)
      then have "split_on (CHR ''/'') p = [] # ''orders'' # a # split_on (CHR ''/'') b"
        using split_on_append [of "CHR ''/''" "''orders''" oid] split_on_append [of "CHR ''/''" a b] p by simp
      then have "split_on (CHR ''/'') b = []" using oid(1) by auto
      then show False by simp
    qed
    then show "order_id_path p" using p oid(2) by (auto simp: order_id_path_def)
  next
    assume "order_id_path p"
    then show "matchTemplate ''/orders/{order_id}'' p"
      by (auto simp: order_id_path_def matchTemplate_def s split_on_free h)
  qed
qed

lemma lookup_delete_order:
  assumes "p = ''/orders'' \<or> order_id_path p"
  shows "\<exists>c. lookup ''DELETE'' p = Some c \<and> op_class c = ClassCancel"
proof -
  have t: "split_on (CHR ''/'') ''/admin/tiers/{address}'' = [[], ''admin'', ''tiers'', ''{address}'']"
    "split_on (CHR ''/'') ''/agents/{address}'' = [[], ''agents'', ''{address}'']"
    "split_on (CHR ''/'') ''/keys/{key_id}'' = [[], ''keys'', ''{key_id}'']"
    "split_on (CHR ''/'') ''/orders'' = [[], ''orders'']" by code_simp+
  have h: "\<not> has_prefix ''admin'' ''{''" "\<not> has_prefix ''agents'' ''{''" "\<not> has_prefix ''keys'' ''{''"
    "\<not> has_prefix ''orders'' ''{''" by code_simp+
  from assms consider "p = ''/orders''" | oid where "p = ''/orders/'' @ oid" "CHR ''/'' \<notin> set oid" "order_id_path p"
    by (auto simp: order_id_path_def)
  then show ?thesis
  proof cases
    case 1
    have "lookup ''DELETE'' ''/orders'' = Some (row ''DELETE'' ''/orders'' ClassCancel 1 0)" by code_simp
    then show ?thesis using 1 by (simp add: row_def)
  next
    case 2
    have s: "split_on (CHR ''/'') p = [[], ''orders'', oid]" using 2 split_order_id by simp
    have "\<not> matchTemplate ''/admin/tiers/{address}'' p" "\<not> matchTemplate ''/agents/{address}'' p"
      "\<not> matchTemplate ''/keys/{key_id}'' p" "\<not> matchTemplate ''/orders'' p"
      by (simp_all add: matchTemplate_def t s h)
    moreover have "matchTemplate ''/orders/{order_id}'' p" using 2 by (simp add: match_order_id)
    ultimately show ?thesis
      unfolding lookup_def lookup_filter [of specCosts] delete_rows
      using 2(1) by (auto simp: row_def)
  qed
qed

lemma cost_cancel_iff:
  "bucket_of (fst (costOf m p body)) = None \<longleftrightarrow>
     m = ''DELETE'' \<and> (cut_before (CHR ''?'') p = ''/orders'' \<or> order_id_path (cut_before (CHR ''?'') p))"
proof -
  let ?p = "cut_before (CHR ''?'') p"
  have b: "bucket_of k = None \<longleftrightarrow> k = ClassCancel" for k by (cases k) simp_all
  have fw: "m = ''DELETE'' \<and> (?p = ''/orders'' \<or> order_id_path ?p)"
    if "lookup m ?p = Some c" "op_class c = ClassCancel" for c
  proof -
    have "c \<in> set (filter (\<lambda>c. op_class c = ClassCancel) specCosts)"
      using lookup_sound [OF that(1)] that(2) by simp
    then have "c = row ''DELETE'' ''/orders'' ClassCancel 1 0 \<or>
        c = row ''DELETE'' ''/orders/{order_id}'' ClassCancel 1 0"
      by (simp add: cancel_rows)
    moreover have "matchTemplate ''/orders'' ?p \<Longrightarrow> ?p = ''/orders''"
    proof -
      have s: "split_on (CHR ''/'') ''/orders'' = [[], ''orders'']" by code_simp
      have h: "\<not> has_prefix ''orders'' ''{''" "\<not> has_prefix [] ''{''" by code_simp+
      assume "matchTemplate ''/orders'' ?p"
      then have "split_on (CHR ''/'') ?p = [[], ''orders'']"
        unfolding matchTemplate_def s by (auto simp: match_segments_Cons match_segments_Nil h)
      then show "?p = ''/orders''" using join_split [of "CHR ''/''" ?p] by simp
    qed
    moreover have "order_id_path ''/orders/{order_id}''" unfolding match_order_id [symmetric] by code_simp
    ultimately show ?thesis
      using lookup_sound [OF that(1)] match_order_id [of ?p] by (auto simp: row_def)
  qed
  show ?thesis
    unfolding b costOf_def Let_def
    using fw lookup_delete_order [of ?p] by (auto split: option.splits)
qed

subsection \<open>Properties of the cost\<close>

text \<open>Exactly the order cancels are in the cancel class: DELETE on /orders or on
  /orders/ and one non-empty segment, whatever the query; and that class has no bucket, so
  no cancel is ever paced.\<close>

lemma cancel_class_iff:
  "bucket_of (fst (costOf m p body)) = None \<longleftrightarrow>
     m = ''DELETE'' \<and> (cut_before (CHR ''?'') p = ''/orders'' \<or> order_id_path (cut_before (CHR ''?'') p))"
  by (rule cost_cancel_iff)

text \<open>Every operation of the table is charged as its own row says: a literal path is never
  read as another row's template (/orders/history is no order id).\<close>

lemma literal_rows_win:
  "list_all (\<lambda>c. lookup (op_method c) (op_path c) = Some c) specCosts \<and>
   costOf ''GET'' ''/orders/history?limit=5'' None = (ClassRequest, 5) \<and>
   costOf ''GET'' ''/orders/history2'' None = (ClassRequest, 1)"
proof -
  have "list_all (\<lambda>c. lookup (op_method c) (op_path c) = Some c) specCosts"
    unfolding list_all_iff lookup_def using lookup_literal [OF distinct_rows] by blast
  moreover have "costOf ''GET'' ''/orders/history?limit=5'' None = (ClassRequest, 5)"
    "costOf ''GET'' ''/orders/history2'' None = (ClassRequest, 1)"
    by code_simp+
  ultimately show ?thesis by blast
qed

text \<open>A batch is charged its base weight and one token per 40 orders of the body.\<close>

lemma batch_weight:
  assumes "json_ok (JArr orders)"
  shows "costOf ''POST'' ''/orders/batch'' (Some (json_print (JArr orders))) =
    (ClassOrder, 1 + int (length orders) div 40)"
proof -
  have "cut_before (CHR ''?'') ''/orders/batch'' = ''/orders/batch''" by code_simp
  moreover have "lookup ''POST'' ''/orders/batch'' = Some (row ''POST'' ''/orders/batch'' ClassOrder 1 40)"
    by code_simp
  ultimately show ?thesis
    using json_parse_print [OF assms]
    by (simp add: costOf_def Unmarshal_def unmarshal_list_def row_def)
qed

lemma costOf_weight: "1 \<le> snd (costOf m p body)"
proof (cases "lookup m (cut_before (CHR ''?'') p)")
  case None
  then show ?thesis by (simp add: costOf_def Let_def)
next
  case (Some c)
  have c: "1 \<le> op_weight c" "0 \<le> op_perOrders c"
    using lookup_sound [OF Some] rows_weight by (auto simp: list_all_iff)
  have "0 \<le> int k div op_perOrders c" for k using c(2) by (simp add: div_int_pos_iff)
  then have "1 \<le> op_weight c + int k div op_perOrders c" for k
    using c(1) by (metis add.right_neutral add_mono)
  then show ?thesis using Some c(1) by (simp add: costOf_def Let_def split: sum.split)
qed

subsection \<open>Bucket steps, in any interleaving\<close>

inductive bucket_step :: "bucket \<Rightarrow> bucket \<Rightarrow> bool" where
  step_set: "0 < limit \<Longrightarrow> 0 \<le> remaining \<Longrightarrow> bucket_step b (bucket_set b limit remaining now)"
| step_block: "bucket_step b (bucket_block b till)"
| step_reserve: "0 \<le> w \<Longrightarrow> bucket_step b (snd (reserve b w now))"
| step_give_back: "0 \<le> w \<Longrightarrow> bucket_step b (give_back b w)"

inductive bucket_steps :: "bucket \<Rightarrow> bucket \<Rightarrow> bool" where
  steps_refl: "bucket_steps b b"
| steps_step: "bucket_steps a b \<Longrightarrow> bucket_step b c \<Longrightarrow> bucket_steps a c"

inductive_cases bucket_stepE: "bucket_step b c"

definition bucket_inv :: "bucket \<Rightarrow> bool" where
  "bucket_inv b =
     (0 \<le> b_limit b \<and> fl64 (b_level b) = b_level b \<and> b_level b \<le> float_of_int (b_limit b))"

lemma fl64_float_of_int [simp]: "fl64 (float_of_int n) = float_of_int n"
  by (simp add: float_of_int_def fl.idem)

lemma float_of_int_zero [simp]: "float_of_int 0 = 0"
  by (simp add: float_of_int_def)

lemma float_of_int_mono: "m \<le> n \<Longrightarrow> float_of_int m \<le> float_of_int n"
  by (simp add: float_of_int_def fl.mono)

lemma float_of_int_nonneg: "0 \<le> n \<Longrightarrow> 0 \<le> float_of_int n"
  by (simp add: float_of_int_def fl.nonneg)

lemma float_of_int_exact: "\<bar>n\<bar> < 2 ^ 53 \<Longrightarrow> float_of_int n = of_int n"
  unfolding float_of_int_def by (rule fl64_int)

lemma bucket_inv_set: "0 < limit \<Longrightarrow> bucket_inv (bucket_set b limit remaining now)"
  by (simp add: bucket_inv_def bucket_set_def float_of_int_mono)

lemma bucket_inv_block: "bucket_inv b \<Longrightarrow> bucket_inv (bucket_block b till)"
  by (simp add: bucket_inv_def bucket_block_def)

lemma reserve_snd:
  "snd (reserve b w now) =
     (if b_limit b = 0 then b
      else b\<lparr>b_level := fl64 ((if time_sub now (b_at b) > 0
                then min (float_of_int (b_limit b)) (fl64 (b_level b
                       + fl64 (duration_seconds (time_sub now (b_at b)) * float_of_int (b_limit b))))
                else b_level b) - float_of_int (min w (b_limit b))),
             b_at := now\<rparr>)"
  by (simp add: reserve_def Let_def)

lemma bucket_inv_reserve:
  assumes "bucket_inv b" "0 \<le> w" shows "bucket_inv (snd (reserve b w now))"
proof -
  let ?L = "float_of_int (b_limit b)" and ?c = "float_of_int (min w (b_limit b))"
  have c: "0 \<le> ?c" using assms by (intro float_of_int_nonneg) (simp add: bucket_inv_def)
  have "fl64 (x - ?c) \<le> ?L" if "x \<le> ?L" for x
    by (rule fl.below_float) (use that c in simp_all)
  then have "fl64 (min ?L x - ?c) \<le> ?L" "y \<le> ?L \<Longrightarrow> fl64 (y - ?c) \<le> ?L" for x y by simp_all
  then show ?thesis
    using assms(1) unfolding reserve_snd bucket_inv_def
    by (cases "b_limit b = 0") (simp_all add: fl.idem)
qed

lemma bucket_inv_give_back: "bucket_inv b \<Longrightarrow> bucket_inv (give_back b w)"
  by (simp add: bucket_inv_def give_back_def fl.min_float fl.idem)

lemma bucket_inv_step: "bucket_step b c \<Longrightarrow> bucket_inv b \<Longrightarrow> bucket_inv c"
  by (auto elim!: bucket_stepE intro: bucket_inv_set bucket_inv_block bucket_inv_reserve bucket_inv_give_back)

lemma bucket_inv_new: "bucket_inv new_bucket"
  by (simp add: bucket_inv_def new_bucket_def)

lemma bucket_inv_steps: "bucket_steps a b \<Longrightarrow> bucket_inv a \<Longrightarrow> bucket_inv b"
  by (induction rule: bucket_steps.induct) (auto intro: bucket_inv_step)

lemma until_step: "bucket_step b c \<Longrightarrow> b_until b \<le> b_until c"
  by (auto elim!: bucket_stepE simp: bucket_set_def bucket_block_def reserve_def give_back_def Let_def)

lemma until_steps: "bucket_steps a b \<Longrightarrow> b_until a \<le> b_until b"
  by (induction rule: bucket_steps.induct) (auto intro: order_trans until_step)

lemma time_sub_mono: "t \<le> t' \<Longrightarrow> time_sub t u \<le> time_sub t' u"
  by (auto simp: time_sub_def)

lemma reserve_wait: "0 \<le> fst (reserve b w now) \<and> time_sub (b_until b) now \<le> fst (reserve b w now)"
  by (simp add: reserve_def Let_def le_max_iff_disj)

subsection \<open>Properties of the pacing\<close>

text \<open>C14: whatever operations ran on a bucket and in whatever order and clock readings, its
  level is a float64 that never exceeds one second of tokens (the limit), and a wait is
  never negative.\<close>

theorem bucket_never_overfull:
  assumes "bucket_steps new_bucket b"
  shows "0 \<le> b_limit b \<and> fl64 (b_level b) = b_level b \<and> b_level b \<le> float_of_int (b_limit b)
    \<and> 0 \<le> fst (reserve b w now)"
  using bucket_inv_steps [OF assms bucket_inv_new] reserve_wait by (simp add: bucket_inv_def)

theorem bucket_never_overfull_witness:
  "b_level (snd (reserve (bucket_set new_bucket 10 50 0) 1 0)) \<le> float_of_int 10"
proof -
  have "bucket_steps new_bucket (snd (reserve (bucket_set new_bucket 10 50 0) 1 0))"
    by (intro steps_step [OF steps_step [OF steps_refl step_set] step_reserve]) simp_all
  moreover have "b_limit (snd (reserve (bucket_set new_bucket 10 50 0) 1 0)) = 10"
    by (simp add: reserve_def bucket_set_def Let_def)
  ultimately show ?thesis
    using bucket_never_overfull [of "snd (reserve (bucket_set new_bucket 10 50 0) 1 0)"] by simp
qed

text \<open>C33: a 429's block is never lifted early: after it, whatever other responses, reservations
  and give-backs follow, a request reserved before the end of the block waits at least until
  then.\<close>

theorem block_never_lifted:
  assumes "bucket_steps (bucket_block b till) b'" "in_int64 (till - now)"
  shows "till \<le> now + fst (reserve b' w now)"
proof -
  have "till \<le> b_until (bucket_block b till)" by (simp add: bucket_block_def)
  then have "till \<le> b_until b'" using until_steps [OF assms(1)] by simp
  then have "time_sub till now \<le> fst (reserve b' w now)"
    using time_sub_mono [of till "b_until b'" now] reserve_wait [of b' w now] by simp
  then show ?thesis using assms(2) by (simp add: time_sub_exact)
qed

theorem block_never_lifted_witness:
  "5 \<le> (2::int) + fst (reserve (bucket_set (bucket_block new_bucket 5) 10 10 1) 1 2)"
proof (rule block_never_lifted)
  show "bucket_steps (bucket_block new_bucket 5) (bucket_set (bucket_block new_bucket 5) 10 10 1)"
    by (intro steps_step [OF steps_refl step_set]) simp_all
qed (simp add: in_int64_def min_int64_def max_int64_def)

text \<open>Several reservations at one instant, and the waits they return.\<close>

fun reserve_all :: "bucket \<Rightarrow> Tokens list \<Rightarrow> int \<Rightarrow> int list \<times> bucket" where
  "reserve_all b [] now = ([], b)"
| "reserve_all b (w # ws) now =
     (let (d, b1) = reserve b w now; (ds, b2) = reserve_all b1 ws now in (d # ds, b2))"

lemma reserve_integral:
  assumes "b_level b = of_int k" "b_at b = now" "0 < b_limit b" "b_limit b < 2 ^ 52"
    "0 \<le> w" "w \<le> b_limit b" "- (2 ^ 52) < k" "k \<le> b_limit b" "b_until b \<le> now"
  shows "b_level (snd (reserve b w now)) = of_int (k - w)"
    and "0 \<le> k - w \<Longrightarrow> fst (reserve b w now) = 0"
    and "k - w < 0 \<Longrightarrow> fst (reserve b w now) = max 0
       (float_to_duration (fl64 (fl64 (of_int (w - k) / of_int (b_limit b)) * of_int second)))"
proof -
  have n: "time_sub now now = 0" by (simp add: time_sub_def min_int64_def max_int64_def)
  have u: "time_sub (b_until b) now \<le> 0"
    using assms(9) by (simp add: time_sub_def min_int64_def max_int64_def)
  have L: "float_of_int (b_limit b) = of_int (b_limit b)" using assms by (intro float_of_int_exact) simp
  have W: "float_of_int (min w (b_limit b)) = of_int w"
    and W': "float_of_int w = of_int w"
    using assms by (simp_all add: float_of_int_exact)
  have "\<bar>k - w\<bar> < 2 ^ 53" using assms by (simp add: abs_less_iff)
  then have "fl64 (of_int (k - w)) = of_int (k - w)" by (rule fl64_int)
  then have lv: "fl64 (of_int k - of_int w) = of_int (k - w)" by simp
  show "b_level (snd (reserve b w now)) = of_int (k - w)"
    using assms by (simp add: reserve_def Let_def n W W' lv del: of_int_diff)
  show "0 \<le> k - w \<Longrightarrow> fst (reserve b w now) = 0"
    using assms u by (simp add: reserve_def Let_def n W W' lv del: of_int_diff)
  show "k - w < 0 \<Longrightarrow> fst (reserve b w now) = max 0
       (float_to_duration (fl64 (fl64 (of_int (w - k) / of_int (b_limit b)) * of_int second)))"
    using assms u by (simp add: reserve_def Let_def n W W' lv L max_def)
qed

lemma reserve_fields:
  "b_limit (snd (reserve b w now)) = b_limit b" "b_until (snd (reserve b w now)) = b_until b"
  "b_limit b \<noteq> 0 \<Longrightarrow> b_at (snd (reserve b w now)) = now"
  by (simp_all add: reserve_def Let_def)

lemma reserve_all_within:
  assumes "b_level b = of_int k" "b_at b = now" "0 < b_limit b" "b_limit b < 2 ^ 52"
    "\<forall>w \<in> set ws. 0 \<le> w" "sum_list ws \<le> k" "k \<le> b_limit b" "b_until b \<le> now"
  shows "set (fst (reserve_all b ws now)) \<subseteq> {0} \<and>
    b_level (snd (reserve_all b ws now)) = of_int (k - sum_list ws) \<and>
    b_at (snd (reserve_all b ws now)) = now \<and>
    b_limit (snd (reserve_all b ws now)) = b_limit b \<and>
    b_until (snd (reserve_all b ws now)) = b_until b"
  using assms
proof (induction ws arbitrary: b k)
  case (Cons w ws)
  let ?b = "snd (reserve b w now)"
  have pos: "0 \<le> sum_list ws" by (rule sum_list_nonneg) (use Cons.prems(5) in simp)
  then have w: "0 \<le> w" "w \<le> k" using Cons.prems(5,6) by simp_all
  have k: "- (2 ^ 52) < k" using w by simp
  have wl: "w \<le> b_limit b" using w Cons.prems(7) by simp
  note r = reserve_integral [OF Cons.prems(1-4) w(1) wl k Cons.prems(7,8)]
  have IH: "set (fst (reserve_all ?b ws now)) \<subseteq> {0} \<and>
    b_level (snd (reserve_all ?b ws now)) = of_int ((k - w) - sum_list ws) \<and>
    b_at (snd (reserve_all ?b ws now)) = now \<and>
    b_limit (snd (reserve_all ?b ws now)) = b_limit ?b \<and>
    b_until (snd (reserve_all ?b ws now)) = b_until ?b"
    by (rule Cons.IH) (use Cons.prems w in \<open>simp_all only: r(1) reserve_fields\<close>, use Cons.prems w in auto)
  then show ?case
    using r(2) w by (simp add: reserve_fields split_beta algebra_simps)
qed simp

lemma tick_at_billion: "1 \<le> fl64 (fl64 (1 / 1000000000) * 1000000000)"
  by code_simp

text \<open>The wait for a shortfall of d tokens is at least a nanosecond.\<close>

lemma shortfall_waits:
  fixes d :: int
  assumes "0 < limit" "limit \<le> 1000000000" "1 \<le> d" "d \<le> limit"
  shows "1 \<le> float_to_duration (fl64 (fl64 (of_int d / of_int limit) * of_int second))"
proof -
  let ?x = "of_int d / of_int limit :: rat"
  have "(1 :: rat) \<le> of_int d" using assms(3) by simp
  then have "1 * of_int limit \<le> of_int d * (1000000000 :: rat)"
    using assms(1,2) by (intro mult_mono) simp_all
  then have lo: "1 / 1000000000 \<le> ?x" using assms(1) by (simp add: field_simps)
  have hi: "?x \<le> 1" using assms(1,4) by (simp add: field_simps)
  let ?y = "fl64 (fl64 ?x * of_int second)"
  have "fl64 (1 / 1000000000) * 1000000000 \<le> fl64 ?x * of_int second"
    using fl.mono [OF lo] by (simp add: second_def)
  then have "1 \<le> ?y" using fl.mono tick_at_billion order_trans by blast
  moreover have "?y \<le> of_int second"
  proof (rule fl.below_float)
    show "fl64 (of_int second) = of_int second" by (rule fl64_int) (simp add: second_def)
    show "fl64 ?x * of_int second \<le> of_int second"
      using fl.mono [OF hi] fl64_int [of 1] by (simp add: second_def)
  qed
  ultimately have "1 \<le> \<lfloor>?y\<rfloor>" "\<lfloor>?y\<rfloor> \<le> second" by (simp_all add: le_floor_iff floor_le_iff)
  then show ?thesis
    using \<open>1 \<le> ?y\<close> by (simp add: float_to_duration_def Let_def in_int64_def min_int64_def max_int64_def second_def)
qed

text \<open>C32: right after a response reports its budget, the requests that fit the reported
  remaining are all sent at once, and the first one that does not fit waits: pacing starts
  exactly at the server's own number.\<close>

theorem burst_within_remaining:
  assumes "0 < limit" "limit \<le> 1000000000" "0 \<le> remaining" "remaining \<le> limit"
    and "\<forall>x \<in> set ws. 0 \<le> x" "sum_list ws \<le> remaining" "0 \<le> w" "w \<le> limit" "b_until b \<le> now"
  shows "let (ds, b') = reserve_all (bucket_set b limit remaining now) ws now in
    set ds \<subseteq> {0} \<and> (fst (reserve b' w now) = 0 \<longleftrightarrow> sum_list ws + w \<le> remaining)"
proof -
  let ?b = "bucket_set b limit remaining now"
  let ?b' = "snd (reserve_all ?b ws now)"
  let ?k = "remaining - sum_list ws"
  have s: "b_level ?b = of_int remaining" "b_at ?b = now" "b_limit ?b = limit" "b_until ?b = b_until b"
    using assms by (simp_all add: bucket_set_def float_of_int_exact)
  have L: "limit < 2 ^ 52" using assms by simp
  have a: "set (fst (reserve_all ?b ws now)) \<subseteq> {0} \<and> b_level ?b' = of_int ?k \<and> b_at ?b' = now \<and>
      b_limit ?b' = b_limit ?b \<and> b_until ?b' = b_until ?b"
    by (rule reserve_all_within) (use assms s L in simp_all)
  have nn: "0 \<le> sum_list ws" by (rule sum_list_nonneg) (use assms(5) in simp)
  have lv: "b_level ?b' = of_int ?k" and at: "b_at ?b' = now" and lim: "b_limit ?b' = limit"
    and unt: "b_until ?b' = b_until b" and zs: "set (fst (reserve_all ?b ws now)) \<subseteq> {0}"
    using a s by (blast, blast, metis, metis, blast)
  have pre: "0 < b_limit ?b'" "b_limit ?b' < 2 ^ 52" "w \<le> b_limit ?b'" "- (2 ^ 52) < ?k" "?k \<le> b_limit ?b'"
    "b_until ?b' \<le> now"
    unfolding lim unt using assms(1,4,6,8,9) L nn by simp_all
  note r = reserve_integral(2,3) [OF lv at pre(1,2) assms(7) pre(3-6), unfolded lim]
  have "0 < fst (reserve ?b' w now)" if n: "?k - w < 0"
    using shortfall_waits [OF assms(1,2), of "w - ?k"] r(2) [OF n] n assms(3,8) nn assms(6) by simp
  then have "fst (reserve ?b' w now) = 0 \<longleftrightarrow> sum_list ws + w \<le> remaining"
    using r(1) by fastforce
  then show ?thesis using zs by (simp add: split_beta Let_def)
qed

theorem burst_within_remaining_witness:
  "fst (reserve (snd (reserve_all (bucket_set new_bucket 100 2 0) [1, 1] 0)) 1 0) \<noteq> 0"
  using burst_within_remaining [of 100 2 "[1, 1]" 1 new_bucket 0]
  by (simp add: split_beta Let_def new_bucket_def zero_time_def second_def del: reserve_all.simps)

end
