(* ===== verification/Url.thy ===== *)
theory Url
  imports Prelude "HOL-Library.List_Lexorder" "HOL-Library.Char_ord"
begin

section \<open>URLs (net/url as the SDK uses it)\<close>

text \<open>
  \<open>PathEscape\<close> for a path segment, \<open>Values.Encode\<close> for a query, and what url.Parse and
  EscapedPath make of the target of a request: the escaped path that goes on the wire and
  the raw query. The scheme and the authority of a base are constants of the SDK, so only
  the part after the authority is parsed.
\<close>

definition unreserved :: "char \<Rightarrow> bool" where
  "unreserved c =
     (let n = of_char c :: nat in
      48 \<le> n \<and> n \<le> 57 \<or> 65 \<le> n \<and> n \<le> 90 \<or> 97 \<le> n \<and> n \<le> 122 \<or> c \<in> set ''-_.~'')"

lemma unreserved_code [code]:
  "unreserved (Char b0 b1 b2 b3 b4 b5 b6 b7) =
     (\<not> b7 \<and>
      (if b6
       then (b0 \<or> b1 \<or> b2 \<or> b3 \<or> b4) \<and> \<not> (b4 \<and> b3 \<and> (b2 \<or> b1 \<and> b0))
            \<or> \<not> b5 \<and> b4 \<and> b3 \<and> b2 \<and> b1 \<and> b0 \<or> b5 \<and> b4 \<and> b3 \<and> b2 \<and> b1 \<and> \<not> b0
       else b5 \<and> (if b4 then \<not> (b3 \<and> (b2 \<or> b1)) else b3 \<and> b2 \<and> \<not> b1 \<and> b0 \<or> b3 \<and> b2 \<and> b1 \<and> \<not> b0)))"
  by (cases b0; cases b1; cases b2; cases b3; cases b4; cases b5; cases b6; cases b7; simp add: unreserved_def)

definition upper_hex :: "nat \<Rightarrow> char" where
  "upper_hex d = (if d < 10 then char_of (48 + d) else char_of (55 + d))"

definition percent :: "char \<Rightarrow> string" where
  "percent c = (let n = of_char c :: nat in [CHR ''%'', upper_hex (n div 16), upper_hex (n mod 16)])"

text \<open>The bytes a path segment keeps, those a whole path keeps, and those that Parse accepts
  unescaped in a path (validEncoded).\<close>

definition keep_segment :: "char \<Rightarrow> bool" where
  "keep_segment c = (unreserved c \<or> c \<in> set ''$&+:=@'')"

definition keep_path :: "char \<Rightarrow> bool" where
  "keep_path c = (unreserved c \<or> c \<in> set ''$&+,/:;=@'')"

definition accept_path :: "char \<Rightarrow> bool" where
  "accept_path c = (keep_path c \<or> c \<in> set ''!'()*[]%'' \<or> c = CHR 0x27)"

definition PathEscape :: "string \<Rightarrow> string" where
  "PathEscape s = concat (map (\<lambda>c. if keep_segment c then [c] else percent c) s)"

definition escape_path :: "string \<Rightarrow> string" where
  "escape_path s = concat (map (\<lambda>c. if keep_path c then [c] else percent c) s)"

definition QueryEscape :: "string \<Rightarrow> string" where
  "QueryEscape s =
     concat (map (\<lambda>c. if unreserved c then [c] else if c = CHR '' '' then ''+'' else percent c) s)"

fun unescape :: "string \<Rightarrow> string option" where
  "unescape [] = Some []"
| "unescape (c # s) =
     (if c = CHR ''%'' then
        (case s of
           a # b # s' \<Rightarrow>
             (case (hex_val a, hex_val b) of
                (Some x, Some y) \<Rightarrow> map_option ((#) (char_of (16 * x + y))) (unescape s')
              | _ \<Rightarrow> None)
         | _ \<Rightarrow> None)
      else map_option ((#) c) (unescape s))"

subsection \<open>Queries\<close>

text \<open>url.Values: keys with their values in the order they were added.\<close>

type_synonym query = "(string \<times> string) list"

definition qset :: "query \<Rightarrow> string \<Rightarrow> string \<Rightarrow> query" where
  "qset q k v = filter (\<lambda>(k', _). k' \<noteq> k) q @ [(k, v)]"

definition query_encode :: "query \<Rightarrow> string" where
  "query_encode q =
     join_on (CHR ''&'') (map (\<lambda>(k, v). QueryEscape k @ CHR ''='' # QueryEscape v) (sort_key fst q))"

subsection \<open>Targets\<close>

definition has_ctl :: "string \<Rightarrow> bool" where
  "has_ctl s = list_ex (\<lambda>c. (of_char c :: nat) < 0x20 \<or> c = CHR 0x7F) s"

definition after :: "char \<Rightarrow> string \<Rightarrow> string" where
  "after c s = drop (Suc (length (cut_before c s))) s"

definition escaped_path :: "string \<Rightarrow> string \<Rightarrow> string" where
  "escaped_path p up = (if list_all accept_path p then p else escape_path up)"

text \<open>The path and query of a target (what follows the authority), or None where Parse fails.\<close>

definition parse_target :: "string \<Rightarrow> (string \<times> string) option" where
  "parse_target t =
     (let u = cut_before (CHR ''#'') t; p = cut_before (CHR ''?'') u in
      if has_ctl u \<or> unescape (after (CHR ''#'') t) = None then None
      else map_option (\<lambda>up. (escaped_path p up, after (CHR ''?'') u)) (unescape p))"

text \<open>What follows scheme and authority in an absolute URL.\<close>

fun after_scheme :: "string \<Rightarrow> string" where
  "after_scheme [] = []"
| "after_scheme (c # s) =
     (if has_prefix (c # s) ''://'' then dropWhile (\<lambda>x. x \<noteq> CHR ''/'') (drop 3 (c # s)) else after_scheme s)"

declare after_scheme.simps [simp del]

subsection \<open>A segment stays a segment\<close>

lemma upper_hex_chars: "d < 16 \<Longrightarrow> unreserved (upper_hex d)"
  by (auto simp: unreserved_def upper_hex_def Let_def)

lemma hex_val_upper_hex: "d < 16 \<Longrightarrow> hex_val (upper_hex d) = Some d"
  by (auto simp: hex_val_def upper_hex_def Let_def)

lemma char_nibbles: "(of_char c :: nat) div 16 < 16" "(of_char c :: nat) mod 16 < 16" for c :: char
proof -
  have "(of_char c :: nat) < 256" by simp
  then show "(of_char c :: nat) div 16 < 16" by (simp add: div_less_iff_less_mult)
qed simp

lemma unescape_percent: "unescape (percent c @ s) = map_option ((#) c) (unescape s)"
  by (simp add: percent_def Let_def hex_val_upper_hex char_nibbles)

lemma percent_chars: "x \<in> set (percent c) \<Longrightarrow> x = CHR ''%'' \<or> unreserved x"
  by (auto simp: percent_def Let_def upper_hex_chars char_nibbles)

lemma keep_segment_not: "keep_segment c \<Longrightarrow> c \<noteq> CHR ''%''"
  by (auto simp: keep_segment_def unreserved_def)

lemma unescape_PathEscape_append:
  "unescape (PathEscape s @ t) = map_option ((@) s) (unescape t)"
proof (induction s)
  case Nil
  show ?case by (cases "unescape t") (simp_all add: PathEscape_def)
next
  case (Cons c s)
  have "unescape (PathEscape (c # s) @ t) = map_option ((#) c) (unescape (PathEscape s @ t))"
  proof (cases "keep_segment c")
    case True
    then show ?thesis using keep_segment_not [OF True] by (simp add: PathEscape_def)
  next
    case False
    then show ?thesis by (simp add: PathEscape_def unescape_percent)
  qed
  then show ?case using Cons by (cases "unescape t") simp_all
qed

lemma unescape_PathEscape: "unescape (PathEscape s) = Some s"
  using unescape_PathEscape_append [of s "[]"] by simp

lemma PathEscape_chars: "x \<in> set (PathEscape s) \<Longrightarrow> x = CHR ''%'' \<or> keep_segment x"
  using percent_chars by (fastforce simp: PathEscape_def keep_segment_def split: if_splits)

lemma segment_chars:
  "keep_segment c \<Longrightarrow> c \<notin> {CHR ''/'', CHR ''?'', CHR ''#'', CHR 0x7F} \<and> 0x20 \<le> (of_char c :: nat) \<and> accept_path c"
  by (auto simp: keep_segment_def unreserved_def accept_path_def keep_path_def Let_def)

lemma PathEscape_not: "c \<in> {CHR ''/'', CHR ''?'', CHR ''#'', CHR 0x0A} \<Longrightarrow> c \<notin> set (PathEscape s)"
proof
  assume c: "c \<in> {CHR ''/'', CHR ''?'', CHR ''#'', CHR 0x0A}" "c \<in> set (PathEscape s)"
  then consider "c = CHR ''%''" | "keep_segment c" using PathEscape_chars by blast
  then show False using c(1) segment_chars [of c] by cases auto
qed

lemma PathEscape_Nil [simp]: "PathEscape s = [] \<longleftrightarrow> s = []"
  by (cases s) (auto simp: PathEscape_def percent_def Let_def)

lemma PathEscape_inject: "PathEscape s = PathEscape t \<longleftrightarrow> s = t"
  by (metis option.inject unescape_PathEscape)

text \<open>
  A literal prefix of plain path bytes and an escaped segment is parsed as it is: the wire
  path is the text, the query is empty, and the segment decodes to the value.
\<close>

definition plain_path :: "string \<Rightarrow> bool" where
  "plain_path p = list_all (\<lambda>c. unreserved c \<or> c = CHR ''/'') p"

lemma plain_chars:
  "unreserved c \<or> c = CHR ''/'' \<Longrightarrow>
     c \<notin> {CHR ''?'', CHR ''#'', CHR ''%'', CHR 0x7F} \<and> 0x20 \<le> (of_char c :: nat) \<and> accept_path c"
  by (auto simp: unreserved_def accept_path_def keep_path_def Let_def)

lemma unescape_plain: "plain_path p \<Longrightarrow> unescape (p @ s) = map_option ((@) p) (unescape s)"
proof (induction p)
  case Nil
  show ?case by (cases "unescape s") simp_all
next
  case (Cons c p)
  then have "c \<noteq> CHR ''%''" using plain_chars [of c] by (auto simp: plain_path_def)
  then show ?case using Cons by (cases "unescape s") (simp_all add: plain_path_def)
qed

definition path_text :: "string \<Rightarrow> bool" where
  "path_text p = ((\<forall>c \<in> set p. c \<notin> {CHR ''?'', CHR ''#'', CHR 0x7F} \<and> 0x20 \<le> (of_char c :: nat) \<and> accept_path c)
     \<and> unescape p \<noteq> None)"

lemma path_text_plain: "plain_path p \<Longrightarrow> path_text p"
  using unescape_plain [of p "[]"] plain_chars
  by (auto simp: path_text_def plain_path_def list_all_iff)

lemma path_text_append_escape:
  assumes "plain_path p" "path_text t" shows "path_text (p @ PathEscape s @ t)"
proof -
  have pc: "CHR ''%'' \<notin> {CHR ''?'', CHR ''#'', CHR 0x7F} \<and> 0x20 \<le> (of_char (CHR ''%'') :: nat) \<and> accept_path (CHR ''%'')"
    by (simp add: accept_path_def)
  have "unescape (p @ PathEscape s @ t) \<noteq> None"
    using assms by (simp add: unescape_plain unescape_PathEscape_append path_text_def)
  moreover have "c \<notin> {CHR ''?'', CHR ''#'', CHR 0x7F} \<and> 0x20 \<le> (of_char c :: nat) \<and> accept_path c"
    if "c \<in> set (p @ PathEscape s @ t)" for c
  proof -
    from that consider "c \<in> set p" | "c \<in> set (PathEscape s)" | "c \<in> set t" by auto
    then show ?thesis
    proof cases
      case 1
      then show ?thesis using assms(1) plain_chars by (simp add: plain_path_def list_all_iff)
    next
      case 2
      then show ?thesis using PathEscape_chars [OF 2] segment_chars [of c] pc by auto
    next
      case 3
      then show ?thesis using assms(2) by (simp add: path_text_def)
    qed
  qed
  ultimately show ?thesis by (simp add: path_text_def)
qed

lemma after_free: "c \<notin> set s \<Longrightarrow> after c s = []"
  by (simp add: after_def)

lemma after_append: "c \<notin> set a \<Longrightarrow> after c (a @ c # b) = b"
  by (simp add: after_def)

lemma parse_path_text: "path_text p \<Longrightarrow> parse_target p = Some (p, [])"
proof -
  assume p: "path_text p"
  then have n: "CHR ''#'' \<notin> set p" "CHR ''?'' \<notin> set p" by (auto simp: path_text_def)
  obtain up where u: "unescape p = Some up" using p by (auto simp: path_text_def)
  have "\<not> has_ctl p" "list_all accept_path p"
    using p by (force simp: path_text_def has_ctl_def list_ex_iff list_all_iff)+
  then show ?thesis using n u by (simp add: parse_target_def after_free escaped_path_def)
qed

lemma parse_path_query:
  assumes "path_text p" "CHR ''#'' \<notin> set q" "\<not> has_ctl q"
  shows "parse_target (p @ CHR ''?'' # q) = Some (p, q)"
proof -
  have n: "CHR ''#'' \<notin> set p" "CHR ''?'' \<notin> set p" using assms(1) by (auto simp: path_text_def)
  have c: "cut_before (CHR ''#'') (p @ CHR ''?'' # q) = p @ CHR ''?'' # q"
    using n assms(2) by (intro cut_before_free) auto
  have a: "after (CHR ''#'') (p @ CHR ''?'' # q) = []"
    using n assms(2) by (intro after_free) auto
  obtain up where u: "unescape p = Some up" using assms(1) by (auto simp: path_text_def)
  have "\<not> has_ctl p" "list_all accept_path p"
    using assms(1) by (force simp: path_text_def has_ctl_def list_ex_iff list_all_iff)+
  moreover from this have "\<not> has_ctl (p @ CHR ''?'' # q)" using assms(3) by (simp add: has_ctl_def)
  ultimately show ?thesis
    using n u by (simp add: parse_target_def c a after_append escaped_path_def)
qed

lemma QueryEscape_chars: "x \<in> set (QueryEscape s) \<Longrightarrow> x = CHR ''%'' \<or> x = CHR ''+'' \<or> unreserved x"
  using percent_chars by (fastforce simp: QueryEscape_def split: if_splits)

lemma join_on_chars: "x \<in> set (join_on c ss) \<Longrightarrow> x = c \<or> (\<exists>s \<in> set ss. x \<in> set s)"
  by (induction c ss rule: join_on.induct) auto

lemma query_encode_chars:
  "x \<in> set (query_encode q) \<Longrightarrow> x \<in> set ''&=%+'' \<or> unreserved x"
  using join_on_chars QueryEscape_chars by (fastforce simp: query_encode_def)

lemma query_encode_plain:
  "CHR ''#'' \<notin> set (query_encode q) \<and> \<not> has_ctl (query_encode q) \<and> CHR 0x0A \<notin> set (query_encode q)"
proof -
  have "x \<noteq> CHR ''#'' \<and> 0x20 \<le> (of_char x :: nat) \<and> x \<noteq> CHR 0x7F \<and> x \<noteq> CHR 0x0A"
    if "x \<in> set (query_encode q)" for x
    using query_encode_chars [OF that] by (auto simp: unreserved_def Let_def)
  then show ?thesis by (force simp: has_ctl_def list_ex_iff)
qed

end
