(* ===== verification/Sha256.thy ===== *)
theory Sha256
  imports Prelude "HOL-Library.Word"
begin

section \<open>SHA-256 and HMAC (crypto/sha256, crypto/hmac)\<close>

text \<open>
  The hash functions the request signatures are built from, as FIPS 180-4 and RFC 2104
  define them, on strings of bytes, executable. What the signatures need of them here is
  their length; nothing assumes that hashes do not collide.
\<close>

unbundle bit_operations_syntax

type_synonym w32 = "32 word"

definition rotr :: "nat \<Rightarrow> w32 \<Rightarrow> w32" where
  "rotr n x = word_rotr n x"

definition sha_ch :: "w32 \<Rightarrow> w32 \<Rightarrow> w32 \<Rightarrow> w32" where
  "sha_ch x y z = (x AND y) XOR (NOT x AND z)"

definition sha_maj :: "w32 \<Rightarrow> w32 \<Rightarrow> w32 \<Rightarrow> w32" where
  "sha_maj x y z = (x AND y) XOR (x AND z) XOR (y AND z)"

definition big_sigma0 :: "w32 \<Rightarrow> w32" where
  "big_sigma0 x = rotr 2 x XOR rotr 13 x XOR rotr 22 x"

definition big_sigma1 :: "w32 \<Rightarrow> w32" where
  "big_sigma1 x = rotr 6 x XOR rotr 11 x XOR rotr 25 x"

definition small_sigma0 :: "w32 \<Rightarrow> w32" where
  "small_sigma0 x = rotr 7 x XOR rotr 18 x XOR drop_bit 3 x"

definition small_sigma1 :: "w32 \<Rightarrow> w32" where
  "small_sigma1 x = rotr 17 x XOR rotr 19 x XOR drop_bit 10 x"

text \<open>The constants, written as rows of eight 32-bit words in one number, highest word first.\<close>

definition word_row :: "int \<Rightarrow> w32 list" where
  "word_row n = map (\<lambda>i. word_of_int (n div 2 ^ (32 * (7 - i)))) [0..<8]"

definition sha_k :: "w32 list" where
  "sha_k = concat (map word_row [
    0x428a2f9871374491b5c0fbcfe9b5dba53956c25b59f111f1923f82a4ab1c5ed5,
    0xd807aa9812835b01243185be550c7dc372be5d7480deb1fe9bdc06a7c19bf174,
    0xe49b69c1efbe47860fc19dc6240ca1cc2de92c6f4a7484aa5cb0a9dc76f988da,
    0x983e5152a831c66db00327c8bf597fc7c6e00bf3d5a7914706ca635114292967,
    0x27b70a852e1b21384d2c6dfc53380d13650a7354766a0abb81c2c92e92722c85,
    0xa2bfe8a1a81a664bc24b8b70c76c51a3d192e819d6990624f40e3585106aa070,
    0x19a4c1161e376c082748774c34b0bcb5391c0cb34ed8aa4a5b9cca4f682e6ff3,
    0x748f82ee78a5636f84c878148cc7020890befffaa4506cebbef9a3f7c67178f2])"

definition sha_h0 :: "w32 list" where
  "sha_h0 = word_row 0x6a09e667bb67ae853c6ef372a54ff53a510e527f9b05688c1f83d9ab5be0cd19"

definition byte_of :: "nat \<Rightarrow> char" where
  "byte_of n = char_of n"

text \<open>The message, a 1 bit, zeros, and the bit length in 64 bits, big-endian.\<close>

definition be_bytes :: "nat \<Rightarrow> nat \<Rightarrow> string" where
  "be_bytes k n = map (\<lambda>i. byte_of (n div 256 ^ (k - 1 - i) mod 256)) [0..<k]"

definition sha_pad :: "string \<Rightarrow> string" where
  "sha_pad m =
     m @ CHR 0x80 # replicate ((119 - length m mod 64) mod 64) (CHR 0x00) @ be_bytes 8 (8 * length m)"

fun be_words :: "string \<Rightarrow> w32 list" where
  "be_words (a # b # c # d # s) =
     word_of_nat (((of_char a * 256 + of_char b) * 256 + of_char c) * 256 + of_char d) # be_words s"
| "be_words _ = []"

text \<open>The message schedule: ws holds the last 16 words, oldest first.\<close>

definition sha_round :: "w32 \<Rightarrow> w32 \<Rightarrow> w32 list \<Rightarrow> w32 list" where
  "sha_round k w st =
     (let t1 = st ! 7 + big_sigma1 (st ! 4) + sha_ch (st ! 4) (st ! 5) (st ! 6) + k + w;
          t2 = big_sigma0 (st ! 0) + sha_maj (st ! 0) (st ! 1) (st ! 2)
      in [t1 + t2, st ! 0, st ! 1, st ! 2, st ! 3 + t1, st ! 4, st ! 5, st ! 6])"

fun sha_rounds :: "w32 list \<Rightarrow> w32 list \<Rightarrow> w32 list \<Rightarrow> w32 list" where
  "sha_rounds [] ws st = st"
| "sha_rounds (k # ks) ws st =
     (let new = small_sigma1 (ws ! 14) + ws ! 9 + small_sigma0 (ws ! 1) + ws ! 0
      in sha_rounds ks (tl ws @ [new]) (sha_round k (ws ! 0) st))"

definition sha_block :: "w32 list \<Rightarrow> w32 list \<Rightarrow> w32 list" where
  "sha_block ws st = map2 (+) (sha_rounds sha_k ws st) st"

fun sha_blocks :: "nat \<Rightarrow> w32 list \<Rightarrow> w32 list \<Rightarrow> w32 list" where
  "sha_blocks 0 ws st = st"
| "sha_blocks (Suc n) ws st = sha_blocks n (drop 16 ws) (sha_block (take 16 ws) st)"

definition sha256 :: "string \<Rightarrow> string" where
  "sha256 m =
     (let p = sha_pad m
      in concat (map (\<lambda>w. be_bytes 4 (unat w)) (sha_blocks (length p div 64) (be_words p) sha_h0)))"

definition xor_byte :: "nat \<Rightarrow> char \<Rightarrow> char" where
  "xor_byte k c = byte_of (k XOR of_char c)"

definition hmac_sha256 :: "string \<Rightarrow> string \<Rightarrow> string" where
  "hmac_sha256 key m =
     (let k = (if length key > 64 then sha256 key else key);
          k = k @ replicate (64 - length k) (CHR 0x00)
      in sha256 (map (xor_byte 0x5c) k @ sha256 (map (xor_byte 0x36) k @ m)))"

subsection \<open>Lengths\<close>

lemma length_be_bytes [simp]: "length (be_bytes k n) = k"
  by (simp add: be_bytes_def)

lemma length_sha_rounds: "length st = 8 \<Longrightarrow> length (sha_rounds ks ws st) = 8"
  by (induction ks ws st rule: sha_rounds.induct) (simp_all add: sha_round_def Let_def)

lemma length_sha_blocks: "length st = 8 \<Longrightarrow> length (sha_blocks n ws st) = 8"
  by (induction n ws st rule: sha_blocks.induct) (simp_all add: sha_block_def length_sha_rounds)

lemma length_sha256 [simp]: "length (sha256 m) = 32"
proof -
  have "length (concat (map (\<lambda>w. be_bytes 4 (unat w)) ws)) = 4 * length ws" for ws :: "w32 list"
    by (induction ws) simp_all
  moreover have "length sha_h0 = 8" by (simp add: sha_h0_def word_row_def)
  ultimately show ?thesis by (simp add: sha256_def Let_def length_sha_blocks)
qed

lemma length_hmac_sha256 [simp]: "length (hmac_sha256 k m) = 32"
  by (simp add: hmac_sha256_def Let_def)

end
