(* ===== verification/Signing.thy ===== *)
theory Signing
  imports ApiError Sha256
begin

section \<open>Request signing (internal/signing)\<close>

text \<open>
  The two canonical strings, the HMAC and agent signers, and the digests a wallet signs.
  SHA-256 and HMAC are defined (\<open>Sha256\<close>); Keccak, secp256k1 and the EIP-712 encoder are
  go-ethereum's, and stand as the functions of an \<open>eth_lib\<close>. What the code relies on of
  them is stated where a lemma needs it, from their documentation. A nil body is hashed
  like an empty one.
\<close>

definition body_bytes :: "string option \<Rightarrow> string" where
  "body_bytes b = (case b of None \<Rightarrow> [] | Some s \<Rightarrow> s)"

definition newline :: char where
  "newline = CHR 0x0A"

definition uint64 :: "int \<Rightarrow> nat" where
  "uint64 i = nat (i mod 2 ^ 64)"

text \<open>Time.UnixMilli of an instant in nanoseconds.\<close>

definition unix_milli :: "int \<Rightarrow> int" where
  "unix_milli t = wrap64 (t div 1000000)"

subsection \<open>HMAC (hmac.go)\<close>

record hmac_key =
  KeyID :: string
  Secret :: string

definition Canonical :: "int \<Rightarrow> string \<Rightarrow> string \<Rightarrow> string \<Rightarrow> string option \<Rightarrow> string" where
  "Canonical tsMillis m p q body =
     show_int tsMillis @ newline # to_upper m @ newline # p @ newline # q @ newline #
     hex_encode (sha256 (body_bytes body))"

definition Sign :: "string \<Rightarrow> string \<Rightarrow> string" where
  "Sign secret canonical = hex_encode (hmac_sha256 secret canonical)"

text \<open>HMAC.Apply with the clock reading now.\<close>

definition Apply ::
  "hmac_key \<Rightarrow> int \<Rightarrow> headers \<Rightarrow> string \<Rightarrow> string \<Rightarrow> string \<Rightarrow> string option \<Rightarrow> headers" where
  "Apply s now h m p q body =
     (let ts = unix_milli now;
          h = hset h ''X-Api-Key'' (KeyID s);
          h = hset h ''X-Timestamp'' (show_int ts)
      in hset h ''X-Signature'' (Sign (Secret s) (Canonical ts m p q body)))"

subsection \<open>Ethereum keys and digests (eth.go)\<close>

record typed_data =
  td_types :: "(string \<times> (string \<times> string) list) list"
  td_primary :: string
  td_name :: string
  td_version :: string
  td_chainId :: int
  td_salt :: "string option"
  td_message :: "(string \<times> string) list"

text \<open>
  go-ethereum as the code calls it: crypto.Keccak256, ToECDSA, FromECDSA, the Hex form of
  PubkeyToAddress, Sign, SigToPub followed by that Hex form, accounts.TextHash,
  common.Address.Hex, hexutil.Encode, apitypes.TypedDataAndHash.
\<close>

record 'k eth_lib =
  el_keccak :: "string \<Rightarrow> string"
  el_to_ecdsa :: "string \<Rightarrow> 'k option"
  el_from_ecdsa :: "'k \<Rightarrow> string"
  el_pub_hex :: "'k \<Rightarrow> string"
  el_sign :: "string \<Rightarrow> 'k \<Rightarrow> string option"
  el_sig_to_hex :: "string \<Rightarrow> string \<Rightarrow> string option"
  el_text_hash :: "string \<Rightarrow> string"
  el_address_hex :: "string \<Rightarrow> string"
  el_hex :: "string \<Rightarrow> string"
  el_typed_data_hash :: "typed_data \<Rightarrow> string option"

definition ParseKey :: "'k eth_lib \<Rightarrow> string \<Rightarrow> 'k option" where
  "ParseKey E s =
     (case hex_decode (trim_prefix s ''0x'') of
        None \<Rightarrow> None
      | Some b \<Rightarrow> if length b \<noteq> 32 then None else el_to_ecdsa E b)"

definition Address :: "'k eth_lib \<Rightarrow> 'k \<Rightarrow> string" where
  "Address E k = to_lower (el_pub_hex E k)"

text \<open>None is the panic on a digest that cannot be signed.\<close>

definition add_to_last :: "string \<Rightarrow> nat \<Rightarrow> string" where
  "add_to_last sig n = sig[64 := char_of ((of_char (sig ! 64) + n) mod 256 :: nat)]"

definition SignHash :: "'k eth_lib \<Rightarrow> 'k \<Rightarrow> string \<Rightarrow> string option" where
  "SignHash E k digest = map_option (\<lambda>sig. add_to_last sig 27) (el_sign E digest k)"

definition Recover :: "'k eth_lib \<Rightarrow> string \<Rightarrow> string \<Rightarrow> string option" where
  "Recover E digest sig =
     (if length sig \<noteq> 65 \<or> (sig ! 64 \<noteq> char_of (27 :: nat) \<and> sig ! 64 \<noteq> char_of (28 :: nat)) then None
      else map_option to_lower (el_sig_to_hex E digest (add_to_last sig 229)))"

definition PersonalHash :: "'k eth_lib \<Rightarrow> string \<Rightarrow> string" where
  "PersonalHash E msg = el_text_hash E msg"

definition ParseAddress :: "string \<Rightarrow> string option" where
  "ParseAddress s =
     (case hex_decode (trim_prefix s ''0x'') of
        None \<Rightarrow> None
      | Some b \<Rightarrow> if \<not> has_prefix s ''0x'' \<or> length b \<noteq> 20 then None else Some b)"

definition NetworkSalt :: "'k eth_lib \<Rightarrow> string \<Rightarrow> string" where
  "NetworkSalt E network = el_keccak E network"

definition agent_typed_data ::
  "'k eth_lib \<Rightarrow> nat \<Rightarrow> string option \<Rightarrow> string \<Rightarrow> (string \<times> string) list \<Rightarrow> (string \<times> string) list \<Rightarrow> typed_data" where
  "agent_typed_data E chainID salt primary flds message =
     \<lparr>td_types =
        [(''EIP712Domain'',
           [(''name'', ''string''), (''version'', ''string''), (''chainId'', ''uint256'')]
           @ (case salt of None \<Rightarrow> [] | Some _ \<Rightarrow> [(''salt'', ''bytes32'')])),
         (primary, flds)],
      td_primary = primary, td_name = ''Nexus Exchange'', td_version = ''1'',
      td_chainId = wrap64 (int chainID), td_salt = map_option (el_hex E) salt, td_message = message\<rparr>"

definition register_typed_data ::
  "'k eth_lib \<Rightarrow> nat \<Rightarrow> string option \<Rightarrow> string \<Rightarrow> nat \<Rightarrow> nat \<Rightarrow> typed_data" where
  "register_typed_data E chainID salt agent expiresAt nonce =
     agent_typed_data E chainID salt ''RegisterAgent''
       [(''agent'', ''address''), (''expiresAt'', ''uint64''), (''nonce'', ''uint64'')]
       [(''agent'', el_address_hex E agent), (''expiresAt'', show_nat expiresAt), (''nonce'', show_nat nonce)]"

definition register_terms_typed_data ::
  "'k eth_lib \<Rightarrow> nat \<Rightarrow> string option \<Rightarrow> string \<Rightarrow> nat \<Rightarrow> nat \<Rightarrow> nat \<Rightarrow> typed_data" where
  "register_terms_typed_data E chainID salt agent expiresAt nonce termsVersion =
     agent_typed_data E chainID salt ''RegisterAgent''
       [(''agent'', ''address''), (''expiresAt'', ''uint64''), (''nonce'', ''uint64''), (''termsVersion'', ''uint32'')]
       [(''agent'', el_address_hex E agent), (''expiresAt'', show_nat expiresAt), (''nonce'', show_nat nonce),
        (''termsVersion'', show_nat termsVersion)]"

definition revoke_typed_data ::
  "'k eth_lib \<Rightarrow> nat \<Rightarrow> string option \<Rightarrow> string \<Rightarrow> string \<Rightarrow> nat \<Rightarrow> typed_data" where
  "revoke_typed_data E chainID salt account agent nonce =
     agent_typed_data E chainID salt ''RevokeAgentKey''
       [(''account'', ''address''), (''agent'', ''address''), (''nonce'', ''uint64'')]
       [(''account'', el_address_hex E account), (''agent'', el_address_hex E agent), (''nonce'', show_nat nonce)]"

definition RegisterAgentDigest ::
  "'k eth_lib \<Rightarrow> nat \<Rightarrow> string option \<Rightarrow> string \<Rightarrow> nat \<Rightarrow> nat \<Rightarrow> string option" where
  "RegisterAgentDigest E chainID salt agent expiresAt nonce =
     el_typed_data_hash E (register_typed_data E chainID salt agent expiresAt nonce)"

definition RegisterAgentWithTermsDigest ::
  "'k eth_lib \<Rightarrow> nat \<Rightarrow> string option \<Rightarrow> string \<Rightarrow> nat \<Rightarrow> nat \<Rightarrow> nat \<Rightarrow> string option" where
  "RegisterAgentWithTermsDigest E chainID salt agent expiresAt nonce termsVersion =
     el_typed_data_hash E (register_terms_typed_data E chainID salt agent expiresAt nonce termsVersion)"

definition RevokeAgentKeyDigest ::
  "'k eth_lib \<Rightarrow> nat \<Rightarrow> string option \<Rightarrow> string \<Rightarrow> string \<Rightarrow> nat \<Rightarrow> string option" where
  "RevokeAgentKeyDigest E chainID salt account agent nonce =
     el_typed_data_hash E (revoke_typed_data E chainID salt account agent nonce)"

subsection \<open>Agents (agent.go)\<close>

record 'k agent =
  agent_key :: 'k
  agent_address :: string
  agent_last :: nat

definition NewSigningAgent :: "'k eth_lib \<Rightarrow> 'k \<Rightarrow> 'k agent" where
  "NewSigningAgent E k = \<lparr>agent_key = k, agent_address = Address E k, agent_last = 0\<rparr>"

definition AgentCanonical ::
  "string \<Rightarrow> string \<Rightarrow> string \<Rightarrow> string option \<Rightarrow> int \<Rightarrow> nat \<Rightarrow> string" where
  "AgentCanonical m p q body tsMillis nonce =
     to_upper m @ newline # p @ newline # q @ newline # hex_encode (sha256 (body_bytes body)) @
     newline # show_int tsMillis @ newline # show_nat nonce"

definition SignAgent :: "'k eth_lib \<Rightarrow> 'k \<Rightarrow> string \<Rightarrow> string option" where
  "SignAgent E k canonical =
     map_option (\<lambda>sig. ''0x'' @ hex_encode sig) (SignHash E k (el_keccak E canonical))"

definition MovesFunds :: "string \<Rightarrow> string \<Rightarrow> bool" where
  "MovesFunds m p =
     (if p = ''/transfers'' \<or> has_prefix p ''/transfers/'' then True
      else m \<noteq> ''GET'' \<and> m \<noteq> ''HEAD'' \<and> contains_str p ''withdraw'')"

text \<open>
  Agent.Sign with the clock reading now: the nonce is issued under the lock, so calls are
  ordered by it. A failed signature is the panic of \<open>SignHash\<close>, \<open>EPanic\<close>.
\<close>

definition next_nonce :: "nat \<Rightarrow> int \<Rightarrow> nat" where
  "next_nonce prev ts = max ((prev + 1) mod 2 ^ 64) (uint64 ts)"

definition agent_Sign ::
  "'k eth_lib \<Rightarrow> 'k agent \<Rightarrow> int \<Rightarrow> headers \<Rightarrow> string \<Rightarrow> string \<Rightarrow> string \<Rightarrow> string option \<Rightarrow>
     (go_error + headers) \<times> 'k agent" where
  "agent_Sign E a now h m p q body =
     (if MovesFunds m p then (Inl EAgentCannotWithdraw, a)
      else
        (let ts = unix_milli now;
             nonce = next_nonce (agent_last a) ts;
             h = hset h ''X-Agent'' (agent_address a);
             h = hset h ''X-Timestamp'' (show_int ts);
             h = hset h ''X-Nonce'' (show_nat nonce)
         in (case SignAgent E (agent_key a) (AgentCanonical m p q body ts nonce) of
               None \<Rightarrow> Inl EPanic
             | Some sig \<Rightarrow> Inr (hset h ''X-Signature'' sig),
             a\<lparr>agent_last := nonce\<rparr>)))"

subsection \<open>Canonical strings\<close>

definition line :: "string \<Rightarrow> bool" where
  "line s = (newline \<notin> set s)"

lemma line_intros [simp]:
  "line (show_int i)" "line (show_nat n)" "line (hex_encode b)"
  by (simp_all add: line_def newline_def)

lemma upper_char_newline: "upper_char c = newline \<longleftrightarrow> c = newline"
proof
  assume u: "upper_char c = newline"
  show "c = newline"
  proof (cases "97 \<le> (of_char c :: nat) \<and> (of_char c :: nat) \<le> 122")
    case True
    have "(of_char c - 32 :: nat) < 256" using True by linarith
    then have "(of_char (upper_char c) :: nat) = of_char c - 32"
      using True by (simp add: upper_char_def Let_def)
    moreover have "(of_char (upper_char c) :: nat) = 10" unfolding u by (simp add: newline_def)
    ultimately show ?thesis using True by linarith
  next
    case False
    then show ?thesis using u by (simp add: upper_char_def Let_def split: if_splits)
  qed
qed (simp add: upper_char_def newline_def)

lemma line_to_upper [simp]: "line (to_upper m) = line m"
proof -
  have "newline \<in> set (map upper_char m) \<longleftrightarrow> newline \<in> set m"
    using upper_char_newline by (metis image_iff list.set_map)
  then show ?thesis by (simp add: line_def to_upper_def)
qed

lemma Canonical_lines:
  "Canonical ts m p q b =
     join_on newline [show_int ts, to_upper m, p, q, hex_encode (sha256 (body_bytes b))]"
  by (simp add: Canonical_def)

lemma AgentCanonical_lines:
  "AgentCanonical m p q b ts n =
     join_on newline [to_upper m, p, q, hex_encode (sha256 (body_bytes b)), show_int ts, show_nat n]"
  by (simp add: AgentCanonical_def)

lemma join_lines_inject:
  assumes "ss \<noteq> []" "ts \<noteq> []" "\<forall>s \<in> set ss. line s" "\<forall>t \<in> set ts. line t"
  shows "join_on newline ss = join_on newline ts \<longleftrightarrow> ss = ts"
  using join_on_inject [OF assms(1,2)] assms(3,4) by (auto simp: line_def)

text \<open>C37: the string an API key signs determines the timestamp, the method (up to case), the
  path, the query and the body's hash, and so does the string an agent signs, with the
  nonce: no two different requests share one, as long as method, path and query are single
  lines.\<close>

theorem canonical_binds:
  assumes "line m" "line p" "line q" "line m'" "line p'" "line q'"
  shows "(Canonical ts m p q b = Canonical ts' m' p' q' b' \<longleftrightarrow>
      ts = ts' \<and> to_upper m = to_upper m' \<and> p = p' \<and> q = q' \<and> sha256 (body_bytes b) = sha256 (body_bytes b'))
    \<and> (AgentCanonical m p q b ts n = AgentCanonical m' p' q' b' ts' n' \<longleftrightarrow>
      ts = ts' \<and> n = n' \<and> to_upper m = to_upper m' \<and> p = p' \<and> q = q' \<and>
      sha256 (body_bytes b) = sha256 (body_bytes b'))"
  unfolding Canonical_lines AgentCanonical_lines
  using assms by (subst (1 2) join_lines_inject) (auto simp: show_int_inject hex_encode_inject)

theorem canonical_binds_witness:
  "Canonical 1 ''get'' ''/orders'' [] None \<noteq> Canonical 1 ''GET'' ''/order'' ''s'' None"
proof -
  have "line ''get''" "line ''GET''" "line ''/orders''" "line ''/order''" "line []" "line ''s''" by code_simp+
  then show ?thesis
    using canonical_binds [of "''get''" "''/orders''" "[]" "''GET''" "''/order''" "''s''"] by simp
qed

text \<open>The two schemes never sign the same string, so an API key's signature is no agent's
  and the other way round.\<close>

lemma canonical_schemes_disjoint:
  assumes "line m" "line p" "line q" "line m'" "line p'" "line q'"
  shows "Canonical ts m p q b \<noteq> AgentCanonical m' p' q' b' ts' n"
  unfolding Canonical_lines AgentCanonical_lines
  using assms by (subst join_lines_inject) auto

subsection \<open>Nonces\<close>

lemma uint64_small: "0 \<le> i \<Longrightarrow> i < 2 ^ 63 \<Longrightarrow> uint64 i = nat i"
  by (simp add: uint64_def)

text \<open>A sequence of requests through one agent: for each the clock reading, method and path.
  The result is the nonce of each request that was signed.\<close>

fun agent_nonces :: "'k eth_lib \<Rightarrow> 'k agent \<Rightarrow> (int \<times> headers \<times> string \<times> string \<times> string \<times> string option) list \<Rightarrow> nat list" where
  "agent_nonces E a [] = []"
| "agent_nonces E a ((now, h, m, p, q, b) # rs) =
     (let (r, a') = agent_Sign E a now h m p q b
      in (if r = Inl EAgentCannotWithdraw then [] else [agent_last a']) @ agent_nonces E a' rs)"

lemma agent_Sign_refuses:
  "MovesFunds m p \<Longrightarrow> agent_Sign E a now h m p q b = (Inl EAgentCannotWithdraw, a)"
  by (simp add: agent_Sign_def)

lemma agent_Sign_nonce:
  "\<not> MovesFunds m p \<Longrightarrow>
     agent_last (snd (agent_Sign E a now h m p q b)) = next_nonce (agent_last a) (unix_milli now) \<and>
     fst (agent_Sign E a now h m p q b) \<noteq> Inl EAgentCannotWithdraw"
  by (simp add: agent_Sign_def Let_def split: option.split)

lemma next_nonce_bounds:
  assumes "prev + 1 < 2 ^ 64" "0 \<le> ts" "ts < 2 ^ 63"
  shows "prev < next_nonce prev ts" "nat ts \<le> next_nonce prev ts"
    "next_nonce prev ts \<le> max (prev + 1) (2 ^ 63)"
  using assms by (auto simp: next_nonce_def uint64_small max_def)


text \<open>
  A library for the witnesses: keys are their 32 bytes, addresses and digests the bytes
  themselves, a signature the digest and 33 more bytes.
\<close>

definition sample_lib :: "string eth_lib" where
  "sample_lib =
     \<lparr>el_keccak = sha256, el_to_ecdsa = Some, el_from_ecdsa = (\<lambda>k. k),
      el_pub_hex = (\<lambda>k. ''0x'' @ hex_encode (take 20 k)),
      el_sign = (\<lambda>d k. Some (d @ replicate (65 - length d) (CHR 0x00))),
      el_sig_to_hex = (\<lambda>d s. Some ''0xAB''),
      el_text_hash = sha256, el_address_hex = (\<lambda>a. ''0x'' @ hex_encode a),
      el_hex = (\<lambda>b. ''0x'' @ hex_encode b), el_typed_data_hash = (\<lambda>t. Some (sha256 (td_primary t)))\<rparr>"



subsection \<open>Keys and addresses\<close>

lemma PathHex: "hex_decode (trim_prefix (''0x'' @ hex_encode b) ''0x'') = Some b"
  using trim_prefix_append [of "''0x''" "hex_encode b"] by simp

text \<open>The hex form of a key reads back as the same key, with or without 0x, given that the
  curve library decodes the 32 bytes it encodes; the hex form of an address reads back as
  its 20 bytes, and only 0x followed by 40 hex digits is read as an address.\<close>

lemma keys_and_addresses_roundtrip:
  assumes "el_to_ecdsa E (el_from_ecdsa E k) = Some k" "length (el_from_ecdsa E k) = 32" "length a = 20"
  shows "ParseKey E (''0x'' @ hex_encode (el_from_ecdsa E k)) = Some k
    \<and> ParseAddress (''0x'' @ hex_encode a) = Some a
    \<and> (ParseAddress s = Some c \<longrightarrow> (\<exists>d. s = ''0x'' @ d \<and> length d = 40 \<and> hex_decode d = Some c))"
proof -
  have p: "has_prefix (''0x'' @ r) ''0x''" for r by (simp add: has_prefix_def)
  have "\<exists>d. s = ''0x'' @ d \<and> length d = 40 \<and> hex_decode d = Some c" if "ParseAddress s = Some c"
  proof -
    have c: "hex_decode (trim_prefix s ''0x'') = Some c" "has_prefix s ''0x''" "length c = 20"
      using that by (auto simp: ParseAddress_def split: option.splits if_splits)
    then obtain d where "s = ''0x'' @ d" using has_prefix_iff by blast
    then show ?thesis using c hex_decode_length trim_prefix_append [of "''0x''" d] by fastforce
  qed
  then show ?thesis
    using assms PathHex p [of "hex_encode a"] unfolding ParseKey_def ParseAddress_def by simp
qed

text \<open>The typed data a wallet signs determines everything it authorises: the chain, the
  network's salt, the agent, the expiry and the nonce; and a registration (with or without
  terms) is never a revocation. go-ethereum's hex forms are assumed injective.\<close>

lemma wallet_digests_bind:
  assumes "inj (el_address_hex E)" "inj (el_hex E)" "chain < 2 ^ 63" "chain' < 2 ^ 63"
  shows "(register_typed_data E chain salt ag ex n = register_typed_data E chain' salt' ag' ex' n' \<longleftrightarrow>
      chain = chain' \<and> salt = salt' \<and> ag = ag' \<and> ex = ex' \<and> n = n')
    \<and> (revoke_typed_data E chain salt acc ag n = revoke_typed_data E chain' salt' acc' ag' n' \<longleftrightarrow>
      chain = chain' \<and> salt = salt' \<and> acc = acc' \<and> ag = ag' \<and> n = n')
    \<and> register_typed_data E chain salt ag ex n \<noteq> revoke_typed_data E chain' salt' acc' ag' n'
    \<and> register_terms_typed_data E chain salt ag ex n tv \<noteq> revoke_typed_data E chain' salt' acc' ag' n'
    \<and> register_terms_typed_data E chain salt ag ex n tv \<noteq> register_typed_data E chain' salt' ag' ex' n'"
proof -
  have c: "wrap64 (int chain) = int chain" "wrap64 (int chain') = int chain'"
    using assms(3,4) by (auto intro!: wrap64_id simp: in_int64_def min_int64_def max_int64_def)
  have s: "map_option (el_hex E) salt = map_option (el_hex E) salt' \<longleftrightarrow> salt = salt'"
    by (metis assms(2) option.inj_map_strong inj_def)
  have a: "el_address_hex E x = el_address_hex E y \<longleftrightarrow> x = y" for x y
    using assms(1) by (simp add: inj_eq)
  show ?thesis
    unfolding register_typed_data_def revoke_typed_data_def register_terms_typed_data_def agent_typed_data_def
    by (auto simp: c s a)
qed

lemma add_to_last_undo:
  assumes "length sig = 65" "(of_char (sig ! 64) :: nat) < 2"
  shows "add_to_last (add_to_last sig 27) 229 = sig"
proof -
  have "char_of ((of_char (char_of (of_char (sig ! 64) + 27 :: nat)) + 229 :: nat) mod 256) = sig ! 64"
    using assms(2) by (simp add: mod_simps)
  then show ?thesis using assms by (simp add: add_to_last_def mod_simps)
qed

text \<open>A signature the SDK makes recovers to the key's own address, given that the curve
  library's signature is r, s, and a recovery id of 0 or 1 that SigToPub inverts.\<close>

lemma recover_signed:
  assumes "el_sign E d k = Some sig" "length sig = 65" "(of_char (sig ! 64) :: nat) < 2"
    and "el_sig_to_hex E d sig = Some (el_pub_hex E k)"
  shows "\<exists>s. SignHash E k d = Some s \<and> Recover E d s = Some (Address E k)"
proof -
  have v: "(of_char (sig ! 64) :: nat) = 0 \<or> (of_char (sig ! 64) :: nat) = 1" using assms(3) by linarith
  have "add_to_last sig 27 ! 64 \<in> {char_of (27 :: nat), char_of (28 :: nat)}"
    using v assms(2) by (auto simp: add_to_last_def)
  then show ?thesis
    using assms(1,4) add_to_last_undo [OF assms(2,3)] assms(2)
    by (auto simp: SignHash_def Recover_def Address_def add_to_last_def)
qed

end
