(* ===== verification/Transport.thy ===== *)
theory Transport
  imports RateLimit Url Signing
begin

section \<open>The transport (internal/transport/transport.go, page.go, ws.go)\<close>

text \<open>
  One request from its method, path and body to its decoded result: pacing, building the
  URL, headers, signing, sending, decoding, and for a GET the retry loop. What the code
  takes from outside is an \<open>env\<close> of answers, indexed by a counter of events that every
  question advances: the clock, the network's answer to a request, whether the context is
  done, and random draws. The world keeps the requests handed to the http.Client in order
  with their answers, the durations slept and why, the rate-limit buckets and the signer's state. The destination of a
  decode is the decoding function; every attempt decodes into a fresh destination.

  Redirects, connection reuse and timeouts are inside the http.Client and so part of the
  network's answer.
\<close>

record request =
  r_method :: string
  r_path :: string
  r_query :: string
  r_headers :: headers
  r_body :: "string option"

text \<open>A response's body is None when reading it fails.\<close>

datatype net_result =
    NetFail
  | Resp int headers "string option"

record env =
  e_clock :: "nat \<Rightarrow> int"
  e_net :: "nat \<Rightarrow> request \<Rightarrow> net_result"
  e_done :: "nat \<Rightarrow> bool"
  e_rand :: "nat \<Rightarrow> nat"

datatype sleep_kind = Pacing | Retry

record 's world =
  w_tick :: nat
  w_log :: "(request \<times> net_result) list"
  w_slept :: "(sleep_kind \<times> int) list"
  w_limits :: limiter
  w_sig :: 's

definition tick :: "'s world \<Rightarrow> 's world" where
  "tick w = w\<lparr>w_tick := Suc (w_tick w)\<rparr>"

definition read_clock :: "env \<Rightarrow> 's world \<Rightarrow> int \<times> 's world" where
  "read_clock V w = (e_clock V (w_tick w), tick w)"

definition draw :: "env \<Rightarrow> 's world \<Rightarrow> nat \<times> 's world" where
  "draw V w = (e_rand V (w_tick w), tick w)"

definition ctx_done :: "env \<Rightarrow> 's world \<Rightarrow> bool \<times> 's world" where
  "ctx_done V w = (e_done V (w_tick w), tick w)"

text \<open>The select on ctx.Done and a timer of d: True when the timer fired.\<close>

definition sleep :: "env \<Rightarrow> 's world \<Rightarrow> sleep_kind \<Rightarrow> int \<Rightarrow> bool \<times> 's world" where
  "sleep V w k d =
     (case ctx_done V w of
        (True, w) \<Rightarrow> (False, w)
      | (False, w) \<Rightarrow> (True, w\<lparr>w_slept := w_slept w @ [(k, d)]\<rparr>))"

text \<open>
  A signer: it returns the headers with its own set, or refuses. A clocked one tells its
  clock.
\<close>

record 's signer =
  sg_sign :: "env \<Rightarrow> 's world \<Rightarrow> headers \<Rightarrow> string \<Rightarrow> string \<Rightarrow> string \<Rightarrow> string option
                \<Rightarrow> (go_error + headers) \<times> 's world"
  sg_clock :: "(env \<Rightarrow> 's world \<Rightarrow> int \<times> 's world) option"

record 's transport =
  t_base :: string
  t_basePath :: string
  t_userAgent :: string
  t_apiVersion :: string
  t_maxRetries :: nat
  t_minDelay :: int
  t_maxDelay :: int
  t_refuse :: "go_error option"
  t_signer :: "'s signer option"
  t_obsolete_date :: "string \<Rightarrow> int option"

definition maxBody :: nat where
  "maxBody = 16777216"

definition limit_read :: "string \<Rightarrow> string" where
  "limit_read s = take maxBody s"

definition userAgent :: "(string \<times> string) list \<Rightarrow> string" where
  "userAgent mods =
     ''nexus-exchange-go/'' @
     foldl (\<lambda>v (path, ver).
        if path = ''github.com/nexus-xyz/nexus-exchange-go'' \<and> ver \<noteq> [] \<and> ver \<noteq> ''(devel)''
        then trim_prefix ver ''v'' else v) ''devel'' mods"

text \<open>\<open>New\<close>: mods is the build information of the binary, main module first.\<close>

definition New :: "string \<Rightarrow> string \<Rightarrow> (string \<times> string) list \<Rightarrow> (string \<Rightarrow> int option) \<Rightarrow> 's transport" where
  "New b apiVersion mods obsolete =
     (let base = trim_right_char (CHR ''/'') b
      in \<lparr>t_base = base,
          t_basePath = (case parse_target (after_scheme base) of None \<Rightarrow> [] | Some (p, _) \<Rightarrow> p),
          t_userAgent = userAgent mods, t_apiVersion = apiVersion,
          t_maxRetries = 3, t_minDelay = 100 * 1000000, t_maxDelay = 5 * second,
          t_refuse = None, t_signer = None, t_obsolete_date = obsolete\<rparr>)"

subsection \<open>One attempt\<close>

text \<open>Pacing: reserve on the class's bucket, sleep, and give the tokens back when the context
  ends first. The result is False when it did.\<close>

definition pace :: "env \<Rightarrow> 's world \<Rightarrow> budget_class \<Rightarrow> Tokens \<Rightarrow> bool \<times> 's world" where
  "pace V w c weight =
     (case bucket_of c of
        None \<Rightarrow> (True, w)
      | Some i \<Rightarrow>
          (let (now, w) = read_clock V w;
               (d, b) = reserve (get_bucket (w_limits w) i) weight now;
               w = w\<lparr>w_limits := put_bucket (w_limits w) i b\<rparr>
           in if d \<le> 0 then (True, w)
              else
                (case sleep V w Pacing d of
                   (True, w) \<Rightarrow> (True, w)
                 | (False, w) \<Rightarrow>
                     (False, w\<lparr>w_limits := put_bucket (w_limits w) i
                                (give_back (get_bucket (w_limits w) i) weight)\<rparr>))))"

definition base_headers :: "'s transport \<Rightarrow> string option \<Rightarrow> headers \<Rightarrow> headers" where
  "base_headers t body extra =
     (let h = hset [] ''Accept'' ''application/json'';
          h = hset h ''User-Agent'' (t_userAgent t);
          h = hset h ''X-Nexus-Api-Version'' (t_apiVersion t);
          h = (case body of None \<Rightarrow> h | Some _ \<Rightarrow> hset h ''Content-Type'' ''application/json'')
      in fold (\<lambda>(k, v) h. hset h k v) extra h)"

definition sign_request ::
  "env \<Rightarrow> 's transport \<Rightarrow> 's world \<Rightarrow> headers \<Rightarrow> string \<Rightarrow> string \<Rightarrow> string \<Rightarrow> string option
     \<Rightarrow> (go_error + headers) \<times> 's world" where
  "sign_request V t w h m wire_path q body =
     (case t_signer t of
        None \<Rightarrow> (Inr h, w)
      | Some s \<Rightarrow>
          (case sg_sign s V w h m (trim_prefix wire_path (t_basePath t)) q body of
             (Inl e, w) \<Rightarrow> (Inl (ELocal e), w)
           | (Inr h, w) \<Rightarrow> (Inr h, w)))"

definition send_http :: "env \<Rightarrow> 's world \<Rightarrow> request \<Rightarrow> net_result \<times> 's world" where
  "send_http V w r =
     (let a = e_net V (w_tick w) r in (a, tick (w\<lparr>w_log := w_log w @ [(r, a)]\<rparr>)))"

text \<open>What a response that is not 2xx becomes.\<close>

definition with_skew ::
  "env \<Rightarrow> 's transport \<Rightarrow> 's world \<Rightarrow> int \<Rightarrow> headers \<Rightarrow> api_error \<Rightarrow> api_error \<times> 's world" where
  "with_skew V t w status rh e =
     (case t_signer t of
        None \<Rightarrow> (e, w)
      | Some s \<Rightarrow>
          (case sg_clock s of
             None \<Rightarrow> (e, w)
           | Some clk \<Rightarrow>
               if status = 401
               then (case clk V w of (n, w) \<Rightarrow> (estimateSkew (t_obsolete_date t) e rh n, w))
               else (e, w)))"

definition failed_response ::
  "env \<Rightarrow> 's transport \<Rightarrow> 's world \<Rightarrow> budget_class \<Rightarrow> int \<Rightarrow> headers \<Rightarrow> string \<Rightarrow> go_error \<times> 's world" where
  "failed_response V t w c status rh data =
     (let e = decodeError status rh data;
          (now, w) = read_clock V w;
          w = w\<lparr>w_limits := observe (w_limits w) c rh (Some e) now\<rparr>;
          (e, w) = with_skew V t w status rh e
      in if status = 426 then (EVersion (newVersionError e (t_apiVersion t) rh), w) else (EApi e, w))"

text \<open>What the answer becomes: on success the decoded value, None where there was nothing to
  decode or nowhere to put it, and the response's headers (the header sink of page.go).\<close>

definition read_answer ::
  "env \<Rightarrow> 's transport \<Rightarrow> 's world \<Rightarrow> budget_class \<Rightarrow> (json \<Rightarrow> json_error + 'a) option \<Rightarrow> net_result
     \<Rightarrow> (go_error + 'a option \<times> headers) \<times> 's world" where
  "read_answer V t w c out answer =
     (case answer of
        NetFail \<Rightarrow> (Inl ENetwork, w)
      | Resp status rh None \<Rightarrow> (Inl ERead, w)
      | Resp status rh (Some full) \<Rightarrow>
          (let data = limit_read full in
           if status < 200 \<or> status > 299
           then (case failed_response V t w c status rh data of (e, w) \<Rightarrow> (Inl e, w))
           else
             (let (now, w) = read_clock V w;
                  w = w\<lparr>w_limits := observe (w_limits w) c rh None now\<rparr>
              in case out of
                   None \<Rightarrow> (Inr (None, rh), w)
                 | Some dec \<Rightarrow>
                     if data = [] then (Inr (None, rh), w)
                     else (case UnmarshalNumbers dec data of
                             Inl e \<Rightarrow> (Inl (EDecode e), w)
                           | Inr a \<Rightarrow> (Inr (Some a, rh), w)))))"

text \<open>\<open>do\<close>.\<close>

definition do_request ::
  "env \<Rightarrow> 's transport \<Rightarrow> 's world \<Rightarrow> headers \<Rightarrow> string \<Rightarrow> string \<Rightarrow> string option
     \<Rightarrow> (json \<Rightarrow> json_error + 'a) option \<Rightarrow> (go_error + 'a option \<times> headers) \<times> 's world" where
  "do_request V t w extra m path body out =
     (let (c, weight) = costOf m path body in
      case pace V w c weight of
        (False, w) \<Rightarrow> (Inl EContext, w)
      | (True, w) \<Rightarrow>
          (case parse_target (after_scheme (t_base t) @ path) of
             None \<Rightarrow> (Inl EBuild, w)
           | Some (wire, q) \<Rightarrow>
               (case sign_request V t w (base_headers t body extra) m wire q body of
                  (Inl e, w) \<Rightarrow> (Inl e, w)
                | (Inr h, w) \<Rightarrow>
                    (case send_http V w \<lparr>r_method = m, r_path = wire, r_query = q, r_headers = h, r_body = body\<rparr> of
                       (answer, w) \<Rightarrow> read_answer V t w c out answer))))"

subsection \<open>Retries\<close>

text \<open>errors.As for the API error and for a local refusal.\<close>

fun as_api :: "go_error \<Rightarrow> api_error option" where
  "as_api (EApi e) = Some e"
| "as_api (EVersion v) = Some (Err v)"
| "as_api (ELocal e) = as_api e"
| "as_api (ERefresh e) = as_api e"
| "as_api (EAccountUnresolved e) = e"
| "as_api _ = None"

fun is_local :: "go_error \<Rightarrow> bool" where
  "is_local (ELocal e) = True"
| "is_local (ERefresh e) = is_local e"
| "is_local _ = False"

definition retryable :: "bool \<Rightarrow> go_error \<Rightarrow> bool" where
  "retryable ctx_err err =
     (if ctx_err \<or> is_local err then False
      else
        (case as_api err of
           Some e \<Rightarrow>
             if StatusCode e = 429 then Code e = [] \<or> Code e = ''RATE_LIMIT_EXCEEDED''
             else StatusCode e \<ge> 500 \<and> StatusCode e \<noteq> 501 \<and> StatusCode e \<noteq> 505
         | None \<Rightarrow> err \<noteq> EDecode JSyntax \<and> err \<noteq> EDecode JType))"

definition backoff :: "int \<Rightarrow> nat \<Rightarrow> int" where
  "backoff delay r = delay div 2 + rand_N r (delay div 2 + 1)"

fun get_loop ::
  "env \<Rightarrow> 's transport \<Rightarrow> nat \<Rightarrow> int \<Rightarrow> 's world \<Rightarrow> headers \<Rightarrow> string
     \<Rightarrow> (json \<Rightarrow> json_error + 'a) option \<Rightarrow> (go_error + 'a option \<times> headers) \<times> 's world" where
  "get_loop V t left delay w extra path out =
     (case do_request V t w extra ''GET'' path None out of
        (Inr a, w) \<Rightarrow> (Inr a, w)
      | (Inl err, w) \<Rightarrow>
          (case left of
             0 \<Rightarrow> (Inl err, w)
           | Suc n \<Rightarrow>
               (let (gone, w) = ctx_done V w in
                if \<not> retryable gone err then (Inl err, w)
                else
                  (let (r, w) = draw V w;
                       (d, w) =
                         (case as_api err of
                            Some e \<Rightarrow>
                              if StatusCode e = 429
                              then (let (r', w) = draw V w in (retryAfterDelay (RetryAfter e) r', w))
                              else (backoff delay r, w)
                          | None \<Rightarrow> (backoff delay r, w))
                   in case sleep V w Retry d of
                        (False, w) \<Rightarrow> (Inl EContext, w)
                      | (True, w) \<Rightarrow> get_loop V t n (min (2 * delay) (t_maxDelay t)) w extra path out))))"

declare get_loop.simps [simp del]

definition with_query :: "string \<Rightarrow> query \<Rightarrow> string" where
  "with_query path q = (if q = [] then path else path @ CHR ''?'' # query_encode q)"

definition Get_raw ::
  "env \<Rightarrow> 's transport \<Rightarrow> 's world \<Rightarrow> string \<Rightarrow> query \<Rightarrow> (json \<Rightarrow> json_error + 'a) option
     \<Rightarrow> (go_error + 'a option \<times> headers) \<times> 's world" where
  "Get_raw V t w path q out =
     (case t_refuse t of
        Some e \<Rightarrow> (Inl e, w)
      | None \<Rightarrow> get_loop V t (t_maxRetries t) (t_minDelay t) w [] (with_query path q) out)"

definition Get ::
  "env \<Rightarrow> 's transport \<Rightarrow> 's world \<Rightarrow> string \<Rightarrow> query \<Rightarrow> (json \<Rightarrow> json_error + 'a) option
     \<Rightarrow> (go_error + 'a option) \<times> 's world" where
  "Get V t w path q out =
     (case Get_raw V t w path q out of (r, w) \<Rightarrow> (map_sum (\<lambda>e. e) fst r, w))"

definition GetPage ::
  "env \<Rightarrow> 's transport \<Rightarrow> 's world \<Rightarrow> string \<Rightarrow> query \<Rightarrow> (json \<Rightarrow> json_error + 'a) option
     \<Rightarrow> (go_error + 'a option \<times> string) \<times> 's world" where
  "GetPage V t w path q out =
     (case Get_raw V t w path q out of
        (r, w) \<Rightarrow> (map_sum (\<lambda>e. e) (\<lambda>(a, h). (a, hget h ''X-Next-Cursor'')) r, w))"

text \<open>\<open>Send\<close>: body None is Go's nil; Some None is a value json.Marshal fails on.\<close>

definition Send ::
  "env \<Rightarrow> 's transport \<Rightarrow> 's world \<Rightarrow> headers \<Rightarrow> string \<Rightarrow> string \<Rightarrow> json option option
     \<Rightarrow> (json \<Rightarrow> json_error + 'a) option \<Rightarrow> (go_error + 'a option) \<times> 's world" where
  "Send V t w extra m path body out =
     (case t_refuse t of
        Some e \<Rightarrow> (Inl e, w)
      | None \<Rightarrow>
          if m = ''GET'' then (Inl EMisuse, w)
          else if body = Some None then (Inl EEncode, w)
          else
            (case do_request V t w extra m path
                    (case body of Some (Some j) \<Rightarrow> Some (json_print j) | _ \<Rightarrow> None) out of
               (r, w) \<Rightarrow> (map_sum (\<lambda>e. e) fst r, w)))"

subsection \<open>WebSockets (ws.go)\<close>

definition WSURL :: "'s transport \<Rightarrow> string \<Rightarrow> string" where
  "WSURL t path =
     (let u = t_base t @ path
      in case strip_prefix ''https://'' u of
           Some s \<Rightarrow> ''wss://'' @ s
         | None \<Rightarrow> ''ws://'' @ trim_prefix u ''http://'')"

text \<open>
  What websocket.Dial answers: a connection, a response that refused the upgrade, or an
  error, which for a *url.Error quotes the URL before its cause.
\<close>

datatype 'c dial_result =
    DialConn 'c
  | DialStatus int
  | DialUrlError string string
  | DialError string

datatype ws_error =
    WsRefused go_error
  | WsHTTP int
  | WsDial string

definition dial_headers :: "'s transport \<Rightarrow> headers" where
  "dial_headers t = hset (hset [] ''User-Agent'' (t_userAgent t)) ''X-Nexus-Api-Version'' (t_apiVersion t)"

definition Dial :: "'s transport \<Rightarrow> (string \<Rightarrow> headers \<Rightarrow> 'c dial_result) \<Rightarrow> string \<Rightarrow> ws_error + 'c" where
  "Dial t dial rawURL =
     (case t_refuse t of
        Some e \<Rightarrow> Inl (WsRefused e)
      | None \<Rightarrow>
          (case dial rawURL (dial_headers t) of
             DialConn c \<Rightarrow> Inr c
           | DialStatus s \<Rightarrow> Inl (WsHTTP s)
           | DialUrlError url cause \<Rightarrow> Inl (WsDial cause)
           | DialError e \<Rightarrow> Inl (WsDial e)))"

subsection \<open>Signers\<close>

definition hmac_signer :: "hmac_key \<Rightarrow> 's signer" where
  "hmac_signer K =
     \<lparr>sg_sign = (\<lambda>V w h m p q b. case read_clock V w of (now, w) \<Rightarrow> (Inr (Apply K now h m p q b), w)),
      sg_clock = Some read_clock\<rparr>"

text \<open>The agent's state is the world's: the nonce is issued under its lock.\<close>

definition agent_signer :: "'k eth_lib \<Rightarrow> 'k agent signer" where
  "agent_signer E =
     \<lparr>sg_sign = (\<lambda>V w h m p q b.
        if MovesFunds m p then (Inl EAgentCannotWithdraw, w)
        else (case read_clock V w of
                (now, w) \<Rightarrow>
                  (case agent_Sign E (w_sig w) now h m p q b of (r, a) \<Rightarrow> (r, w\<lparr>w_sig := a\<rparr>)))),
      sg_clock = Some read_clock\<rparr>"

definition transport_headers :: "string set" where
  "transport_headers = {''Accept'', ''User-Agent'', ''X-Nexus-Api-Version'', ''Content-Type''}"

text \<open>
  The contract between the transport and a signer: it sets headers of its own and no
  others, none of them the transport's. A quiet signer moreover does no network I/O, does
  not sleep and leaves the budgets alone.
\<close>

locale request_signer =
  fixes sign :: "env \<Rightarrow> 's world \<Rightarrow> headers \<Rightarrow> string \<Rightarrow> string \<Rightarrow> string \<Rightarrow> string option
      \<Rightarrow> (go_error + headers) \<times> 's world"
    and own :: "string set"
  assumes frame: "sign V w h m p q b = (Inr h', w') \<Longrightarrow> k \<notin> own \<Longrightarrow> hget h' k = hget h k"
    and apart: "own \<inter> transport_headers = {}"
begin

lemma keeps_transport_header:
  "k \<in> transport_headers \<Longrightarrow> sign V w h m p q b = (Inr h', w') \<Longrightarrow> hget h' k = hget h k"
  using frame apart by blast

lemma signed_frame:
  assumes "t_signer t = Some s" "sg_sign s = sign" "k \<in> transport_headers"
    and "sign_request V t w h m p q b = (Inr h', w')"
  shows "hget h' k = hget h k"
  using assms keeps_transport_header
  by (auto simp: sign_request_def split: prod.splits sum.splits)

end

definition same_io :: "'s world \<Rightarrow> 's world \<Rightarrow> bool" where
  "same_io w w' = (w_log w' = w_log w \<and> w_slept w' = w_slept w \<and> w_limits w' = w_limits w)"

lemma same_io_refl [simp]: "same_io w w"
  by (simp add: same_io_def)

lemma same_io_clock [simp]: "same_io w (snd (read_clock V w))"
  by (simp add: same_io_def read_clock_def tick_def)

definition quiet :: "'s transport \<Rightarrow> bool" where
  "quiet t =
     ((\<forall>V w h m p q b. same_io w (snd (sign_request V t w h m p q b))) \<and>
      (\<forall>s clk V w. t_signer t = Some s \<longrightarrow> sg_clock s = Some clk \<longrightarrow> same_io w (snd (clk V w))))"

locale quiet_signer = request_signer +
  assumes no_io: "same_io w (snd (sign V w h m p q b))"
begin

lemma quiet_transport:
  assumes "t_signer t = Some s" "sg_sign s = sign" "sg_clock s \<in> {None, Some read_clock}"
  shows "quiet t"
proof -
  have "same_io w (snd (sign_request V t w h m p q b))" for V w h m p q b
    using no_io [of w V h m "trim_prefix p (t_basePath t)" q b] assms(1,2)
    by (auto simp: sign_request_def split: prod.split sum.split)
  then show ?thesis using assms by (auto simp: quiet_def)
qed

end

lemma quiet_no_signer: "t_signer t = None \<Longrightarrow> quiet t"
  by (simp add: quiet_def sign_request_def)

interpretation hmac: quiet_signer "sg_sign (hmac_signer K)" "{''X-Api-Key'', ''X-Timestamp'', ''X-Signature''}"
  by unfold_locales
    (auto simp: hmac_signer_def Apply_def Let_def transport_headers_def read_clock_def same_io_def tick_def)

interpretation agent: quiet_signer "sg_sign (agent_signer E)"
  "{''X-Agent'', ''X-Timestamp'', ''X-Nonce'', ''X-Signature''}"
proof unfold_locales
  fix V w h m p q b h' w' k
  assume s: "sg_sign (agent_signer E) V w h m p q b = (Inr h', w')"
    and k: "k \<notin> {''X-Agent'', ''X-Timestamp'', ''X-Nonce'', ''X-Signature''}"
  then have "h' = snd (undefined, h') \<and> fst (agent_Sign E (w_sig w) (e_clock V (w_tick w)) h m p q b) = Inr h'"
    by (auto simp: agent_signer_def read_clock_def tick_def split: if_splits prod.splits)
  then show "hget h' k = hget h k"
    using k by (auto simp: agent_Sign_def Let_def split: if_splits option.splits)
qed (auto simp: agent_signer_def transport_headers_def read_clock_def same_io_def tick_def split: prod.split)

lemma signer_clocks [simp]:
  "sg_clock (hmac_signer K) = Some read_clock" "sg_clock (agent_signer E) = Some read_clock"
  by (simp_all add: hmac_signer_def agent_signer_def)

lemma quiet_hmac: "t_signer t = Some (hmac_signer K) \<Longrightarrow> quiet t"
  by (erule hmac.quiet_transport) simp_all

lemma quiet_agent: "t_signer t = Some (agent_signer E) \<Longrightarrow> quiet t"
  by (erule agent.quiet_transport) simp_all

subsection \<open>What an attempt does to the log\<close>

lemma pace_log: "w_log (snd (pace V w c n)) = w_log w"
  by (auto simp: pace_def Let_def read_clock_def tick_def sleep_def ctx_done_def
      split: option.split prod.split bool.split)

definition retry_sleeps :: "'s world \<Rightarrow> int list" where
  "retry_sleeps w = map snd (filter (\<lambda>(k, d). k = Retry) (w_slept w))"

lemma pace_retries: "retry_sleeps (snd (pace V w c n)) = retry_sleeps w"
  by (auto simp: retry_sleeps_def pace_def Let_def read_clock_def tick_def sleep_def ctx_done_def
      split: option.split prod.split bool.split)

lemma pace_sig: "w_sig (snd (pace V w c n)) = w_sig w"
  by (auto simp: pace_def Let_def read_clock_def tick_def sleep_def ctx_done_def
      split: option.split prod.split bool.split)

lemma quiet_sign:
  "quiet t \<Longrightarrow> sign_request V t w h m p q b = (r, w') \<Longrightarrow> w_log w' = w_log w \<and> w_slept w' = w_slept w"
  by (metis quiet_def same_io_def snd_conv)

lemma with_skew_io:
  assumes "quiet t" "with_skew V t w s rh e = (e', w')"
  shows "w_log w' = w_log w \<and> w_slept w' = w_slept w"
  using assms(2)
proof (cases "\<exists>sg clk. t_signer t = Some sg \<and> sg_clock sg = Some clk \<and> s = 401")
  case True
  then obtain sg clk where c: "t_signer t = Some sg" "sg_clock sg = Some clk" "s = 401" by blast
  then have "same_io w (snd (clk V w))" using assms(1) unfolding quiet_def by blast
  then show ?thesis using assms(2) c by (auto simp: with_skew_def same_io_def split: prod.splits)
qed (auto simp: with_skew_def split: option.splits if_splits)

lemma failed_response_io:
  assumes "quiet t" "failed_response V t w c s rh data = (e, w')"
  shows "w_log w' = w_log w \<and> w_slept w' = w_slept w"
  using assms(2)
  by (auto simp: failed_response_def Let_def read_clock_def tick_def split: prod.splits if_splits
      dest!: with_skew_io [OF assms(1)])

lemma failed_response_api:
  assumes "failed_response V t w c s rh data = (e, w')"
  shows "\<exists>a. as_api e = Some a \<and> StatusCode a = s \<and> Code a = Code (decodeError s rh data) \<and>
    RetryAfter a = RetryAfter (decodeError s rh data) \<and> \<not> is_local e"
proof -
  have st: "StatusCode (decodeError s rh data) = s"
    by (simp add: decodeError_def Let_def decode_fields_def no_error_def split: sum.split prod.split)
  let ?a = "decodeError s rh data"
  obtain now u where u: "read_clock V w = (now, u)" by fastforce
  obtain e' u' where k: "with_skew V t (u\<lparr>w_limits := observe (w_limits u) c rh (Some ?a) now\<rparr>) s rh ?a = (e', u')"
    by fastforce
  have "StatusCode e' = StatusCode ?a \<and> Code e' = Code ?a \<and> RetryAfter e' = RetryAfter ?a"
    using k by (auto simp: with_skew_def estimateSkew_def split: option.splits prod.splits if_splits)
  moreover have "e = (if s = 426 then EVersion (newVersionError e' (t_apiVersion t) rh) else EApi e')"
    using assms by (simp add: failed_response_def u k split: if_splits)
  ultimately show ?thesis using st by (simp add: newVersionError_def Let_def)
qed

lemma read_answer_io:
  assumes "quiet t" "read_answer V t w c out a = (r, w')"
  shows "w_log w' = w_log w \<and> w_slept w' = w_slept w"
proof (cases "\<exists>s rh b. a = Resp s rh (Some b) \<and> (s < 200 \<or> s > 299)")
  case True
  then obtain s rh b where a: "a = Resp s rh (Some b)" "s < 200 \<or> s > 299" by blast
  obtain e u where f: "failed_response V t w c s rh (limit_read b) = (e, u)" by fastforce
  have "w' = u" using assms(2) a f by (simp add: read_answer_def Let_def)
  then show ?thesis using failed_response_io [OF assms(1) f] by simp
next
  case False
  then show ?thesis
    using assms(2)
    by (auto simp: read_answer_def Let_def read_clock_def tick_def
        split: net_result.splits option.splits if_splits sum.splits)
qed

text \<open>An answer after which a GET may be sent again.\<close>

definition transient :: "(json \<Rightarrow> json_error + 'a) option \<Rightarrow> net_result \<Rightarrow> bool" where
  "transient out a =
     (case a of
        NetFail \<Rightarrow> True
      | Resp s rh None \<Rightarrow> True
      | Resp s rh (Some b) \<Rightarrow>
          if s < 200 \<or> s > 299
          then (if s = 429 then Code (decodeError s rh (limit_read b)) \<in> {[], ''RATE_LIMIT_EXCEEDED''}
                else s \<ge> 500 \<and> s \<noteq> 501 \<and> s \<noteq> 505)
          else (case out of
                  None \<Rightarrow> False
                | Some dec \<Rightarrow> limit_read b \<noteq> [] \<and>
                    (case UnmarshalNumbers dec (limit_read b) of
                       Inr _ \<Rightarrow> False | Inl e \<Rightarrow> e \<noteq> JSyntax \<and> e \<noteq> JType)))"

lemma read_answer_transient:
  assumes "read_answer V t w c out a = (Inl err, w')"
  shows "retryable gone err \<longleftrightarrow> \<not> gone \<and> transient out a"
proof (cases "\<exists>s rh b. a = Resp s rh (Some b) \<and> (s < 200 \<or> s > 299)")
  case True
  then obtain s rh b where a: "a = Resp s rh (Some b)" "s < 200 \<or> s > 299" by blast
  obtain u where f: "failed_response V t w c s rh (limit_read b) = (err, u)"
    using assms a by (auto simp: read_answer_def Let_def split: prod.splits)
  obtain e where e: "as_api err = Some e" "StatusCode e = s" "Code e = Code (decodeError s rh (limit_read b))"
    "\<not> is_local err"
    using failed_response_api [OF f] by blast
  then show ?thesis using a by (simp add: retryable_def transient_def)
next
  case False
  then show ?thesis
    using assms
    by (auto simp: read_answer_def Let_def read_clock_def tick_def retryable_def transient_def
        split: net_result.splits option.splits if_splits sum.splits)
qed

lemma read_answer_retry_after:
  assumes "read_answer V t w c out a = (Inl err, w')" "as_api err = Some e"
  shows "RetryAfter e \<le> maxRetryAfter"
proof -
  have b: "RetryAfter (decodeError s rh b) \<le> maxRetryAfter" for s rh b
    by (simp add: decodeError_def Let_def decode_fields_def no_error_def retry_after_def
        maxRetryAfter_def minute_def second_def min_def split: sum.split prod.split option.split)
  show ?thesis
    using assms failed_response_api b
    by (fastforce simp: read_answer_def Let_def split: net_result.splits option.splits if_splits prod.splits sum.splits)
qed

lemma do_request_cases:
  assumes "quiet t" "do_request V t w extra m path body out = (r, w')"
  obtains (local) "retry_sleeps w' = retry_sleeps w" "w_log w' = w_log w" "r \<in> {Inl EContext, Inl EBuild} \<union> range (\<lambda>e. Inl (ELocal e))"
  | (sent) wire q h w1 w2 w3 a
    where "retry_sleeps w' = retry_sleeps w" "w_sig w1 = w_sig w"
      "w_log w' = w_log w @ [(\<lparr>r_method = m, r_path = wire, r_query = q, r_headers = h, r_body = body\<rparr>, a)]"
      "parse_target (after_scheme (t_base t) @ path) = Some (wire, q)"
      "sign_request V t w1 (base_headers t body extra) m wire q body = (Inr h, w2)"
      "read_answer V t w3 (fst (costOf m path body)) out a = (r, w')"
proof -
  obtain c n where c: "costOf m path body = (c, n)" by fastforce
  obtain ok w1 where p: "pace V w c n = (ok, w1)" by fastforce
  have l1: "w_log w1 = w_log w" using pace_log [of V w c n] p by simp
  have r1: "retry_sleeps w1 = retry_sleeps w" using pace_retries [of V w c n] p by simp
  show ?thesis
  proof (cases "ok \<and> parse_target (after_scheme (t_base t) @ path) \<noteq> None")
    case False
    then have "w' = w1 \<and> r \<in> {Inl EContext, Inl EBuild}"
      using assms(2) c p
      by (cases "parse_target (after_scheme (t_base t) @ path)") (auto simp: do_request_def split: bool.splits)
    then show ?thesis using l1 r1 by (intro that(1)) auto
  next
    case True
    then obtain wire q where u: "parse_target (after_scheme (t_base t) @ path) = Some (wire, q)" by auto
    obtain s w2 where s: "sign_request V t w1 (base_headers t body extra) m wire q body = (s, w2)" by fastforce
    have l2: "w_log w2 = w_log w" and r2: "retry_sleeps w2 = retry_sleeps w"
      using quiet_sign [OF assms(1) s] l1 r1 by (simp_all add: retry_sleeps_def)
    show ?thesis
    proof (cases s)
      case (Inl e)
      then have "w' = w2 \<and> r = Inl e" using assms(2) True by (simp add: do_request_def c p u s)
      moreover have "\<exists>e'. e = ELocal e'"
        using s Inl by (auto simp: sign_request_def split: option.splits prod.splits sum.splits)
      ultimately show ?thesis using l2 r2 by (intro that(1)) auto
    next
      case (Inr h)
      let ?q = "\<lparr>r_method = m, r_path = wire, r_query = q, r_headers = h, r_body = body\<rparr>"
      obtain a w3 where a: "send_http V w2 ?q = (a, w3)" by fastforce
      have l3: "w_log w3 = w_log w @ [(?q, a)]" using a l2 by (auto simp: send_http_def Let_def tick_def)
      have r3: "retry_sleeps w3 = retry_sleeps w"
        using a r2 by (auto simp: send_http_def Let_def tick_def retry_sleeps_def)
      have ra: "read_answer V t w3 c out a = (r, w')"
        using assms(2) True Inr a by (simp add: do_request_def c p u s)
      show ?thesis
        by (rule that(2) [OF _ _ _ u])
          (use pace_sig [of V w c n] p l3 r3 read_answer_io [OF assms(1) ra] s Inr ra c in \<open>auto simp: retry_sleeps_def\<close>)
    qed
  qed
qed

subsection \<open>Retries\<close>

lemma backoff_bounds:
  assumes "0 \<le> d" shows "d div 2 \<le> backoff d r \<and> backoff d r \<le> d"
proof -
  have "0 \<le> d div 2" using assms by simp
  then have "0 \<le> int r mod (d div 2 + 1)" "int r mod (d div 2 + 1) \<le> d div 2"
    using pos_mod_bound [of "d div 2 + 1" "int r"] by simp_all
  then show ?thesis unfolding backoff_def rand_N_def by linarith
qed

lemma rand_N_bounds: "0 < k \<Longrightarrow> 0 \<le> rand_N n k \<and> rand_N n k < k"
  by (simp add: rand_N_def)

lemma retryAfterDelay_bounds:
  "max r second \<le> retryAfterDelay r n \<and> 2 * retryAfterDelay r n \<le> 3 * max r second"
proof -
  obtain d where d: "d = max r second" by simp
  then have "0 \<le> d div 2" by (simp add: second_def)
  then have "0 \<le> rand_N n (d div 2 + 1)" "rand_N n (d div 2 + 1) \<le> d div 2"
    using rand_N_bounds [of "d div 2 + 1" n] by simp_all
  then show ?thesis unfolding retryAfterDelay_def Let_def d [symmetric] by simp
qed

definition sleep_in_bounds :: "'s transport \<Rightarrow> int \<Rightarrow> bool" where
  "sleep_in_bounds t d =
     (min (t_minDelay t div 2) second \<le> d \<and> d \<le> max (t_maxDelay t) (maxRetryAfter + maxRetryAfter div 2))"

text \<open>What a run of the loop adds to the world: the requests, and the sleeps between them.\<close>

definition get_trace ::
  "'s transport \<Rightarrow> (json \<Rightarrow> json_error + 'a) option \<Rightarrow> string \<Rightarrow> nat \<Rightarrow> 's world \<Rightarrow> 's world \<Rightarrow> bool" where
  "get_trace t out path left w w' \<longleftrightarrow>
     (\<exists>xs ds. w_log w' = w_log w @ xs \<and> length xs \<le> Suc left \<and>
        (\<forall>x \<in> set (butlast xs). transient out (snd x)) \<and>
        (\<forall>x \<in> set xs. r_method (fst x) = ''GET'' \<and> r_body (fst x) = None \<and>
           parse_target (after_scheme (t_base t) @ path) = Some (r_path (fst x), r_query (fst x))) \<and>
        retry_sleeps w' = retry_sleeps w @ ds \<and> length ds \<le> left \<and> (\<forall>d \<in> set ds. sleep_in_bounds t d))"

lemma get_trace_mono: "get_trace t out path n w w' \<Longrightarrow> n \<le> k \<Longrightarrow> get_trace t out path k w w'"
proof -
  assume a: "get_trace t out path n w w'" "n \<le> k"
  then obtain xs ds where "w_log w' = w_log w @ xs" "length xs \<le> Suc n"
    "\<forall>x \<in> set (butlast xs). transient out (snd x)"
    "\<forall>x \<in> set xs. r_method (fst x) = ''GET'' \<and> r_body (fst x) = None \<and>
       parse_target (after_scheme (t_base t) @ path) = Some (r_path (fst x), r_query (fst x))"
    "retry_sleeps w' = retry_sleeps w @ ds" "length ds \<le> n" "\<forall>d \<in> set ds. sleep_in_bounds t d"
    unfolding get_trace_def by blast
  then show ?thesis unfolding get_trace_def
    by (intro exI [of _ xs] exI [of _ ds]) (use a(2) in auto)
qed

lemma get_trace_append:
  assumes "w_log u = w_log w @ xs" "length xs \<le> 1" "\<forall>x \<in> set xs. transient out (snd x)"
    and "\<forall>x \<in> set xs. r_method (fst x) = ''GET'' \<and> r_body (fst x) = None \<and>
           parse_target (after_scheme (t_base t) @ path) = Some (r_path (fst x), r_query (fst x))"
    and "retry_sleeps u = retry_sleeps w @ ds" "length ds \<le> 1" "\<forall>d \<in> set ds. sleep_in_bounds t d"
    and "get_trace t out path n u w'"
  shows "get_trace t out path (Suc n) w w'"
proof -
  obtain ys es where y: "w_log w' = w_log u @ ys" "length ys \<le> Suc n"
    "\<forall>x \<in> set (butlast ys). transient out (snd x)"
    "\<forall>x \<in> set ys. r_method (fst x) = ''GET'' \<and> r_body (fst x) = None \<and>
       parse_target (after_scheme (t_base t) @ path) = Some (r_path (fst x), r_query (fst x))"
    "retry_sleeps w' = retry_sleeps u @ es" "length es \<le> n" "\<forall>d \<in> set es. sleep_in_bounds t d"
    using assms(8) unfolding get_trace_def by blast
  have "set (butlast (xs @ ys)) \<subseteq> set xs \<union> set (butlast ys)"
    by (auto simp: butlast_append dest: in_set_butlastD)
  then have b: "\<forall>x \<in> set (butlast (xs @ ys)). transient out (snd x)" using y(3) assms(3) by blast
  show ?thesis
    unfolding get_trace_def
    by (rule exI [of _ "xs @ ys"], rule exI [of _ "ds @ es"]) (use assms y b in auto)
qed

lemma do_get_trace:
  assumes "quiet t" "do_request V t w [] ''GET'' path None out = (r, w')"
  obtains xs where "w_log w' = w_log w @ xs" "length xs \<le> 1" "retry_sleeps w' = retry_sleeps w"
    "\<forall>x \<in> set xs. r_method (fst x) = ''GET'' \<and> r_body (fst x) = None \<and>
       parse_target (after_scheme (t_base t) @ path) = Some (r_path (fst x), r_query (fst x))"
    "\<forall>err gone. r = Inl err \<longrightarrow> retryable gone err \<longrightarrow>
       (\<forall>x \<in> set xs. transient out (snd x)) \<and> (\<forall>e. as_api err = Some e \<longrightarrow> RetryAfter e \<le> maxRetryAfter)"
  using assms
proof (cases rule: do_request_cases)
  case local
  then show ?thesis by (intro that [of "[]"]) (auto simp: retryable_def)
next
  case (sent wire q h w1 w2 w3 a)
  let ?x = "(\<lparr>r_method = ''GET'', r_path = wire, r_query = q, r_headers = h, r_body = None\<rparr>, a)"
  have k: "(\<forall>x \<in> set [?x]. transient out (snd x)) \<and> (\<forall>e. as_api err = Some e \<longrightarrow> RetryAfter e \<le> maxRetryAfter)"
    if "r = Inl err" "retryable gone err" for err gone
    using read_answer_transient read_answer_retry_after sent(6) that by fastforce
  show ?thesis by (rule that [of "[?x]"]) (use sent(1-4) k in auto)
qed

lemma backoff_in_bounds:
  assumes "0 \<le> t_minDelay t" "t_minDelay t \<le> d" "d \<le> t_maxDelay t"
  shows "sleep_in_bounds t (backoff d n)"
proof -
  have "t_minDelay t div 2 \<le> d div 2" using assms(2) by (rule zdiv_mono1) simp
  then show ?thesis using backoff_bounds [of d n] assms unfolding sleep_in_bounds_def by linarith
qed

lemma retryAfterDelay_in_bounds:
  assumes "r \<le> maxRetryAfter" shows "sleep_in_bounds t (retryAfterDelay r n)"
proof -
  have "max r second \<le> maxRetryAfter" using assms by (simp add: maxRetryAfter_def minute_def second_def)
  then have "second \<le> retryAfterDelay r n" "2 * retryAfterDelay r n \<le> 3 * maxRetryAfter"
    using retryAfterDelay_bounds [of r n] by (auto simp: max_def split: if_splits)
  moreover have "3 * maxRetryAfter = 2 * (maxRetryAfter + maxRetryAfter div 2)"
    by (simp add: maxRetryAfter_def minute_def second_def)
  ultimately show ?thesis unfolding sleep_in_bounds_def by linarith
qed

lemma get_loop_trace:
  assumes "quiet t" "0 \<le> t_minDelay t" "t_minDelay t \<le> delay" "delay \<le> t_maxDelay t"
    and "get_loop V t left delay w [] path out = (r, w')"
  shows "get_trace t out path left w w'"
  using assms(3-5)
proof (induction left arbitrary: delay w)
  case 0
  obtain r1 w1 where d: "do_request V t w [] ''GET'' path None out = (r1, w1)" by fastforce
  have "w' = w1" using 0(3) d by (simp add: get_loop.simps [of V t 0] split: sum.splits)
  obtain xs where "w_log w1 = w_log w @ xs" "length xs \<le> 1" "retry_sleeps w1 = retry_sleeps w"
    "\<forall>x \<in> set xs. r_method (fst x) = ''GET'' \<and> r_body (fst x) = None \<and>
       parse_target (after_scheme (t_base t) @ path) = Some (r_path (fst x), r_query (fst x))"
    by (rule do_get_trace [OF assms(1) d])
  then show ?case unfolding \<open>w' = w1\<close> get_trace_def
    by (intro exI [of _ xs] exI [of _ "[]"]) (cases xs; auto)
next
  case (Suc n)
  obtain r1 w1 where d: "do_request V t w [] ''GET'' path None out = (r1, w1)" by fastforce
  obtain xs where x: "w_log w1 = w_log w @ xs" "length xs \<le> 1" "retry_sleeps w1 = retry_sleeps w"
    "\<forall>x \<in> set xs. r_method (fst x) = ''GET'' \<and> r_body (fst x) = None \<and>
       parse_target (after_scheme (t_base t) @ path) = Some (r_path (fst x), r_query (fst x))"
    "\<forall>err gone. r1 = Inl err \<longrightarrow> retryable gone err \<longrightarrow>
       (\<forall>x \<in> set xs. transient out (snd x)) \<and> (\<forall>e. as_api err = Some e \<longrightarrow> RetryAfter e \<le> maxRetryAfter)"
    by (rule do_get_trace [OF assms(1) d])
  have one: "get_trace t out path (Suc n) w u" if "w_log u = w_log w1" "retry_sleeps u = retry_sleeps w1" for u
    unfolding get_trace_def
    by (intro exI [of _ xs] exI [of _ "[]"]) (use x(1-4) that in \<open>cases xs; auto\<close>)
  show ?case
  proof (cases r1)
    case (Inr a)
    then have "w' = w1" using Suc.prems(3) d by (simp add: get_loop.simps [of V t "Suc n"])
    then show ?thesis using one by simp
  next
    case (Inl err)
    define gone where "gone = e_done V (w_tick w1)"
    define w2 where "w2 = tick (tick w1)"
    define rnd where "rnd = e_rand V (w_tick (tick w1))"
    define dw where "dw = (case as_api err of
        Some e \<Rightarrow> if StatusCode e = 429 then (retryAfterDelay (RetryAfter e) (e_rand V (w_tick w2)), tick w2)
                  else (backoff delay rnd, w2)
      | None \<Rightarrow> (backoff delay rnd, w2))"
    obtain s w3 where dw': "dw = (s, w3)" by fastforce
    have w3: "w_log w3 = w_log w1" "retry_sleeps w3 = retry_sleeps w1"
      using dw' by (auto simp: dw_def w2_def tick_def retry_sleeps_def split: option.splits if_splits)
    show ?thesis
    proof (cases "retryable gone err")
      case False
      then have "w' = tick w1"
        using Suc.prems(3) d Inl by (simp add: get_loop.simps [of V t "Suc n"] ctx_done_def gone_def Let_def)
      then show ?thesis using one by (simp add: tick_def retry_sleeps_def)
    next
      case True
      have run: "(case sleep V w3 Retry s of
          (False, w) \<Rightarrow> (Inl EContext, w)
        | (True, w) \<Rightarrow> get_loop V t n (min (2 * delay) (t_maxDelay t)) w [] path out) = (r, w')"
        using Suc.prems(3) d Inl True dw'
        by (simp add: get_loop.simps [of V t "Suc n"] ctx_done_def gone_def Let_def draw_def dw_def
            rnd_def w2_def split: option.splits if_splits)
      have sb: "sleep_in_bounds t s"
        using dw' x(5) Inl True backoff_in_bounds [OF assms(2) Suc.prems(1,2)] retryAfterDelay_in_bounds
        by (auto simp: dw_def split: option.splits if_splits)
      show ?thesis
      proof (cases "e_done V (w_tick w3)")
        case True
        then have "w' = tick w3" using run by (simp add: sleep_def ctx_done_def)
        then show ?thesis using one w3 by (simp add: tick_def retry_sleeps_def)
      next
        case False
        define w4 where "w4 = (tick w3)\<lparr>w_slept := w_slept w3 @ [(Retry, s)]\<rparr>"
        have w4: "w_log w4 = w_log w @ xs" "retry_sleeps w4 = retry_sleeps w @ [s]"
          using w3 x by (simp_all add: w4_def tick_def retry_sleeps_def)
        have "get_loop V t n (min (2 * delay) (t_maxDelay t)) w4 [] path out = (r, w')"
          using run False by (simp add: sleep_def ctx_done_def w4_def tick_def)
        then have "get_trace t out path n w4 w'"
          using Suc.prems assms(2) by (intro Suc.IH) auto
        then show ?thesis
          using x(4) x(5) Inl True sb
          by (intro get_trace_append [OF w4(1) x(2) _ x(4) w4(2)]) auto
      qed
    qed
  qed
qed

subsection \<open>Properties of requests and retries\<close>

text \<open>A world and an environment for the witnesses: nothing sent, no budget known, a network
  that answers everything with the given result, a clock that stands still.\<close>

definition start_world :: "'s \<Rightarrow> 's world" where
  "start_world s = \<lparr>w_tick = 0, w_log = [], w_slept = [], w_limits = new_limiter, w_sig = s\<rparr>"

definition steady_env :: "net_result \<Rightarrow> env" where
  "steady_env a = \<lparr>e_clock = (\<lambda>_. 0), e_net = (\<lambda>_ _. a), e_done = (\<lambda>_. False), e_rand = (\<lambda>_. 0)\<rparr>"

definition local_transport :: "'s transport" where
  "local_transport = New ''http://localhost:9090'' ''v1.0.0'' [] (\<lambda>_. None)"

lemma local_base [simp]: "after_scheme ''http://localhost:9090'' = []"
  by code_simp

lemma local_transport_simps [simp]:
  "t_base local_transport = ''http://localhost:9090''" "t_basePath local_transport = []"
  "t_maxRetries local_transport = 3" "t_minDelay local_transport = 100000000"
  "t_maxDelay local_transport = 5000000000" "t_refuse local_transport = None"
  "t_signer local_transport = None" "t_apiVersion local_transport = ''v1.0.0''"
proof -
  have a: "trim_right_char (CHR ''/'') ''http://localhost:9090'' = ''http://localhost:9090''" by code_simp
  have p: "parse_target [] = Some ([], [])" by code_simp
  show "t_base local_transport = ''http://localhost:9090''" "t_basePath local_transport = []"
    "t_maxRetries local_transport = 3" "t_minDelay local_transport = 100000000"
    "t_maxDelay local_transport = 5000000000" "t_refuse local_transport = None"
    "t_signer local_transport = None" "t_apiVersion local_transport = ''v1.0.0''"
    by (simp_all add: local_transport_def New_def Let_def a p second_def)
qed

text \<open>C3: a call that may change state is sent at most once, whatever the outcome, and with the
  method and body the caller gave; it never sleeps to retry.\<close>

theorem Send_at_most_once:
  assumes "quiet t" "Send V t w extra m path body out = (r, w')"
  shows "(w_log w' = w_log w \<or>
      (\<exists>req a. w_log w' = w_log w @ [(req, a)] \<and> r_method req = m \<and>
         r_body req = (case body of Some (Some j) \<Rightarrow> Some (json_print j) | _ \<Rightarrow> None)))
    \<and> retry_sleeps w' = retry_sleeps w"
proof (cases "t_refuse t = None \<and> m \<noteq> ''GET'' \<and> body \<noteq> Some None")
  case False
  then have "w' = w" using assms(2) by (auto simp: Send_def split: option.splits if_splits)
  then show ?thesis by simp
next
  case True
  let ?b = "case body of Some (Some j) \<Rightarrow> Some (json_print j) | _ \<Rightarrow> None"
  obtain r1 where d: "do_request V t w extra m path ?b out = (r1, w')"
    using assms(2) True by (auto simp: Send_def split: prod.splits)
  show ?thesis using assms(1) d by (cases rule: do_request_cases) auto
qed

theorem Send_at_most_once_witness:
  "length (w_log (snd (Send (steady_env NetFail) (local_transport :: unit transport) (start_world ()) [] ''POST'' ''/orders'' None
     (None :: (json \<Rightarrow> json_error + unit) option)))) \<le> 1"
proof -
  let ?t = "local_transport :: unit transport"
  obtain r w' where s: "Send (steady_env NetFail) ?t (start_world ()) [] ''POST'' ''/orders'' None
     (None :: (json \<Rightarrow> json_error + unit) option) = (r, w')" by fastforce
  have "quiet ?t" by (rule quiet_no_signer) simp
  from Send_at_most_once [OF this s] show ?thesis unfolding s by (auto simp: start_world_def)
qed



text \<open>A transport that refuses (a Mainnet client's) returns its refusal from every call and
  touches nothing: no request, no sleep, no clock reading, no WebSocket dial.\<close>

lemma refusal_is_silent:
  assumes "t_refuse t = Some e"
  shows "Get V t w path q out = (Inl e, w) \<and> GetPage V t w path q out = (Inl e, w)
    \<and> Send V t w extra m path body out = (Inl e, w)
    \<and> (\<forall>dial dial'. Dial t dial url = Inl (WsRefused e) \<and> Dial t dial url = Dial t dial' url)"
  using assms by (simp add: Get_def GetPage_def Get_raw_def Send_def Dial_def)

text \<open>
  The comment at retryable says that decode failures are not transient; of the failures
  UnmarshalNumbers returns, only SyntaxError and UnmarshalTypeError are recognised. A
  truncated body, bytes after the value and the error of a custom UnmarshalJSON are retried.
  And a value followed by a closing bracket is accepted.
\<close>

lemma decode_failures_retried:
  "retryable False (EDecode JEof) \<and> retryable False (EDecode JCut) \<and> retryable False (EDecode JTrailing) \<and>
   retryable False (EDecode (JCustom s)) \<and> \<not> retryable False (EDecode JSyntax) \<and>
   \<not> retryable False (EDecode JType) \<and> UnmarshalNumbers Inr ''[1,2'' = Inl JCut \<and>
   UnmarshalNumbers Inr ''1 2'' = Inl JTrailing"
  by (simp add: retryable_def) code_simp

lemma trailing_bracket_accepted:
  "UnmarshalNumbers Inr ''[1] ]]'' = Inr (JArr [JNum ''1'']) \<and> Unmarshal Inr ''[1] ]]'' = Inl JSyntax"
  by code_simp

subsection \<open>Properties of the signed requests\<close>

text \<open>
  What the server checks. It sees the request without the base prefix, which the edge
  strips, and recomputes the signature from what it received and the headers.
\<close>

definition hmac_accepts :: "hmac_key \<Rightarrow> string \<Rightarrow> request \<Rightarrow> bool" where
  "hmac_accepts K prefix r =
     (hget (r_headers r) ''X-Api-Key'' = KeyID K \<and>
      (case parse_int64 (hget (r_headers r) ''X-Timestamp'') of
         None \<Rightarrow> False
       | Some ts \<Rightarrow> hget (r_headers r) ''X-Signature'' =
           Sign (Secret K) (Canonical ts (r_method r) (trim_prefix (r_path r) prefix) (r_query r) (r_body r))))"

definition agent_accepts :: "'k eth_lib \<Rightarrow> 'k \<Rightarrow> string \<Rightarrow> string \<Rightarrow> request \<Rightarrow> bool" where
  "agent_accepts E k address prefix r =
     (hget (r_headers r) ''X-Agent'' = address \<and>
      (case parse_int64 (hget (r_headers r) ''X-Timestamp'') of
         None \<Rightarrow> False
       | Some ts \<Rightarrow>
           all_digits (hget (r_headers r) ''X-Nonce'') \<and>
           SignAgent E k (AgentCanonical (r_method r) (trim_prefix (r_path r) prefix) (r_query r) (r_body r) ts
             (digits_val (hget (r_headers r) ''X-Nonce''))) = Some (hget (r_headers r) ''X-Signature'')))"

lemma unix_milli_range: "in_int64 (unix_milli t)"
  by (simp add: unix_milli_def wrap64_range)

lemma hmac_Apply_accepts:
  "r_headers r = Apply K now h (r_method r) (trim_prefix (r_path r) prefix) (r_query r) (r_body r) \<Longrightarrow>
     hmac_accepts K prefix r"
  by (simp add: hmac_accepts_def Apply_def Let_def parse_show_int [OF unix_milli_range])

lemma agent_Sign_accepts:
  "agent_Sign E a now h (r_method r) (trim_prefix (r_path r) prefix) (r_query r) (r_body r) = (Inr (r_headers r), a') \<Longrightarrow>
     agent_accepts E (agent_key a) (agent_address a) prefix r"
proof -
  assume s: "agent_Sign E a now h (r_method r) (trim_prefix (r_path r) prefix) (r_query r) (r_body r) = (Inr (r_headers r), a')"
  let ?ts = "unix_milli now" and ?n = "next_nonce (agent_last a) (unix_milli now)"
  let ?c = "AgentCanonical (r_method r) (trim_prefix (r_path r) prefix) (r_query r) (r_body r) ?ts ?n"
  obtain sig where sig: "SignAgent E (agent_key a) ?c = Some sig"
    and h: "r_headers r = hset (hset (hset (hset h ''X-Agent'' (agent_address a)) ''X-Timestamp'' (show_int ?ts))
      ''X-Nonce'' (show_nat ?n)) ''X-Signature'' sig"
    using s by (auto simp: agent_Sign_def Let_def split: if_splits option.splits)
  show ?thesis using sig by (simp add: agent_accepts_def h parse_show_int [OF unix_milli_range])
qed





subsection \<open>Cancels\<close>

lemma cancel_path:
  assumes "oid \<noteq> []" "q = [] \<or> hd q = CHR ''?''"
  shows "bucket_of (fst (costOf ''DELETE'' (''/orders/'' @ PathEscape oid @ q) body)) = None"
proof -
  have f: "CHR ''?'' \<notin> set (''/orders/'' @ PathEscape oid)" using PathEscape_not [of "CHR ''?''" oid] by simp
  have "cut_before (CHR ''?'') ((''/orders/'' @ PathEscape oid) @ q) = ''/orders/'' @ PathEscape oid"
    using assms(2) cut_before_append [OF f, of "tl q"] cut_before_free [OF f] by (cases q) auto
  moreover have "order_id_path (''/orders/'' @ PathEscape oid)"
    using assms(1) PathEscape_not [of "CHR ''/''" oid] by (auto simp: order_id_path_def)
  ultimately show ?thesis by (simp add: cost_cancel_iff)
qed

text \<open>\<open>orderPath\<close> (orders.go): the target of an operation on one order.\<close>

definition orderPath :: "string \<Rightarrow> string \<Rightarrow> string" where
  "orderPath orderID marketID =
     ''/orders/'' @ PathEscape orderID @ ''?'' @ query_encode [(''market_id'', marketID)]"



end
