(* ===== verification/Pagination.thy ===== *)
theory Pagination
  imports JsonTyped Transport
begin

section \<open>Cursor pagination (pagination.go)\<close>

text \<open>
  One page of a list, in either shape the API serves, and the walk that follows the cursor
  from page to page. The iterator's caller is a consumer: a function from its own state and
  the value or error it is handed to whether it goes on, and its next state. A server may
  hand out cursors forever, so the walk is a partial function: not returning is None.
\<close>

record 'a list_page =
  p_items :: "'a list"
  p_next :: string
  p_envelope :: bool

definition empty_page :: "'a list_page" where
  "empty_page = \<lparr>p_items = [], p_next = [], p_envelope = False\<rparr>"

text \<open>\<open>listPage.UnmarshalJSON\<close>, on the value the bytes hold: a bare array, or the envelope.\<close>

definition listPage_decode :: "(json \<Rightarrow> json_error + 'a) \<Rightarrow> json \<Rightarrow> json_error + 'a list_page" where
  "listPage_decode dec j =
     (case j of
        JArr _ \<Rightarrow> bind_res (dec_slice dec j) (\<lambda>xs. Inr \<lparr>p_items = xs, p_next = [], p_envelope = False\<rparr>)
      | _ \<Rightarrow>
          bind_res (members j) (\<lambda>ms.
          bind_res (slice_field dec ''items'' ms) (\<lambda>xs.
          bind_res (ptr_field dec_string ''next_cursor'' ms) (\<lambda>c.
            Inr \<lparr>p_items = xs, p_next = (case c of None \<Rightarrow> [] | Some c \<Rightarrow> c), p_envelope = True\<rparr>))))"

type_synonym ('a, 'y) consumer = "'y \<Rightarrow> go_error + 'a \<Rightarrow> bool \<times> 'y"

fun yield_all :: "('a, 'y) consumer \<Rightarrow> 'y \<Rightarrow> 'a list \<Rightarrow> bool \<times> 'y" where
  "yield_all yield y [] = (True, y)"
| "yield_all yield y (x # xs) =
     (case yield y (Inr x) of (True, y) \<Rightarrow> yield_all yield y xs | (False, y) \<Rightarrow> (False, y))"

text \<open>url.Values.Get: the first value under the key.\<close>

definition qget :: "query \<Rightarrow> string \<Rightarrow> string" where
  "qget q k = (case map_of q k of None \<Rightarrow> [] | Some v \<Rightarrow> v)"

text \<open>The cursor that follows a page: the body's if it was an envelope, else the header's.\<close>

definition next_cursor :: "'a list_page option \<Rightarrow> string \<Rightarrow> string" where
  "next_cursor p header =
     (let p = (case p of None \<Rightarrow> empty_page | Some p \<Rightarrow> p)
      in if p_envelope p then p_next p else header)"

definition page_items :: "'a list_page option \<Rightarrow> 'a list" where
  "page_items p = (case p of None \<Rightarrow> [] | Some p \<Rightarrow> p_items p)"

partial_function (option) paginate ::
  "env \<Rightarrow> 's transport \<Rightarrow> string \<Rightarrow> (json \<Rightarrow> json_error + 'a) \<Rightarrow> ('a, 'y) consumer \<Rightarrow> query \<Rightarrow> 's world \<Rightarrow> 'y
     \<Rightarrow> ('s world \<times> 'y) option" where
  "paginate V t path dec yield q w y =
     (case GetPage V t w path q (Some (listPage_decode dec)) of
        (r, w) \<Rightarrow>
          (case r of
             Inl e \<Rightarrow> Some (w, snd (yield y (Inl e)))
           | Inr (p, header) \<Rightarrow>
               (let nc = next_cursor p header
                in case yield_all yield y (page_items p) of
                     (go_on, y) \<Rightarrow>
                       if \<not> go_on \<or> nc = [] then Some (w, y)
                       else if nc = qget q ''cursor''
                       then Some (w, snd (yield y (Inl (EInvalid ''server returned the cursor it was sent''))))
                       else paginate V t path dec yield (qset q ''cursor'' nc) w y)))"

subsection \<open>Answered requests\<close>

text \<open>
  What is needed to know the outcome of one GET: a context that lives on, a signer that
  does not refuse, a target that parses, and the server's answer to the query.
\<close>

definition willing :: "'s transport \<Rightarrow> bool" where
  "willing t = (\<forall>V w h m p q b. \<exists>h' w'. sign_request V t w h m p q b = (Inr h', w'))"

lemma willing_no_signer: "t_signer t = None \<Longrightarrow> willing t"
  by (simp add: willing_def sign_request_def)

lemma willing_hmac: "t_signer t = Some (hmac_signer K) \<Longrightarrow> willing t"
  by (simp add: willing_def sign_request_def hmac_signer_def read_clock_def)

definition answers :: "env \<Rightarrow> 's transport \<Rightarrow> (string \<Rightarrow> net_result) \<Rightarrow> string \<Rightarrow> bool" where
  "answers V t srv path =
     (e_done V = (\<lambda>_. False) \<and> t_refuse t = None \<and> quiet t \<and> willing t \<and>
      path_text (after_scheme (t_base t) @ path) \<and> (\<forall>n r. e_net V n r = srv (r_query r)))"

lemma pace_alive: "e_done V = (\<lambda>_. False) \<Longrightarrow> fst (pace V w c n)"
  by (simp add: pace_def Let_def read_clock_def tick_def sleep_def ctx_done_def split: option.split prod.split)

lemma parse_with_query:
  "path_text (b @ path) \<Longrightarrow> parse_target (b @ with_query path q) = Some (b @ path, query_encode q)"
  using parse_path_text [of "b @ path"] parse_path_query [of "b @ path" "query_encode q"] query_encode_plain [of q]
  by (simp add: with_query_def query_encode_def [of "[]"])

lemma request_answered:
  assumes "answers V t srv path0" "parse_target (after_scheme (t_base t) @ path) = Some (wire, qs)"
    and "srv qs = Resp status rh (Some body)" "200 \<le> status" "status \<le> 299" "body \<noteq> []" "length body \<le> maxBody"
    and "UnmarshalNumbers dec body = Inr a"
  obtains w' r where "do_request V t w extra m path b (Some dec) = (Inr (Some a, rh), w')"
    "w_log w' = w_log w @ [(r, Resp status rh (Some body))]" "r_query r = qs" "r_path r = wire" "r_method r = m"
proof -
  have env: "e_done V = (\<lambda>_. False)" "quiet t" "willing t"
    "\<And>n r. e_net V n r = srv (r_query r)" using assms(1) by (auto simp: answers_def)
  obtain c n where c: "costOf m path b = (c, n)" by fastforce
  obtain w1 where p: "pace V w c n = (True, w1)" using pace_alive [OF env(1), of w c n] by (cases "pace V w c n") simp
  have l1: "w_log w1 = w_log w" using pace_log [of V w c n] p by simp
  obtain h w2 where s: "sign_request V t w1 (base_headers t b extra) m wire qs b = (Inr h, w2)"
    using env(3) unfolding willing_def by blast
  let ?r = "\<lparr>r_method = m, r_path = wire, r_query = qs, r_headers = h, r_body = b\<rparr>"
  obtain w3 where a: "send_http V w2 ?r = (Resp status rh (Some body), w3)" "w_log w3 = w_log w2 @ [(?r, Resp status rh (Some body))]"
    by (simp add: send_http_def Let_def env(4) assms(3) tick_def)
  have lim: "limit_read body = body" using assms(7) by (simp add: limit_read_def)
  obtain w' where r: "read_answer V t w3 c (Some dec) (Resp status rh (Some body)) = (Inr (Some a, rh), w')"
    using assms(4-6,8) by (simp add: read_answer_def lim Let_def read_clock_def)
  have "do_request V t w extra m path b (Some dec) = (Inr (Some a, rh), w')"
    unfolding do_request_def c Let_def prod.case p bool.case assms(2) option.case s sum.case a r ..
  moreover have "w_log w' = w_log w3" using read_answer_io [OF env(2) r] by blast
  moreover have "w_log w2 = w_log w1" using quiet_sign [OF env(2) s] by simp
  ultimately show ?thesis using a(2) l1 by (intro that [of w' ?r]) simp_all
qed

lemma do_request_answered:
  assumes "answers V t srv path" "srv (query_encode q) = Resp status rh (Some body)"
    and "200 \<le> status" "status \<le> 299" "body \<noteq> []" "length body \<le> maxBody"
    and "UnmarshalNumbers dec body = Inr a"
  obtains w' r where "do_request V t w [] ''GET'' (with_query path q) None (Some dec) = (Inr (Some a, rh), w')"
    "w_log w' = w_log w @ [(r, Resp status rh (Some body))]" "r_query r = query_encode q"
    "r_path r = after_scheme (t_base t) @ path" "r_method r = ''GET''"
proof -
  have "path_text (after_scheme (t_base t) @ path)" using assms(1) by (simp add: answers_def)
  from request_answered [OF assms(1) parse_with_query [OF this] assms(2-7)] that show ?thesis by blast
qed

lemma GetPage_answered:
  assumes "answers V t srv path" "srv (query_encode q) = Resp status rh (Some body)"
    and "200 \<le> status" "status \<le> 299" "body \<noteq> []" "length body \<le> maxBody"
    and "UnmarshalNumbers dec body = Inr a"
  obtains w' r where "GetPage V t w path q (Some dec) = (Inr (Some a, hget rh ''X-Next-Cursor''), w')"
    "w_log w' = w_log w @ [(r, Resp status rh (Some body))]" "r_query r = query_encode q"
    "r_path r = after_scheme (t_base t) @ path" "r_method r = ''GET''"
proof (rule do_request_answered [OF assms, of w])
  fix w' r
  assume d: "do_request V t w [] ''GET'' (with_query path q) None (Some dec) = (Inr (Some a, rh), w')"
    and r: "w_log w' = w_log w @ [(r, Resp status rh (Some body))]" "r_query r = query_encode q"
      "r_path r = after_scheme (t_base t) @ path" "r_method r = ''GET''"
  have "t_refuse t = None" using assms(1) by (simp add: answers_def)
  then have "GetPage V t w path q (Some dec) = (Inr (Some a, hget rh ''X-Next-Cursor''), w')"
    by (simp add: GetPage_def Get_raw_def get_loop.simps [of V t "t_maxRetries t"] d)
  then show ?thesis using r by (rule that)
qed

lemma Get_answered:
  assumes "answers V t srv path" "srv (query_encode q) = Resp status rh (Some body)"
    and "200 \<le> status" "status \<le> 299" "body \<noteq> []" "length body \<le> maxBody"
    and "UnmarshalNumbers dec body = Inr a"
  obtains w' r where "Get V t w path q (Some dec) = (Inr (Some a), w')"
    "w_log w' = w_log w @ [(r, Resp status rh (Some body))]" "r_query r = query_encode q"
    "r_path r = after_scheme (t_base t) @ path" "r_method r = ''GET''"
proof (rule GetPage_answered [OF assms, of w])
  fix w' r
  assume g: "GetPage V t w path q (Some dec) = (Inr (Some a, hget rh ''X-Next-Cursor''), w')"
    and r: "w_log w' = w_log w @ [(r, Resp status rh (Some body))]" "r_query r = query_encode q"
      "r_path r = after_scheme (t_base t) @ path" "r_method r = ''GET''"
  have "Get V t w path q (Some dec) = (Inr (Some a), w')"
    using g by (auto simp: GetPage_def Get_def map_sum_def split: prod.splits sum.splits)
  then show ?thesis using r by (rule that)
qed

subsection \<open>The walk\<close>

text \<open>
  What a server does, seen from outside: from a query on, the queries it makes a client send,
  the pages it serves, and whether the last one repeats the cursor it was sent.
\<close>

definition page_at ::
  "(string \<Rightarrow> net_result) \<Rightarrow> (json \<Rightarrow> json_error + 'a) \<Rightarrow> query \<Rightarrow> 'a list \<Rightarrow> string \<Rightarrow> bool" where
  "page_at srv dec q xs nc =
     (case srv (query_encode q) of
        Resp status rh (Some body) \<Rightarrow>
          200 \<le> status \<and> status \<le> 299 \<and> body \<noteq> [] \<and> length body \<le> maxBody \<and>
          (case UnmarshalNumbers (listPage_decode dec) body of
             Inl _ \<Rightarrow> False
           | Inr p \<Rightarrow> p_items p = xs \<and> next_cursor (Some p) (hget rh ''X-Next-Cursor'') = nc)
      | _ \<Rightarrow> False)"

inductive serves ::
  "(string \<Rightarrow> net_result) \<Rightarrow> (json \<Rightarrow> json_error + 'a) \<Rightarrow> query \<Rightarrow> query list \<Rightarrow> 'a list list \<Rightarrow> bool \<Rightarrow> bool"
  for srv dec where
  final: "page_at srv dec q xs [] \<Longrightarrow> serves srv dec q [q] [xs] False"
| repeats: "page_at srv dec q xs nc \<Longrightarrow> nc \<noteq> [] \<Longrightarrow> nc = qget q ''cursor'' \<Longrightarrow> serves srv dec q [q] [xs] True"
| onward: "page_at srv dec q xs nc \<Longrightarrow> nc \<noteq> [] \<Longrightarrow> nc \<noteq> qget q ''cursor'' \<Longrightarrow>
    serves srv dec (qset q ''cursor'' nc) qs xss rep \<Longrightarrow> serves srv dec q (q # qs) (xs # xss) rep"

text \<open>What a consumer ends with when it is handed the items and then, perhaps, an error.\<close>

definition hand_over :: "('a, 'y) consumer \<Rightarrow> 'y \<Rightarrow> 'a list \<Rightarrow> go_error option \<Rightarrow> 'y" where
  "hand_over yield y xs err =
     (case yield_all yield y xs of
        (go_on, y) \<Rightarrow> (case err of Some e \<Rightarrow> if go_on then snd (yield y (Inl e)) else y | None \<Rightarrow> y))"

lemma yield_all_append:
  "yield_all yield y (xs @ ys) =
     (case yield_all yield y xs of (True, y) \<Rightarrow> yield_all yield y ys | (False, y) \<Rightarrow> (False, y))"
  by (induction xs arbitrary: y) (auto split: prod.split bool.split)

lemma hand_over_break: "yield_all yield y xs = (False, y') \<Longrightarrow> hand_over yield y (xs @ ys) err = y'"
  by (cases err) (simp_all add: hand_over_def yield_all_append)

lemma hand_over_on: "yield_all yield y xs = (True, y') \<Longrightarrow> hand_over yield y (xs @ ys) err = hand_over yield y' ys err"
  by (simp add: hand_over_def yield_all_append)

lemma yield_all_break: "yield_all yield y xs = (False, y') \<Longrightarrow> \<exists>y r. \<not> fst (yield y r)"
proof (induction xs arbitrary: y)
  case (Cons x xs)
  then show ?case by (cases "yield y (Inr x)") (auto split: bool.splits, metis fst_conv)
qed simp

lemma page_at_GetPage:
  assumes "answers V t srv path" "page_at srv dec q xs nc"
  obtains p header w' r a where "GetPage V t w path q (Some (listPage_decode dec)) = (Inr (Some p, header), w')"
    "p_items p = xs" "next_cursor (Some p) header = nc"
    "w_log w' = w_log w @ [(r, a)]" "r_query r = query_encode q" "r_path r = after_scheme (t_base t) @ path"
proof -
  obtain status rh body p where s: "srv (query_encode q) = Resp status rh (Some body)" "200 \<le> status" "status \<le> 299"
      "body \<noteq> []" "length body \<le> maxBody" "UnmarshalNumbers (listPage_decode dec) body = Inr p"
    and p: "p_items p = xs" "next_cursor (Some p) (hget rh ''X-Next-Cursor'') = nc"
    using assms(2) by (auto simp: page_at_def split: net_result.splits option.splits sum.splits)
  show ?thesis
    by (rule GetPage_answered [OF assms(1) s, of w]) (use p that in blast)
qed

abbreviation repeat_error :: go_error where
  "repeat_error \<equiv> EInvalid ''server returned the cursor it was sent''"

text \<open>C4: paging is invisible: whatever the pages, the two shapes and the header or body
  cursors, the consumer is handed exactly the concatenation of the pages' items in order, up
  to where it breaks, then nothing, or one error if the server repeats the cursor it was
  sent. The walk returns, sends at most one request per page and exactly one when the
  consumer never breaks, and each request is the previous one with the cursor it was
  served, byte for byte.\<close>

theorem paginate_concat:
  assumes "answers V t srv path" "serves srv dec q qs xss rep"
  shows "\<exists>w' ys. paginate V t path dec yield q w y =
      Some (w', hand_over yield y (concat xss) (if rep then Some repeat_error else None)) \<and>
    w_log w' = w_log w @ ys \<and> map (\<lambda>(r, a). r_query r) ys = take (length ys) (map query_encode qs) \<and>
    length ys \<le> length xss \<and> ((\<forall>y r. fst (yield y r)) \<longrightarrow> length ys = length xss)"
  using assms(2)
proof (induction arbitrary: w y rule: serves.induct)
  case (final q xs)
  obtain p header w' r a where g: "GetPage V t w path q (Some (listPage_decode dec)) = (Inr (Some p, header), w')"
    "p_items p = xs" "next_cursor (Some p) header = []" "w_log w' = w_log w @ [(r, a)]" "r_query r = query_encode q"
    by (rule page_at_GetPage [OF assms(1) final, of w])
  show ?case
    by (rule exI [of _ w'], rule exI [of _ "[(r, a)]"])
      (simp add: paginate.simps [of V t path dec yield q] g page_items_def hand_over_def split: prod.split)
next
  case (repeats q xs nc)
  obtain p header w' r a where g: "GetPage V t w path q (Some (listPage_decode dec)) = (Inr (Some p, header), w')"
    "p_items p = xs" "next_cursor (Some p) header = nc" "w_log w' = w_log w @ [(r, a)]" "r_query r = query_encode q"
    by (rule page_at_GetPage [OF assms(1) repeats(1), of w])
  show ?case using repeats(2,3)
    by (intro exI [of _ w'] exI [of _ "[(r, a)]"])
      (simp add: paginate.simps [of V t path dec yield q] g page_items_def hand_over_def split: prod.split)
next
  case (onward q xs nc qs xss rep)
  let ?e = "if rep then Some repeat_error else None"
  obtain p header w1 r a where g: "GetPage V t w path q (Some (listPage_decode dec)) = (Inr (Some p, header), w1)"
    "p_items p = xs" "next_cursor (Some p) header = nc" "w_log w1 = w_log w @ [(r, a)]" "r_query r = query_encode q"
    by (rule page_at_GetPage [OF assms(1) onward(1), of w])
  obtain go_on y' where y: "yield_all yield y xs = (go_on, y')" by fastforce
  show ?case
  proof (cases go_on)
    case False
    then have y: "yield_all yield y xs = (False, y')" using y by simp
    obtain y0 r0 where n: "\<not> fst (yield y0 r0)" using yield_all_break [OF y] by blast
    have "paginate V t path dec yield q w y = Some (w1, hand_over yield y (concat (xs # xss)) ?e)"
      using hand_over_break [OF y] by (simp add: paginate.simps [of V t path dec yield q] g page_items_def y)
    then show ?thesis using n g(4,5)
      by (intro exI [of _ w1] exI [of _ "[(r, a)]"]) auto
  next
    case True
    obtain w' ys where ih: "paginate V t path dec yield (qset q ''cursor'' nc) w1 y' = Some (w', hand_over yield y' (concat xss) ?e)"
        "w_log w' = w_log w1 @ ys" "map (\<lambda>(r, a). r_query r) ys = take (length ys) (map query_encode qs)"
        "length ys \<le> length xss" "(\<forall>y r. fst (yield y r)) \<longrightarrow> length ys = length xss"
      using onward.IH [of w1 y'] by blast
    have "paginate V t path dec yield q w y = Some (w', hand_over yield y (concat (xs # xss)) ?e)"
      using y True onward(2,3) ih(1) hand_over_on [of yield y xs y' "concat xss" ?e]
      by (simp add: paginate.simps [of V t path dec yield q] g page_items_def)
    then show ?thesis using ih(2-5) g(4,5)
      by (intro exI [of _ w'] exI [of _ "(r, a) # ys"]) simp
  qed
qed

text \<open>Two pages, the first a bare array with the cursor in the header, the second an envelope.\<close>

definition two_pages :: "string \<Rightarrow> net_result" where
  "two_pages q =
     (if q = ''cursor=a%2Fb'' then Resp 200 [] (Some ''{\"items\":[3]}'')
      else Resp 200 [(''X-Next-Cursor'', ''a/b'')] (Some ''[1,2]''))"

theorem paginate_concat_witness:
  "map_option snd (paginate (steady_env NetFail \<lparr>e_net := (\<lambda>_ r. two_pages (r_query r))\<rparr>) (local_transport :: unit transport)
     ''/fills'' dec_int64 (\<lambda>y r. (True, y @ [r])) [] (start_world ()) []) = Some [Inr 1, Inr 2, Inr 3]"
proof -
  let ?V = "steady_env NetFail \<lparr>e_net := (\<lambda>_ r. two_pages (r_query r))\<rparr>"
  let ?t = "local_transport :: unit transport"
  have p: "path_text (after_scheme (t_base ?t) @ ''/fills'')"
    by (rule path_text_plain) (simp add: plain_path_def unreserved_def)
  have a: "answers ?V ?t two_pages ''/fills''"
    using p quiet_no_signer [of ?t] willing_no_signer [of ?t] by (simp add: answers_def steady_env_def)
  have d: "UnmarshalNumbers (listPage_decode dec_int64) ''[1,2]'' = Inr \<lparr>p_items = [1, 2], p_next = [], p_envelope = False\<rparr>"
    "UnmarshalNumbers (listPage_decode dec_int64) ''{\"items\":[3]}'' = Inr \<lparr>p_items = [3], p_next = [], p_envelope = True\<rparr>"
    by code_simp+
  have o: "page_at two_pages dec_int64 [] [1, 2] ''a/b''"
    by (simp add: page_at_def two_pages_def query_encode_def d maxBody_def next_cursor_def hget_def)
  have e: "query_encode (qset [] ''cursor'' ''a/b'') = ''cursor=a%2Fb''" by code_simp
  have f: "page_at two_pages dec_int64 (qset [] ''cursor'' ''a/b'') [3] []"
    by (simp add: page_at_def two_pages_def e d maxBody_def next_cursor_def)
  have "serves two_pages dec_int64 [] [[], qset [] ''cursor'' ''a/b''] [[1, 2], [3]] False"
    by (rule serves.onward [OF o _ _ serves.final [OF f]]) (simp_all add: qget_def)
  from paginate_concat [OF a this, of "\<lambda>y r. (True, y @ [r])" "start_world ()" "[]"]
  show ?thesis by (auto simp: hand_over_def)
qed

end
