(* ===== verification/MarketData.thy ===== *)
theory MarketData
  imports Pagination
begin

section \<open>Candles and market data (market.go)\<close>

text \<open>
  OHLCV bars with their JSON array form, the query parameters, and the walk back through a
  market's history. Prices and volumes keep their served digits.
\<close>

record candle =
  c_Timestamp :: int
  c_Open :: string
  c_High :: string
  c_Low :: string
  c_Close :: string
  c_Volume :: string

text \<open>\<open>Candle.UnmarshalJSON\<close>. A null element is the empty json.Number.\<close>

definition Candle_UnmarshalJSON :: "json \<Rightarrow> json_error + candle" where
  "Candle_UnmarshalJSON j =
     bind_res (dec_slice (or_null [] dec_number) j) (\<lambda>a.
       case a of
         [t, op, hi, lo, cl, vol] \<Rightarrow>
           (case parse_int64 t of
              None \<Rightarrow> Inl (JCustom ''candle timestamp'')
            | Some ts \<Rightarrow> Inr \<lparr>c_Timestamp = ts, c_Open = op, c_High = hi, c_Low = lo, c_Close = cl, c_Volume = vol\<rparr>)
       | _ \<Rightarrow> Inl (JCustom ''candle has the wrong number of fields''))"

text \<open>Encoding a json.Number: empty is 0, and what is no number is an error.\<close>

definition enc_number :: "string \<Rightarrow> json option" where
  "enc_number s = (if s = [] then Some (JNum ''0'') else if num_lit s then Some (JNum s) else None)"

definition Candle_MarshalJSON :: "candle \<Rightarrow> json option" where
  "Candle_MarshalJSON c =
     (case those (map enc_number [c_Open c, c_High c, c_Low c, c_Close c, c_Volume c]) of
        None \<Rightarrow> None
      | Some ns \<Rightarrow> Some (JArr (JNum (show_int (c_Timestamp c)) # ns)))"

record candles_params =
  Timeframe :: string
  Limit :: int
  StartTime :: int
  EndTime :: int

definition setInt :: "query \<Rightarrow> string \<Rightarrow> int \<Rightarrow> query" where
  "setInt q key v = (if v = 0 then q else qset q key (show_int v))"

definition candles_query :: "candles_params \<Rightarrow> query" where
  "candles_query p =
     (let q = (if Timeframe p = [] then [] else qset [] ''timeframe'' (Timeframe p));
          q = setInt q ''limit'' (Limit p);
          q = setInt q ''startTime'' (StartTime p)
      in setInt q ''endTime'' (EndTime p))"

definition limitQuery :: "int \<Rightarrow> query" where
  "limitQuery limit = setInt [] ''limit'' limit"

definition marketPath :: "string \<Rightarrow> string \<Rightarrow> string" where
  "marketPath marketID rest = ''/markets/'' @ PathEscape marketID @ rest"

text \<open>\<open>getJSON\<close>: zero is the value of the type when the body is empty.\<close>

definition getJSON ::
  "env \<Rightarrow> 's transport \<Rightarrow> 's world \<Rightarrow> string \<Rightarrow> query \<Rightarrow> (json \<Rightarrow> json_error + 'a) \<Rightarrow> 'a \<Rightarrow> (go_error + 'a) \<times> 's world" where
  "getJSON V t w path q dec zero =
     (case Get V t w path q (Some dec) of
        (r, w) \<Rightarrow> (map_sum (\<lambda>e. e) (\<lambda>v. case v of None \<Rightarrow> zero | Some a \<Rightarrow> a) r, w))"

definition FetchOHLCV ::
  "env \<Rightarrow> 's transport \<Rightarrow> 's world \<Rightarrow> string \<Rightarrow> candles_params \<Rightarrow> (go_error + candle list) \<times> 's world" where
  "FetchOHLCV V t w marketID p =
     getJSON V t w (marketPath marketID ''/candles'') (candles_query p) (dec_slice Candle_UnmarshalJSON) []"

text \<open>The bars of one response, newest first, until one is older than stop or the consumer
  breaks.\<close>

fun yield_bars :: "(candle, 'y) consumer \<Rightarrow> 'y \<Rightarrow> int \<Rightarrow> candle list \<Rightarrow> bool \<times> 'y" where
  "yield_bars yield y stop [] = (True, y)"
| "yield_bars yield y stop (b # bs) =
     (if c_Timestamp b < stop then (False, y)
      else case yield y (Inr b) of (True, y) \<Rightarrow> yield_bars yield y stop bs | (False, y) \<Rightarrow> (False, y))"

abbreviation endtime_error :: go_error where
  "endtime_error \<equiv> EInvalid ''server ignored endTime''"

partial_function (option) history_walk ::
  "env \<Rightarrow> 's transport \<Rightarrow> string \<Rightarrow> (candle, 'y) consumer \<Rightarrow> int \<Rightarrow> candles_params \<Rightarrow> 's world \<Rightarrow> 'y
     \<Rightarrow> ('s world \<times> 'y) option" where
  "history_walk V t marketID yield stop p w y =
     (case FetchOHLCV V t w marketID p of
        (r, w) \<Rightarrow>
          (case r of
             Inl e \<Rightarrow> Some (w, snd (yield y (Inl e)))
           | Inr bars \<Rightarrow>
               if bars = [] then Some (w, y)
               else if EndTime p \<noteq> 0 \<and> c_Timestamp (last bars) > EndTime p
               then Some (w, snd (yield y (Inl endtime_error)))
               else
                 (case yield_bars yield y stop (rev bars) of
                    (go_on, y) \<Rightarrow>
                      (let oldest = c_Timestamp (hd bars)
                       in if \<not> go_on \<or> oldest \<le> 0 then Some (w, y)
                          else history_walk V t marketID yield stop (p\<lparr>EndTime := oldest - 1\<rparr>) w y))))"

declare history_walk.simps [code]

definition FetchOHLCVHistory ::
  "env \<Rightarrow> 's transport \<Rightarrow> 's world \<Rightarrow> string \<Rightarrow> candles_params \<Rightarrow> (candle, 'y) consumer \<Rightarrow> 'y
     \<Rightarrow> ('s world \<times> 'y) option" where
  "FetchOHLCVHistory V t w marketID p yield y =
     history_walk V t marketID yield (StartTime p) (p\<lparr>StartTime := 0\<rparr>) w y"

subsection \<open>The JSON form\<close>

definition candle_ok :: "candle \<Rightarrow> bool" where
  "candle_ok c = (in_int64 (c_Timestamp c) \<and>
     list_all num_lit [c_Open c, c_High c, c_Low c, c_Close c, c_Volume c])"

text \<open>A candle survives its JSON form digit for digit: encoding a bar of valid numbers
  succeeds, and decoding the text gives the same bar, with no price or volume rounded.\<close>

lemma candle_roundtrip:
  assumes "candle_ok c"
  shows "\<exists>j. Candle_MarshalJSON c = Some j \<and> UnmarshalNumbers Candle_UnmarshalJSON (json_print j) = Inr c"
proof -
  have n: "enc_number s = Some (JNum s)" "or_null [] dec_number (JNum s) = Inr s" if "num_lit s" for s
    using that by (cases s; simp add: enc_number_def or_null_def dec_number_def)+
  let ?j = "JArr (map JNum [show_int (c_Timestamp c), c_Open c, c_High c, c_Low c, c_Close c, c_Volume c])"
  have m: "Candle_MarshalJSON c = Some ?j"
    using assms by (simp add: Candle_MarshalJSON_def candle_ok_def n)
  have "json_ok ?j" using assms by (simp add: json_ok_def candle_ok_def max_nesting_def)
  moreover have "Candle_UnmarshalJSON ?j = Inr c"
    using assms by (simp add: Candle_UnmarshalJSON_def dec_slice_def candle_ok_def n)
  ultimately show ?thesis using m UnmarshalNumbers_print by metis
qed

subsection \<open>The walk through history\<close>

text \<open>
  A server that keeps the bars H in order and answers a request with the last k of those up
  to the requested end (0 being now), whatever k it settles on.
\<close>

definition up_to :: "int \<Rightarrow> candle list \<Rightarrow> candle list" where
  "up_to e H = (if e = 0 then H else filter (\<lambda>c. c_Timestamp c \<le> e) H)"

definition last_bars :: "nat \<Rightarrow> candle list \<Rightarrow> candle list" where
  "last_bars k H = drop (length H - k) H"

definition candles_at :: "(string \<Rightarrow> net_result) \<Rightarrow> candles_params \<Rightarrow> candle list \<Rightarrow> bool" where
  "candles_at srv p bars =
     (case srv (query_encode (candles_query p)) of
        Resp status rh (Some body) \<Rightarrow>
          200 \<le> status \<and> status \<le> 299 \<and> body \<noteq> [] \<and> length body \<le> maxBody \<and>
          UnmarshalNumbers (dec_slice Candle_UnmarshalJSON) body = Inr bars
      | _ \<Rightarrow> False)"

definition keeps_history :: "(string \<Rightarrow> net_result) \<Rightarrow> candles_params \<Rightarrow> nat \<Rightarrow> candle list \<Rightarrow> bool" where
  "keeps_history srv p k H =
     list_all (\<lambda>e. candles_at srv (p\<lparr>EndTime := e\<rparr>) (last_bars k (up_to e H)))
       (EndTime p # map (\<lambda>c. c_Timestamp c - 1) H)"

abbreviation ascending :: "candle list \<Rightarrow> bool" where
  "ascending H \<equiv> sorted_wrt (\<lambda>a b. c_Timestamp a < c_Timestamp b) H"

lemma FetchOHLCV_answered:
  assumes "answers V t srv (marketPath m ''/candles'')" "candles_at srv p bars"
  obtains w' where "FetchOHLCV V t w m p = (Inr bars, w')"
proof -
  obtain status rh body where s: "srv (query_encode (candles_query p)) = Resp status rh (Some body)"
      "200 \<le> status" "status \<le> 299" "body \<noteq> []" "length body \<le> maxBody"
      "UnmarshalNumbers (dec_slice Candle_UnmarshalJSON) body = Inr bars"
    using assms(2) by (auto simp: candles_at_def split: net_result.splits option.splits)
  show ?thesis
    by (rule Get_answered [OF assms(1) s, of w]) (use that in \<open>simp add: FetchOHLCV_def getJSON_def\<close>)
qed

lemma yield_bars_filter:
  "sorted_wrt (\<lambda>a b. c_Timestamp b < c_Timestamp a) bs \<Longrightarrow>
     yield_bars yield y stop bs =
       (let ks = filter (\<lambda>c. stop \<le> c_Timestamp c) bs
        in case yield_all yield y ks of (go_on, y') \<Rightarrow> (go_on \<and> ks = bs, y'))"
proof (induction bs arbitrary: y)
  case (Cons b bs)
  have "filter (\<lambda>c. stop \<le> c_Timestamp c) bs = []" if "c_Timestamp b < stop"
    using Cons.prems that by (auto simp: filter_empty_conv)
  then show ?case using Cons by (auto simp: Let_def split: prod.split bool.split)
qed simp

lemma up_to_split:
  assumes "ascending H" "up_to e H = A @ b # B" "0 \<le> e" "\<forall>c \<in> set H. 1 < c_Timestamp c"
  shows "up_to (c_Timestamp b - 1) H = A"
proof -
  have "ascending (up_to e H)" using assms(1) by (simp add: up_to_def sorted_wrt_filter)
  then have a: "ascending (A @ b # B)" by (simp only: assms(2))
  have "b \<in> set (up_to e H)" by (simp add: assms(2))
  then have b: "b \<in> set H" "e \<noteq> 0 \<Longrightarrow> c_Timestamp b \<le> e" by (auto simp: up_to_def split: if_splits)
  then have "up_to (c_Timestamp b - 1) H = filter (\<lambda>c. c_Timestamp c < c_Timestamp b) H"
    using assms(4) by (auto simp: up_to_def intro: filter_cong)
  also have "\<dots> = filter (\<lambda>c. c_Timestamp c < c_Timestamp b) (up_to e H)"
    using b(2) by (auto simp: up_to_def intro!: filter_cong)
  also have "\<dots> = A"
    using a by (auto simp: assms(2) sorted_wrt_append filter_empty_conv not_less less_imp_le intro!: filter_True)
  finally show ?thesis .
qed

lemma history_walk_complete:
  assumes "answers V t srv (marketPath m ''/candles'')" "0 < k" "ascending H" "\<forall>c \<in> set H. 1 < c_Timestamp c"
    and "0 \<le> EndTime p" "keeps_history srv p k H"
  shows "\<exists>w'. history_walk V t m yield stop p w y =
    Some (w', snd (yield_all yield y (filter (\<lambda>c. stop \<le> c_Timestamp c) (rev (up_to (EndTime p) H)))))"
  using assms(5,6)
proof (induction "length (up_to (EndTime p) H)" arbitrary: p w y rule: less_induct)
  case less
  let ?R = "up_to (EndTime p) H" and ?f = "filter (\<lambda>c. stop \<le> c_Timestamp c)"
  define page where "page = last_bars k ?R"
  define A where "A = take (length ?R - k) ?R"
  have R: "?R = A @ page" by (simp add: A_def page_def last_bars_def)
  have sub: "set ?R \<subseteq> set H" "ascending ?R" using assms(3) by (auto simp: up_to_def sorted_wrt_filter)
  have "candles_at srv p page" using less.prems(2) by (simp add: keeps_history_def page_def)
  then obtain w1 where F: "FetchOHLCV V t w m p = (Inr page, w1)"
    by (rule FetchOHLCV_answered [OF assms(1)])
  note step = history_walk.simps [of V t m yield stop p w y]
  show ?case
  proof (cases page)
    case Nil
    then have "?R = []" using assms(2) by (cases ?R) (auto simp: page_def last_bars_def)
    then show ?thesis by (simp add: step F Nil)
  next
    case (Cons b B)
    have last: "\<not> (EndTime p \<noteq> 0 \<and> c_Timestamp (last page) > EndTime p)"
    proof
      assume "EndTime p \<noteq> 0 \<and> c_Timestamp (last page) > EndTime p"
      moreover have "last page \<in> set ?R" using Cons by (simp add: R)
      ultimately show False by (simp add: up_to_def split: if_splits)
    qed
    have page_asc: "ascending page" using sub(2) by (simp add: R sorted_wrt_append)
    have b: "b \<in> set H" using sub(1) by (auto simp: R Cons)
    obtain go_on y1 where Y: "yield_all yield y (?f (rev page)) = (go_on, y1)" by fastforce
    have yb: "yield_bars yield y stop (rev page) = (go_on \<and> ?f (rev page) = rev page, y1)"
      using yield_bars_filter [of "rev page" yield y stop] page_asc Y by (simp add: sorted_wrt_rev)
    have A_stop: "?f (rev A) = []" if "?f (rev page) \<noteq> rev page"
    proof -
      have "\<not> (\<forall>c \<in> set (rev page). stop \<le> c_Timestamp c)" using that by (meson filter_True)
      then obtain c where c: "c \<in> set page" "c_Timestamp c < stop" by (auto simp: not_le)
      then have "\<forall>a \<in> set A. c_Timestamp a < stop" using sub(2) by (fastforce simp: R sorted_wrt_append)
      then show ?thesis by (auto simp: filter_empty_conv)
    qed
    show ?thesis
    proof (cases "go_on \<and> ?f (rev page) = rev page")
      case False
      then have "yield_all yield y (?f (rev ?R)) = (go_on, y1)"
        using A_stop Y by (cases go_on) (simp_all add: R yield_all_append)
      then show ?thesis using False last by (auto simp: step F Cons [symmetric] yb) (simp_all add: Cons)
    next
      case True
      let ?p = "p\<lparr>EndTime := c_Timestamp b - 1\<rparr>"
      have up: "up_to (EndTime ?p) H = A"
        using up_to_split [OF assms(3) _ less.prems(1) assms(4), of A b B] R Cons by simp
      have "1 < c_Timestamp b" using assms(4) b by blast
      have "keeps_history srv ?p k H"
        using less.prems(2) b by (auto simp: keeps_history_def list_all_iff)
      then obtain w' where ih: "history_walk V t m yield stop ?p w1 y1 = Some (w', snd (yield_all yield y1 (?f (rev A))))"
        using less.hyps [of ?p w1 y1] up \<open>1 < c_Timestamp b\<close> Cons by (auto simp: R)
      have "yield_all yield y (?f (rev ?R)) = yield_all yield y1 (?f (rev A))"
        using True Y by (simp add: R yield_all_append)
      then show ?thesis using True last ih \<open>1 < c_Timestamp b\<close> yb F by (auto simp: step Cons)
    qed
  qed
qed

text \<open>C6: the walk back through history is complete. Against a server that keeps any bars in
  order of time and answers each request with the last k of them up to the requested end,
  the iterator returns, and the caller has been handed every bar from the requested end back
  to StartTime, newest first, none twice and none missed, or the prefix up to where it
  broke off. (Time starts after the first millisecond of 1970; see history_restarts.)\<close>

theorem history_complete:
  assumes "answers V t srv (marketPath m ''/candles'')" "0 < k" "ascending H" "\<forall>c \<in> set H. 1 < c_Timestamp c"
    and "0 \<le> EndTime p" "keeps_history srv (p\<lparr>StartTime := 0\<rparr>) k H"
  shows "\<exists>w'. FetchOHLCVHistory V t w m p yield y =
    Some (w', snd (yield_all yield y
      (filter (\<lambda>c. StartTime p \<le> c_Timestamp c) (rev (up_to (EndTime p) H)))))"
  using history_walk_complete [OF assms(1-4) _ assms(6)] assms(5) by (simp add: FetchOHLCVHistory_def)

definition bar :: "int \<Rightarrow> candle" where
  "bar ts = \<lparr>c_Timestamp = ts, c_Open = ''1'', c_High = ''2.50'', c_Low = ''1'', c_Close = ''2'', c_Volume = ''0.1''\<rparr>"

definition two_bars :: "string \<Rightarrow> net_result" where
  "two_bars q =
     Resp 200 [] (Some
       (if q = [] then ''[[2000,1,2.50,1,2,0.1]]''
        else if q = ''endTime=1999'' then ''[[1000,1,2.50,1,2,0.1]]'' else ''[]''))"

theorem history_complete_witness:
  "map_option snd (FetchOHLCVHistory (steady_env NetFail \<lparr>e_net := (\<lambda>_ r. two_bars (r_query r))\<rparr>)
     (local_transport :: unit transport) (start_world ()) ''BTC'' \<lparr>Timeframe = [], Limit = 0, StartTime = 500, EndTime = 0\<rparr>
     (\<lambda>y r. (True, y @ [r])) []) = Some [Inr (bar 2000), Inr (bar 1000)]"
proof -
  let ?V = "steady_env NetFail \<lparr>e_net := (\<lambda>_ r. two_bars (r_query r))\<rparr>"
  let ?t = "local_transport :: unit transport"
  let ?p = "\<lparr>Timeframe = [], Limit = 0, StartTime = 500, EndTime = 0\<rparr>"
  have "path_text (after_scheme (t_base ?t) @ marketPath ''BTC'' ''/candles'')"
    by (rule path_text_plain) (simp add: plain_path_def unreserved_def marketPath_def PathEscape_def keep_segment_def)
  then have a: "answers ?V ?t two_bars (marketPath ''BTC'' ''/candles'')"
    using quiet_no_signer [of ?t] willing_no_signer [of ?t] by (simp add: answers_def steady_env_def)
  have d: "UnmarshalNumbers (dec_slice Candle_UnmarshalJSON) ''[[2000,1,2.50,1,2,0.1]]'' = Inr [bar 2000]"
    "UnmarshalNumbers (dec_slice Candle_UnmarshalJSON) ''[[1000,1,2.50,1,2,0.1]]'' = Inr [bar 1000]"
    "UnmarshalNumbers (dec_slice Candle_UnmarshalJSON) ''[]'' = Inr []"
    by code_simp+
  have q: "query_encode [] = []" "query_encode [(''endTime'', ''1999'')] = ''endTime=1999''"
    "query_encode [(''endTime'', ''999'')] = ''endTime=999''" by code_simp+
  have n: "show_int 1999 = ''1999''" "show_int 999 = ''999''" by code_simp+
  have k: "keeps_history two_bars (?p\<lparr>StartTime := 0\<rparr>) 1 [bar 1000, bar 2000]"
    by (simp add: keeps_history_def candles_at_def candles_query_def setInt_def qset_def q n two_bars_def d
        last_bars_def up_to_def bar_def maxBody_def)
  obtain w' where "FetchOHLCVHistory ?V ?t (start_world ()) ''BTC'' ?p (\<lambda>y r. (True, y @ [r])) [] =
      Some (w', snd (yield_all (\<lambda>y r. (True, y @ [r])) []
        (filter (\<lambda>c. StartTime ?p \<le> c_Timestamp c) (rev (up_to (EndTime ?p) [bar 1000, bar 2000])))))"
    using history_complete [OF a _ _ _ _ k, of "start_world ()" "\<lambda>y r. (True, y @ [r])" "[]"] by (auto simp: bar_def)
  then show ?thesis by (simp add: up_to_def bar_def)
qed

text \<open>
  The one timestamp the walk cannot step over: a page whose oldest bar is at 1 ms makes the
  next end 0, which the parameters send as no end at all, so the walk starts again from now
  and hands out the same bars forever.
\<close>

lemma history_restarts:
  assumes "answers V t srv (marketPath m ''/candles'')" "candles_at srv p [b]" "c_Timestamp b = 1"
    and "EndTime p = 0" "stop \<le> 1" "\<forall>y r. fst (yield y r)"
  shows "history_walk V t m yield stop p w y = None"
proof -
  let ?P = "\<lambda>V t m yield stop p w y r. answers V t srv (marketPath m ''/candles'') \<longrightarrow> candles_at srv p [b] \<longrightarrow>
    EndTime p = 0 \<longrightarrow> stop \<le> 1 \<longrightarrow> (\<forall>y r. fst (yield y r)) \<longrightarrow> False"
  have False if h: "history_walk V t m yield stop p w y = Some r" for r
  proof -
    have "?P V t m yield stop p w y r"
    proof (rule history_walk.raw_induct [where P = ?P, OF _ h], intro impI)
      fix f V t m yield stop p w y r
      assume ih: "\<And>V t m yield stop p w y r. f V t m yield stop p w y = Some r \<Longrightarrow> ?P V t m yield stop p w y r"
        and eq: "(case FetchOHLCV V t w m p of (r, w) \<Rightarrow>
          (case r of Inl e \<Rightarrow> Some (w, snd (yield y (Inl e)))
           | Inr bars \<Rightarrow>
               if bars = [] then Some (w, y)
               else if EndTime p \<noteq> 0 \<and> c_Timestamp (last bars) > EndTime p
               then Some (w, snd (yield y (Inl endtime_error)))
               else (case yield_bars yield y stop (rev bars) of (go_on, y) \<Rightarrow>
                 (let oldest = c_Timestamp (hd bars)
                  in if \<not> go_on \<or> oldest \<le> 0 then Some (w, y)
                     else f V t m yield stop (p\<lparr>EndTime := oldest - 1\<rparr>) w y)))) = Some r"
        and h: "answers V t srv (marketPath m ''/candles'')" "candles_at srv p [b]" "EndTime p = 0" "stop \<le> 1"
          "\<forall>y r. fst (yield y r)"
      obtain w1 where F: "FetchOHLCV V t w m p = (Inr [b], w1)" by (rule FetchOHLCV_answered [OF h(1,2)])
      obtain y1 where y: "yield y (Inr b) = (True, y1)" using h(5) by (metis (full_types) prod.exhaust_sel)
      have e: "p\<lparr>EndTime := 0\<rparr> = p" using h(3) by simp
      have "f V t m yield stop (p\<lparr>EndTime := 0\<rparr>) w1 y1 = Some r" using eq h(3,4) F y assms(3) by simp
      then have "f V t m yield stop p w1 y1 = Some r" unfolding e .
      then show False using ih h by blast
    qed
    then show False using assms by blast
  qed
  then show ?thesis by (cases "history_walk V t m yield stop p w y") auto
qed

end
