(* ===== verification/Socket.thy ===== *)
theory Socket
  imports Transport
begin

section \<open>The reconnect loop of the streams (socket.go)\<close>

text \<open>
  One socket is read by one goroutine, closed from any, and watched by a keepalive; its
  mutex makes the code between Lock and Unlock atomic. Here each atomic part is a function,
  the place a goroutine has reached between two of them is its \<open>phase\<close>, and an
  \<open>action\<close> says which goroutine moves next and what the network, the clock and the context
  tell it. A process holds a list of sockets and the slots they share. Connections are
  numbered as they are dialled; \<open>live\<close> holds those not yet closed.
\<close>

definition maxConnections :: nat where
  "maxConnections = 5"

definition healthyAfter :: int where
  "healthyAfter = 5 * second"

datatype socket_error =
    ErrTooManyConnections
  | ErrStreamClosed
  | ErrConnectionStale
  | ErrCtx
  | ErrNet

datatype outcome =
    Frame
  | Disconnected socket_error
  | Reconnected
  | Failure socket_error

text \<open>Where the reading goroutine is. openSocket's own connect has phases of its own, since
  nobody else holds the socket yet.\<close>

datatype phase =
    Opening
  | OpenGreet nat
  | OpenFailed socket_error
  | Dead
  | Idle
  | Waiting
  | Dialing
  | Greeting nat
  | Reading nat
  | Dropping nat outcome

record socket =
  minDelay :: int
  maxDelay :: int
  pingEvery :: int
  sk_conn :: "nat option"
  sk_closed :: bool
  sk_alive :: "bool option"  \<comment> \<open>the keepalive's context: None when off, Some True when it ended stale\<close>
  sk_freed :: bool
  sk_delay :: int
  sk_opened :: int
  sk_delivered :: bool
  sk_phase :: phase
  sk_closer :: "nat option option"  \<comment> \<open>a Close past its critical section, with the conn to close\<close>

text \<open>\<open>openSocket\<close>: the socket as it is when the slot is taken.\<close>

definition new_socket :: "int \<Rightarrow> socket" where
  "new_socket ping =
     \<lparr>minDelay = 500 * 1000000, maxDelay = 30 * second, pingEvery = ping, sk_conn = None,
      sk_closed = False, sk_alive = None, sk_freed = False, sk_delay = 0, sk_opened = 0,
      sk_delivered = False, sk_phase = Opening, sk_closer = None\<rparr>"

text \<open>\<open>connect\<close>, from Lock on: what happens to a connection just dialled. hello is whether
  its greeting could be written.\<close>

definition connect_locked :: "bool \<Rightarrow> int \<Rightarrow> nat \<Rightarrow> socket \<Rightarrow> socket_error + socket" where
  "connect_locked hello now c s =
     (if sk_closed s then Inl ErrStreamClosed
      else if \<not> hello then Inl ErrNet
      else Inr (s\<lparr>sk_conn := Some c, sk_opened := now, sk_delivered := False,
                  sk_alive := (if pingEvery s > 0 then Some False else sk_alive s)\<rparr>))"

text \<open>\<open>endAlive\<close>.\<close>

definition endAlive :: "socket \<Rightarrow> bool \<times> socket" where
  "endAlive s = (case sk_alive s of None \<Rightarrow> (False, s) | Some stale \<Rightarrow> (stale, s\<lparr>sk_alive := None\<rparr>))"

text \<open>\<open>wait\<close>: the next delay, and the jittered sleep drawn from it.\<close>

definition next_delay :: "socket \<Rightarrow> int" where
  "next_delay s = min (max (2 * sk_delay s) (minDelay s)) (maxDelay s)"

definition wait_begin :: "socket \<Rightarrow> socket" where
  "wait_begin s = s\<lparr>sk_delay := next_delay s\<rparr>"

definition wait_sleep :: "nat \<Rightarrow> socket \<Rightarrow> int" where
  "wait_sleep r s = rand_N r (sk_delay s + 1)"

text \<open>\<open>read\<close> after conn.Read failed: the critical section and the choice of the result.
  ctx is whether the caller's context is done.\<close>

definition read_failed :: "bool \<Rightarrow> int \<Rightarrow> socket \<Rightarrow> outcome \<times> socket" where
  "read_failed ctx now s =
     (let closed = sk_closed s;
          (stale, s) = endAlive (s\<lparr>sk_conn := None\<rparr>);
          err = (if stale then ErrConnectionStale else ErrNet);
          s = (if sk_delivered s \<or> now - sk_opened s \<ge> healthyAfter then s\<lparr>sk_delay := 0\<rparr> else s)
      in (if closed then Failure ErrStreamClosed
          else if ctx then Failure ErrCtx else Disconnected err, s))"

text \<open>\<open>read\<close> when a reconnect failed with err.\<close>

definition reconnect_failed :: "bool \<Rightarrow> socket_error \<Rightarrow> outcome" where
  "reconnect_failed ctx err =
     (if err = ErrStreamClosed then Failure ErrStreamClosed
      else if ctx then Failure ErrCtx else Disconnected err)"

text \<open>\<open>close\<close>, the critical section: None when the socket was closed before.\<close>

definition close_locked :: "socket \<Rightarrow> socket option" where
  "close_locked s =
     (if sk_closed s then None
      else Some (snd (endAlive (s\<lparr>sk_closed := True, sk_conn := None, sk_closer := Some (sk_conn s)\<rparr>))))"

subsection \<open>The process\<close>

record process =
  slots :: nat
  live :: "nat set"
  fresh :: nat
  socks :: "socket list"

definition start :: process where
  "start = \<lparr>slots = 0, live = {}, fresh = 0, socks = []\<rparr>"

datatype action =
    AOpen int            \<comment> \<open>openSocket takes a slot\<close>
  | ADial nat bool bool  \<comment> \<open>a dial of socket i ends: whether it succeeded, whether ctx is done\<close>
  | AGreet nat bool int bool
  | ARelease nat         \<comment> \<open>openSocket gives its slot back\<close>
  | ANext nat            \<comment> \<open>Next is called\<close>
  | ATimer nat           \<comment> \<open>the select in wait\<close>
  | ACtx nat
  | ADone nat
  | AFrame nat
  | AReadError nat bool int
  | ACloseNow nat
  | AClose nat
  | ACloserRelease nat
  | ACloserClose nat
  | AStale nat           \<comment> \<open>the keepalive's ping timed out\<close>
  | ALost nat            \<comment> \<open>the other end drops connection c\<close>

text \<open>The result of an action: what a call returns, if one does, and the next state; None
  where the goroutine is not at that point.\<close>

definition put :: "process \<Rightarrow> nat \<Rightarrow> socket \<Rightarrow> process" where
  "put P i s = P\<lparr>socks := (socks P)[i := s]\<rparr>"

definition kill :: "nat \<Rightarrow> process \<Rightarrow> process" where
  "kill c P = P\<lparr>live := live P - {c}\<rparr>"

definition dial_end :: "process \<Rightarrow> nat \<Rightarrow> bool \<Rightarrow> bool \<Rightarrow> (outcome option \<times> process) option" where
  "dial_end P i ok ctx =
     (let s = socks P ! i; P' = P\<lparr>live := insert (fresh P) (live P), fresh := Suc (fresh P)\<rparr> in
      case sk_phase s of
        Opening \<Rightarrow>
          Some (None, if ok then put P' i (s\<lparr>sk_phase := OpenGreet (fresh P)\<rparr>)
                      else put P i (s\<lparr>sk_phase := OpenFailed ErrNet\<rparr>))
      | Dialing \<Rightarrow>
          Some (if ok then (None, put P' i (s\<lparr>sk_phase := Greeting (fresh P)\<rparr>))
                else (Some (reconnect_failed ctx ErrNet), put P i (s\<lparr>sk_phase := Idle\<rparr>)))
      | _ \<Rightarrow> None)"

definition greet_end :: "process \<Rightarrow> nat \<Rightarrow> bool \<Rightarrow> int \<Rightarrow> bool \<Rightarrow> (outcome option \<times> process) option" where
  "greet_end P i hello now ctx =
     (let s = socks P ! i in
      case sk_phase s of
        OpenGreet c \<Rightarrow>
          Some (None, case connect_locked hello now c s of
                        Inl e \<Rightarrow> put (kill c P) i (s\<lparr>sk_phase := OpenFailed e\<rparr>)
                      | Inr s \<Rightarrow> put P i (s\<lparr>sk_phase := Idle\<rparr>))
      | Greeting c \<Rightarrow>
          Some (case connect_locked hello now c s of
                  Inl e \<Rightarrow> (Some (reconnect_failed ctx e), put (kill c P) i (s\<lparr>sk_phase := Idle\<rparr>))
                | Inr s \<Rightarrow> (Some Reconnected, put P i (s\<lparr>sk_phase := Idle\<rparr>)))
      | _ \<Rightarrow> None)"

definition next_begin :: "process \<Rightarrow> nat \<Rightarrow> (outcome option \<times> process) option" where
  "next_begin P i =
     (let s = socks P ! i in
      if sk_phase s \<noteq> Idle then None
      else if sk_closed s then Some (Some (Failure ErrStreamClosed), P)
      else case sk_conn s of
             None \<Rightarrow> Some (None, put P i ((wait_begin s)\<lparr>sk_phase := Waiting\<rparr>))
           | Some c \<Rightarrow> Some (None, put P i (s\<lparr>sk_phase := Reading c\<rparr>)))"

text \<open>The select in wait: the timer, the caller's context, or Close. Go picks any that is
  ready.\<close>

definition wait_end :: "process \<Rightarrow> nat \<Rightarrow> action \<Rightarrow> (outcome option \<times> process) option" where
  "wait_end P i a =
     (let s = socks P ! i in
      if sk_phase s \<noteq> Waiting then None
      else case a of
             ATimer _ \<Rightarrow> Some (None, put P i (s\<lparr>sk_phase := Dialing\<rparr>))
           | ACtx _ \<Rightarrow> Some (Some (Failure ErrCtx), put P i (s\<lparr>sk_phase := Idle\<rparr>))
           | ADone _ \<Rightarrow>
               if sk_closed s then Some (Some (Failure ErrStreamClosed), put P i (s\<lparr>sk_phase := Idle\<rparr>)) else None
           | _ \<Rightarrow> None)"

text \<open>conn.Read: a frame, which needs the connection, or an error, which always may come.\<close>

definition frame_read :: "process \<Rightarrow> nat \<Rightarrow> (outcome option \<times> process) option" where
  "frame_read P i =
     (let s = socks P ! i in
      case sk_phase s of
        Reading c \<Rightarrow>
          if c \<in> live P then Some (Some Frame, put P i (s\<lparr>sk_delivered := True, sk_phase := Idle\<rparr>)) else None
      | _ \<Rightarrow> None)"

definition read_error :: "process \<Rightarrow> nat \<Rightarrow> bool \<Rightarrow> int \<Rightarrow> (outcome option \<times> process) option" where
  "read_error P i ctx now =
     (let s = socks P ! i in
      case sk_phase s of
        Reading c \<Rightarrow> (case read_failed ctx now s of (out, s) \<Rightarrow> Some (None, put P i (s\<lparr>sk_phase := Dropping c out\<rparr>)))
      | _ \<Rightarrow> None)"

definition close_now :: "process \<Rightarrow> nat \<Rightarrow> (outcome option \<times> process) option" where
  "close_now P i =
     (let s = socks P ! i in
      case sk_phase s of
        Dropping c out \<Rightarrow> Some (Some out, put (kill c P) i (s\<lparr>sk_phase := Idle\<rparr>))
      | _ \<Rightarrow> None)"

text \<open>\<open>release\<close>: sync.Once frees the slot at most once.\<close>

definition release :: "process \<Rightarrow> nat \<Rightarrow> process" where
  "release P i =
     (let s = socks P ! i in
      if sk_freed s then P else put (P\<lparr>slots := slots P - 1\<rparr>) i (s\<lparr>sk_freed := True\<rparr>))"

text \<open>Whether the socket has been handed to the caller, so that it can be closed.\<close>

definition published :: "socket \<Rightarrow> bool" where
  "published s = (case sk_phase s of Opening \<Rightarrow> False | OpenGreet _ \<Rightarrow> False | OpenFailed _ \<Rightarrow> False | Dead \<Rightarrow> False | _ \<Rightarrow> True)"

fun exec :: "action \<Rightarrow> process \<Rightarrow> (outcome option \<times> process) option" where
  "exec (AOpen ping) P =
     (if slots P < maxConnections
      then Some (None, P\<lparr>slots := Suc (slots P), socks := socks P @ [new_socket ping]\<rparr>)
      else Some (Some (Failure ErrTooManyConnections), P))"
| "exec (ADial i ok ctx) P = (if i < length (socks P) then dial_end P i ok ctx else None)"
| "exec (AGreet i hello now ctx) P = (if i < length (socks P) then greet_end P i hello now ctx else None)"
| "exec (ARelease i) P =
     (if i < length (socks P)
      then (case sk_phase (socks P ! i) of
              OpenFailed e \<Rightarrow> Some (Some (Failure e), put (release P i) i ((socks (release P i) ! i)\<lparr>sk_phase := Dead\<rparr>))
            | _ \<Rightarrow> None)
      else None)"
| "exec (ANext i) P = (if i < length (socks P) then next_begin P i else None)"
| "exec (ATimer i) P = (if i < length (socks P) then wait_end P i (ATimer i) else None)"
| "exec (ACtx i) P = (if i < length (socks P) then wait_end P i (ACtx i) else None)"
| "exec (ADone i) P = (if i < length (socks P) then wait_end P i (ADone i) else None)"
| "exec (AFrame i) P = (if i < length (socks P) then frame_read P i else None)"
| "exec (AReadError i ctx now) P = (if i < length (socks P) then read_error P i ctx now else None)"
| "exec (ACloseNow i) P = (if i < length (socks P) then close_now P i else None)"
| "exec (AClose i) P =
     (if i < length (socks P) \<and> published (socks P ! i)
      then Some (None, case close_locked (socks P ! i) of None \<Rightarrow> P | Some s \<Rightarrow> put P i s)
      else None)"
| "exec (ACloserRelease i) P =
     (if i < length (socks P) \<and> sk_closer (socks P ! i) \<noteq> None then Some (None, release P i) else None)"
| "exec (ACloserClose i) P =
     (if i < length (socks P)
      then (case sk_closer (socks P ! i) of
              Some x \<Rightarrow>
                if sk_freed (socks P ! i)
                then Some (None, (case x of None \<Rightarrow> id | Some c \<Rightarrow> kill c) (put P i ((socks P ! i)\<lparr>sk_closer := None\<rparr>)))
                else None
            | None \<Rightarrow> None)
      else None)"
| "exec (AStale i) P =
     (if i < length (socks P)
      then (case (sk_conn (socks P ! i), sk_alive (socks P ! i)) of
              (Some c, Some False) \<Rightarrow> Some (None, kill c (put P i ((socks P ! i)\<lparr>sk_alive := Some True\<rparr>)))
            | _ \<Rightarrow> None)
      else None)"
| "exec (ALost c) P = Some (None, kill c P)"

fun run :: "action list \<Rightarrow> process \<Rightarrow> (outcome option list \<times> process) option" where
  "run [] P = Some ([], P)"
| "run (a # as) P =
     (case exec a P of
        None \<Rightarrow> None
      | Some (out, P) \<Rightarrow> map_option (\<lambda>(outs, P). (out # outs, P)) (run as P))"

inductive reach :: "process \<Rightarrow> bool" where
  init: "reach start"
| act: "reach P \<Longrightarrow> exec a P = Some (out, P') \<Longrightarrow> reach P'"

lemma reach_run: "reach P \<Longrightarrow> run as P = Some (outs, P') \<Longrightarrow> reach P'"
proof (induction as arbitrary: P outs)
  case (Cons a as)
  then show ?case by (auto split: option.splits intro: reach.act)
qed simp

subsection \<open>The invariant\<close>

text \<open>The connections a socket's goroutines still have to close. A reader in conn.Read holds
  one only through the socket.\<close>

fun phase_conns :: "phase \<Rightarrow> nat set" where
  "phase_conns (OpenGreet c) = {c}"
| "phase_conns (Greeting c) = {c}"
| "phase_conns (Dropping c out) = {c}"
| "phase_conns _ = {}"

definition owned :: "socket \<Rightarrow> nat set" where
  "owned s = set_option (sk_conn s) \<union> phase_conns (sk_phase s) \<union>
     (case sk_closer s of Some (Some c) \<Rightarrow> {c} | _ \<Rightarrow> {})"

fun connecting :: "phase \<Rightarrow> bool" where
  "connecting Opening = True"
| "connecting (OpenGreet c) = True"
| "connecting (OpenFailed e) = True"
| "connecting Dead = True"
| "connecting Waiting = True"
| "connecting Dialing = True"
| "connecting (Greeting c) = True"
| "connecting (Dropping c out) = True"
| "connecting _ = False"

definition sock_inv :: "socket \<Rightarrow> bool" where
  "sock_inv s =
     ((if sk_closed s
       then sk_conn s = None \<and> published s \<and> (sk_closer s = None \<longrightarrow> sk_freed s)
       else sk_closer s = None \<and> (sk_freed s \<longleftrightarrow> sk_phase s = Dead)) \<and>
      (connecting (sk_phase s) \<longrightarrow> sk_conn s = None) \<and>
      (\<forall>c. sk_phase s = Reading c \<longrightarrow> sk_closed s \<or> sk_conn s = Some c) \<and>
      (sk_conn s = None \<longrightarrow> sk_alive s = None) \<and>
      0 < minDelay s \<and> minDelay s \<le> maxDelay s \<and>
      (sk_delay s = 0 \<or> minDelay s \<le> sk_delay s \<and> sk_delay s \<le> maxDelay s))"

definition own :: "process \<Rightarrow> nat set" where
  "own P = (\<Union>s \<in> set (socks P). owned s)"

definition holding :: "process \<Rightarrow> nat" where
  "holding P = length (filter (\<lambda>s. \<not> sk_freed s) (socks P))"

definition proc_inv :: "process \<Rightarrow> bool" where
  "proc_inv P = (slots P = holding P \<and> slots P \<le> maxConnections \<and> (\<forall>s \<in> set (socks P). sock_inv s) \<and> live P \<subseteq> own P)"

named_theorems sections "the atomic parts of the socket"

declare connect_locked_def [sections] endAlive_def [sections] read_failed_def [sections]
  close_locked_def [sections] wait_begin_def [sections] next_delay_def [sections]

lemma put_fields [simp]:
  "slots (put P i s) = slots P" "live (put P i s) = live P" "fresh (put P i s) = fresh P"
  "socks (put P i s) = (socks P)[i := s]"
  by (simp_all add: put_def)

lemma kill_fields [simp]:
  "slots (kill c P) = slots P" "live (kill c P) = live P - {c}" "fresh (kill c P) = fresh P"
  "socks (kill c P) = socks P"
  by (simp_all add: kill_def)

lemma holding_update:
  assumes "i < length (socks P)" "sk_freed s = sk_freed (socks P ! i)"
  shows "length (filter (\<lambda>s. \<not> sk_freed s) ((socks P)[i := s])) = holding P"
proof -
  have "map sk_freed ((socks P)[i := s]) = map sk_freed (socks P)"
    using assms by (simp add: map_update list_update_same_conv)
  then have "length (filter Not (map sk_freed ((socks P)[i := s]))) = length (filter Not (map sk_freed (socks P)))"
    by simp
  then show ?thesis by (simp add: holding_def filter_map comp_def)
qed

lemma own_update:
  assumes "i < length (socks P)" "live P \<subseteq> own P" "owned (socks P ! i) \<subseteq> owned s \<union> K" "L \<subseteq> live P \<union> owned s - K"
  shows "L \<subseteq> (\<Union>s \<in> set ((socks P)[i := s]). owned s)"
proof
  fix c assume c: "c \<in> L"
  have s: "s \<in> set ((socks P)[i := s])" using assms(1) by (rule set_update_memI)
  show "c \<in> (\<Union>s \<in> set ((socks P)[i := s]). owned s)"
  proof (cases "c \<in> owned s")
    case False
    then have "c \<in> own P" "c \<notin> K" using c assms(2,4) by blast+
    then obtain j where j: "j < length (socks P)" "c \<in> owned (socks P ! j)"
      by (auto simp: own_def in_set_conv_nth)
    then have "j \<noteq> i" using False \<open>c \<notin> K\<close> assms(3) by blast
    then have "socks P ! j \<in> set ((socks P)[i := s])" using j(1) by (metis length_list_update nth_list_update_neq nth_mem)
    then show ?thesis using j(2) by blast
  qed (use s in blast)
qed

text \<open>One step of socket i that leaves its slot alone: its own invariant, and its old
  connections still owned or closed.\<close>

lemma put_inv:
  assumes "proc_inv P" "i < length (socks P)" "sock_inv s" "sk_freed s = sk_freed (socks P ! i)"
    and "owned (socks P ! i) \<subseteq> owned s \<union> K" "live Q \<subseteq> live P \<union> owned s - K"
    and "slots Q = slots P" "socks Q = (socks P)[i := s]"
  shows "proc_inv Q"
proof -
  have "live Q \<subseteq> own Q"
    unfolding own_def assms(8) using assms(1) by (intro own_update [OF assms(2) _ assms(5,6)]) (simp add: proc_inv_def)
  moreover have "holding Q = holding P" using holding_update [OF assms(2,4)] by (simp add: holding_def assms(8))
  moreover have "\<forall>s \<in> set (socks Q). sock_inv s"
    using assms(1,3,8) by (auto simp: proc_inv_def dest: set_update_subset_insert [THEN subsetD])
  ultimately show ?thesis using assms(1,7) by (simp add: proc_inv_def)
qed

lemma sock_at: "proc_inv P \<Longrightarrow> i < length (socks P) \<Longrightarrow> sock_inv (socks P ! i)"
  by (simp add: proc_inv_def)

lemma delay_step:
  assumes "sock_inv s" shows "minDelay s \<le> next_delay s \<and> next_delay s \<le> maxDelay s"
  using assms by (auto simp: sock_inv_def next_delay_def)

lemmas inv_defs = sock_inv_def owned_def published_def

text \<open>Moving on to another phase.\<close>

lemma phase_inv:
  assumes P: "proc_inv P" "i < length (socks P)" and s: "s = socks P ! i" "sock_inv (s\<lparr>sk_phase := p\<rparr>)"
    and c: "phase_conns (sk_phase s) \<subseteq> phase_conns p \<union> K" "live Q \<subseteq> live P \<union> phase_conns p - K"
      "slots Q = slots P" "socks Q = (socks P)[i := s\<lparr>sk_phase := p\<rparr>]"
  shows "proc_inv Q"
  by (rule put_inv [OF P s(2), of K]) (use s(1) c in \<open>auto simp: owned_def\<close>)

lemma dial_inv:
  assumes P: "proc_inv P" "i < length (socks P)" and e: "dial_end P i ok ctx = Some (out, Q)"
  shows "proc_inv Q"
proof -
  let ?s = "socks P ! i"
  have s: "sock_inv ?s" using P by (rule sock_at)
  show ?thesis
  proof (cases "sk_phase ?s")
    case Opening
    then have i: "sock_inv (?s\<lparr>sk_phase := OpenGreet c\<rparr>)" "sock_inv (?s\<lparr>sk_phase := OpenFailed err\<rparr>)" for c err
      using s by (cases "sk_closed ?s"; simp add: inv_defs)+
    show ?thesis
    proof (cases ok)
      case True
      then show ?thesis using e Opening by (intro phase_inv [OF P refl i(1), where K = "{}"]) (auto simp: dial_end_def)
    next
      case False
      then show ?thesis using e Opening by (intro phase_inv [OF P refl i(2), where K = "{}"]) (auto simp: dial_end_def)
    qed
  next
    case Dialing
    then have i: "sock_inv (?s\<lparr>sk_phase := Greeting c\<rparr>)" "sock_inv (?s\<lparr>sk_phase := Idle\<rparr>)" for c
      using s by (cases "sk_closed ?s"; simp add: inv_defs)+
    show ?thesis
    proof (cases ok)
      case True
      then show ?thesis using e Dialing by (intro phase_inv [OF P refl i(1), where K = "{}"]) (auto simp: dial_end_def)
    next
      case False
      then show ?thesis using e Dialing by (intro phase_inv [OF P refl i(2), where K = "{}"]) (auto simp: dial_end_def)
    qed
  qed (use e in \<open>simp_all add: dial_end_def Let_def\<close>)
qed

lemma greet_inv:
  assumes P: "proc_inv P" "i < length (socks P)" and e: "greet_end P i hello now ctx = Some (out, Q)"
  shows "proc_inv Q"
proof -
  let ?s = "socks P ! i"
  have s: "sock_inv ?s" using P by (rule sock_at)
  obtain c where c: "sk_phase ?s = OpenGreet c \<or> sk_phase ?s = Greeting c"
    using e by (auto simp: greet_end_def Let_def split: phase.splits)
  show ?thesis
  proof (cases "connect_locked hello now c ?s")
    case (Inl err)
    show ?thesis
    proof (cases "sk_phase ?s = OpenGreet c")
      case True
      then have "sock_inv (?s\<lparr>sk_phase := OpenFailed err\<rparr>)" using s by (cases "sk_closed ?s") (simp_all add: inv_defs)
      then show ?thesis using e True by (intro phase_inv [OF P refl, where K = "{c}"]) (auto simp: greet_end_def Inl)
    next
      case False
      then have "sock_inv (?s\<lparr>sk_phase := Idle\<rparr>)" using s c by (cases "sk_closed ?s") (auto simp: inv_defs)
      then show ?thesis using e False c by (intro phase_inv [OF P refl, where K = "{c}"]) (auto simp: greet_end_def Inl)
    qed
  next
    case (Inr s')
    then have s': "s' = ?s\<lparr>sk_conn := Some c, sk_opened := now, sk_delivered := False,
        sk_alive := (if pingEvery ?s > 0 then Some False else sk_alive ?s)\<rparr>" "\<not> sk_closed ?s"
      by (simp_all add: connect_locked_def split: if_splits)
    have ph: "connecting (sk_phase ?s)" "sk_phase ?s \<noteq> Dead" using c by auto
    have i: "sock_inv (s'\<lparr>sk_phase := Idle\<rparr>)" "sk_closer ?s = None" "sk_conn ?s = None"
      using s ph s'(2) unfolding s'(1) by (simp_all add: inv_defs)
    have "socks Q = (socks P)[i := s'\<lparr>sk_phase := Idle\<rparr>]" "slots Q = slots P" "live Q = live P"
      using e c by (auto simp: greet_end_def Inr)
    then show ?thesis
      by (intro put_inv [OF P i(1), where K = "{}"]) (use i(2,3) c s'(1) in \<open>auto simp: owned_def\<close>)
  qed
qed

lemma next_inv:
  assumes P: "proc_inv P" "i < length (socks P)" and e: "next_begin P i = Some (out, Q)"
  shows "proc_inv Q"
proof -
  let ?s = "socks P ! i"
  have s: "sock_inv ?s" using P by (rule sock_at)
  have idle: "sk_phase ?s = Idle" using e by (auto simp: next_begin_def Let_def split: if_splits)
  show ?thesis
  proof (cases "sk_closed ?s")
    case True
    then have "Q = P" using e idle by (simp add: next_begin_def Let_def)
    then show ?thesis using P by simp
  next
    case up: False
    show ?thesis
    proof (cases "sk_conn ?s")
      case None
      have Q: "Q = put P i ((wait_begin ?s)\<lparr>sk_phase := Waiting\<rparr>)" using e idle up None by (simp add: next_begin_def Let_def)
      have "sock_inv ((wait_begin ?s)\<lparr>sk_phase := Waiting\<rparr>)"
        using s None idle up delay_step [OF s] by (simp add: inv_defs wait_begin_def)
      then show ?thesis unfolding Q
        by (rule put_inv [OF P, where K = "{}"]) (use None idle in \<open>simp_all add: owned_def wait_begin_def\<close>)
    next
      case (Some c)
      have Q: "Q = put P i (?s\<lparr>sk_phase := Reading c\<rparr>)" using e idle up Some by (simp add: next_begin_def Let_def)
      have "sock_inv (?s\<lparr>sk_phase := Reading c\<rparr>)" using s Some idle up by (simp add: inv_defs)
      then show ?thesis unfolding Q by (rule phase_inv [OF P refl, where K = "{}"]) (use idle in simp_all)
    qed
  qed
qed

lemma wait_inv:
  assumes P: "proc_inv P" "i < length (socks P)" and e: "wait_end P i a = Some (out, Q)"
  shows "proc_inv Q"
proof -
  let ?s = "socks P ! i"
  have s: "sock_inv ?s" using P by (rule sock_at)
  have w: "sk_phase ?s = Waiting" using e by (auto simp: wait_end_def Let_def split: if_splits)
  obtain p where p: "p \<in> {Idle, Dialing}" "Q = put P i (?s\<lparr>sk_phase := p\<rparr>)"
    using e w by (auto simp: wait_end_def Let_def split: action.splits if_splits)
  have "sock_inv (?s\<lparr>sk_phase := p\<rparr>)" using s w p(1) by (cases "sk_closed ?s") (auto simp: inv_defs)
  then show ?thesis by (rule phase_inv [OF P refl, where K = "{}"]) (use p w in auto)
qed

lemma frame_inv:
  assumes P: "proc_inv P" "i < length (socks P)" and e: "frame_read P i = Some (out, Q)"
  shows "proc_inv Q"
proof -
  let ?s = "socks P ! i"
  have s: "sock_inv ?s" using P by (rule sock_at)
  obtain c where c: "sk_phase ?s = Reading c" "Q = put P i (?s\<lparr>sk_delivered := True, sk_phase := Idle\<rparr>)"
    using e by (auto simp: frame_read_def Let_def split: phase.splits if_splits)
  have "sock_inv (?s\<lparr>sk_delivered := True, sk_phase := Idle\<rparr>)"
    using s c(1) by (cases "sk_closed ?s") (simp_all add: inv_defs)
  moreover have "sk_freed (?s\<lparr>sk_delivered := True, sk_phase := Idle\<rparr>) = sk_freed ?s" by simp
  moreover have "owned ?s \<subseteq> owned (?s\<lparr>sk_delivered := True, sk_phase := Idle\<rparr>) \<union> {}" using c by (simp add: owned_def)
  ultimately show ?thesis by (rule put_inv [OF P]) (simp_all add: c)
qed

lemma error_inv:
  assumes P: "proc_inv P" "i < length (socks P)" and e: "read_error P i ctx now = Some (out, Q)"
  shows "proc_inv Q"
proof -
  let ?s = "socks P ! i"
  have s: "sock_inv ?s" using P by (rule sock_at)
  obtain c where c: "sk_phase ?s = Reading c"
    using e by (auto simp: read_error_def Let_def split: phase.splits)
  obtain o' s' where r: "read_failed ctx now ?s = (o', s')" by fastforce
  have Q: "Q = put P i (s'\<lparr>sk_phase := Dropping c o'\<rparr>)" using e c r by (simp add: read_error_def Let_def)
  have f: "sk_conn s' = None" "sk_alive s' = None" "sk_closed s' = sk_closed ?s" "sk_freed s' = sk_freed ?s"
    "sk_closer s' = sk_closer ?s" "sk_delay s' \<in> {0, sk_delay ?s}" "minDelay s' = minDelay ?s" "maxDelay s' = maxDelay ?s"
    using r by (auto simp: read_failed_def Let_def endAlive_def split: option.splits if_splits)
  have "sock_inv (s'\<lparr>sk_phase := Dropping c o'\<rparr>)"
    using s f c by (cases "sk_closed ?s") (auto simp: inv_defs)
  moreover have "sk_conn ?s = None \<or> sk_conn ?s = Some c" using s c by (cases "sk_closed ?s") (simp_all add: inv_defs)
  ultimately show ?thesis unfolding Q
    by (intro put_inv [OF P, where K = "{}"]) (use f c in \<open>auto simp: owned_def\<close>)
qed

lemma close_now_inv:
  assumes P: "proc_inv P" "i < length (socks P)" and e: "close_now P i = Some (out, Q)"
  shows "proc_inv Q"
proof -
  let ?s = "socks P ! i"
  have s: "sock_inv ?s" using P by (rule sock_at)
  obtain c o' where c: "sk_phase ?s = Dropping c o'" "Q = put (kill c P) i (?s\<lparr>sk_phase := Idle\<rparr>)"
    using e by (auto simp: close_now_def Let_def split: phase.splits)
  have "sock_inv (?s\<lparr>sk_phase := Idle\<rparr>)" using s c(1) by (cases "sk_closed ?s") (simp_all add: inv_defs)
  then show ?thesis by (rule phase_inv [OF P refl, where K = "{c}"]) (use c in auto)
qed

lemma close_inv:
  assumes P: "proc_inv P" "i < length (socks P)" "published (socks P ! i)" and e: "close_locked (socks P ! i) = Some s'"
  shows "proc_inv (put P i s')"
proof -
  let ?s = "socks P ! i"
  have s: "sock_inv ?s" using P(1,2) by (rule sock_at)
  have up: "\<not> sk_closed ?s" using e by (simp add: close_locked_def split: if_splits)
  have f: "sk_conn s' = None" "sk_alive s' = None" "sk_closed s'" "sk_freed s' = sk_freed ?s" "sk_phase s' = sk_phase ?s"
    "sk_closer s' = Some (sk_conn ?s)" "sk_delay s' = sk_delay ?s" "minDelay s' = minDelay ?s" "maxDelay s' = maxDelay ?s"
    using e by (auto simp: close_locked_def endAlive_def split: option.splits if_splits)
  have "published s'" using P(3) f(5) by (simp add: published_def)
  then have "sock_inv s'" using s f up by (simp add: sock_inv_def)
  moreover have "sk_closer ?s = None" using s up by (simp add: sock_inv_def)
  ultimately show ?thesis
    by (intro put_inv [OF P(1,2), where K = "{}"]) (use f in \<open>auto simp: owned_def split: option.splits\<close>)
qed

lemma release_inv:
  assumes P: "proc_inv P" "i < length (socks P)" and s': "sock_inv s'" "sk_freed s'"
    and o: "owned (socks P ! i) \<subseteq> owned s' \<union> K" "live Q \<subseteq> live P - K"
    and Q: "slots Q = (if sk_freed (socks P ! i) then slots P else slots P - 1)" "socks Q = (socks P)[i := s']"
  shows "proc_inv Q"
proof -
  have "live Q \<subseteq> own Q"
    unfolding own_def Q using P(1) o by (intro own_update [OF P(2) _ o(1)]) (auto simp: proc_inv_def)
  moreover have "holding Q = (if sk_freed (socks P ! i) then holding P else holding P - 1)"
  proof -
    have x: "socks P = take i (socks P) @ (socks P ! i) # drop (Suc i) (socks P)" using P(2) by (rule id_take_nth_drop)
    have "holding P = length (filter (\<lambda>s. \<not> sk_freed s) (take i (socks P) @ (socks P ! i) # drop (Suc i) (socks P)))"
      unfolding holding_def using x by simp
    moreover have "holding Q = length (filter (\<lambda>s. \<not> sk_freed s) (take i (socks P) @ s' # drop (Suc i) (socks P)))"
      unfolding holding_def Q(2) upd_conv_take_nth_drop [OF P(2)] ..
    ultimately show ?thesis using s'(2) by simp
  qed
  moreover have "\<forall>s \<in> set (socks Q). sock_inv s"
    using P(1) s'(1) Q(2) by (auto simp: proc_inv_def dest: set_update_subset_insert [THEN subsetD])
  ultimately show ?thesis using P(1) Q(1) by (auto simp: proc_inv_def)
qed

lemma release_fields:
  "slots (release P i) = (if sk_freed (socks P ! i) then slots P else slots P - 1)" "live (release P i) = live P"
  "socks (release P i) = (socks P)[i := (socks P ! i)\<lparr>sk_freed := True\<rparr>]"
proof -
  have r: "(socks P ! i)\<lparr>sk_freed := True\<rparr> = socks P ! i" if "sk_freed (socks P ! i)" using that by simp
  show "slots (release P i) = (if sk_freed (socks P ! i) then slots P else slots P - 1)" "live (release P i) = live P"
    by (simp_all add: release_def Let_def)
  show "socks (release P i) = (socks P)[i := (socks P ! i)\<lparr>sk_freed := True\<rparr>]"
  proof (cases "sk_freed (socks P ! i)")
    case True
    then show ?thesis unfolding r [OF True] by (simp add: release_def Let_def)
  qed (simp add: release_def Let_def)
qed

lemma open_failed_inv:
  assumes P: "proc_inv P" "i < length (socks P)" and e: "exec (ARelease i) P = Some (out, Q)"
  shows "proc_inv Q"
proof -
  let ?s = "socks P ! i"
  have s: "sock_inv ?s" using P by (rule sock_at)
  obtain err where c: "sk_phase ?s = OpenFailed err" using e P(2) by (auto split: phase.splits)
  have Q: "Q = put (release P i) i (?s\<lparr>sk_freed := True, sk_phase := Dead\<rparr>)"
    using e P(2) by (simp add: c release_fields)
  have "sock_inv (?s\<lparr>sk_freed := True, sk_phase := Dead\<rparr>)"
    using s c by (cases "sk_closed ?s") (simp_all add: inv_defs)
  then show ?thesis unfolding Q
    by (rule release_inv [OF P, where K = "{}"]) (simp_all add: c owned_def release_fields)
qed

lemma closer_release_inv:
  assumes P: "proc_inv P" "i < length (socks P)" and e: "exec (ACloserRelease i) P = Some (out, Q)"
  shows "proc_inv Q"
proof -
  let ?s = "socks P ! i"
  have s: "sock_inv ?s" using P by (rule sock_at)
  have c: "sk_closer ?s \<noteq> None" "Q = release P i" using e P(2) by (auto split: if_splits)
  have "sk_closed ?s" using s c(1) by (simp add: sock_inv_def split: if_splits)
  then have "sock_inv (?s\<lparr>sk_freed := True\<rparr>)" using s c(1) by (simp add: sock_inv_def published_def)
  then show ?thesis unfolding c(2)
    by (rule release_inv [OF P, where K = "{}"]) (simp_all add: owned_def release_fields)
qed

lemma closer_close_inv:
  assumes P: "proc_inv P" "i < length (socks P)" and e: "exec (ACloserClose i) P = Some (out, Q)"
  shows "proc_inv Q"
proof -
  let ?s = "socks P ! i" and ?s' = "(socks P ! i)\<lparr>sk_closer := None\<rparr>"
  have s: "sock_inv ?s" using P by (rule sock_at)
  obtain x where x: "sk_closer ?s = Some x" "sk_freed ?s"
      "Q = (case x of None \<Rightarrow> id | Some c \<Rightarrow> kill c) (put P i ?s')"
    using e P(2) by (auto split: option.splits if_splits)
  have "sk_closed ?s" using s x(1) by (simp add: sock_inv_def split: if_splits)
  then have "sock_inv ?s'" using s x(2) by (simp add: sock_inv_def published_def)
  then show ?thesis
    by (rule put_inv [OF P, where K = "set_option x"]) (use x in \<open>auto simp: owned_def split: option.splits\<close>)
qed

lemma stale_inv:
  assumes P: "proc_inv P" "i < length (socks P)" and e: "exec (AStale i) P = Some (out, Q)"
  shows "proc_inv Q"
proof -
  let ?s = "socks P ! i" and ?s' = "(socks P ! i)\<lparr>sk_alive := Some True\<rparr>"
  have s: "sock_inv ?s" using P by (rule sock_at)
  obtain c where c: "sk_conn ?s = Some c" "Q = kill c (put P i ?s')"
    using e P(2) by (auto split: option.splits bool.splits)
  then have "sock_inv ?s'" using s by (cases "sk_closed ?s") (simp_all add: sock_inv_def published_def)
  then show ?thesis by (rule put_inv [OF P, where K = "{}"]) (use c in \<open>auto simp: owned_def\<close>)
qed

lemma new_socket_inv: "sock_inv (new_socket ping)"
  by (simp add: sock_inv_def new_socket_def second_def)

lemma exec_inv:
  assumes P: "proc_inv P" and e: "exec a P = Some (out, Q)"
  shows "proc_inv Q"
proof (cases a)
  case (AOpen ping)
  show ?thesis
  proof (cases "slots P < maxConnections")
    case True
    then have Q: "Q = P\<lparr>slots := Suc (slots P), socks := socks P @ [new_socket ping]\<rparr>" using e AOpen by simp
    have "own P \<subseteq> own Q" by (auto simp: own_def Q)
    then show ?thesis using P True new_socket_inv [of ping]
      by (simp add: proc_inv_def holding_def Q) (auto simp: new_socket_def)
  next
    case False
    then show ?thesis using P e AOpen by simp
  qed
next
  case (ALost c)
  then have "Q = kill c P" using e by simp
  then show ?thesis using P by (simp add: proc_inv_def holding_def own_def) blast
next
  case (AClose i)
  then show ?thesis using P e close_inv [of P i] by (auto split: if_splits option.splits)
next
  case (ARelease i)
  then show ?thesis using e open_failed_inv [OF P, of i] by (cases "i < length (socks P)") simp_all
next
  case (ACloserRelease i)
  then show ?thesis using e closer_release_inv [OF P, of i] by (cases "i < length (socks P)") simp_all
next
  case (ACloserClose i)
  then show ?thesis using e closer_close_inv [OF P, of i] by (cases "i < length (socks P)") simp_all
next
  case (AStale i)
  then show ?thesis using e stale_inv [OF P, of i] by (cases "i < length (socks P)") simp_all
qed (use e dial_inv [OF P] greet_inv [OF P] next_inv [OF P] wait_inv [OF P] frame_inv [OF P] error_inv [OF P]
    close_now_inv [OF P] in \<open>simp_all split: if_splits\<close>)

lemma reach_inv: "reach P \<Longrightarrow> proc_inv P"
proof (induction rule: reach.induct)
  case init
  show ?case by (simp add: proc_inv_def start_def holding_def own_def)
qed (rule exec_inv)

text \<open>A socket nobody works on any more: closed and left by its reader, or never opened.\<close>

definition finished :: "socket \<Rightarrow> bool" where
  "finished s = (sk_phase s = Dead \<or> sk_closed s \<and> sk_phase s = Idle \<and> sk_closer s = None)"

text \<open>C18: in every state a process can reach, whatever the order in which readers, closers,
  keepalives and the network move, at most five streams hold a slot, the count of slots is
  exactly that number, every connection that is still up is one some goroutine will close,
  and once every stream is finished no connection is up and no slot is held.\<close>

theorem streams_bounded:
  assumes "reach P"
  shows "slots P = length (filter (\<lambda>s. \<not> sk_freed s) (socks P)) \<and> slots P \<le> maxConnections \<and> live P \<subseteq> own P \<and>
    ((\<forall>s \<in> set (socks P). finished s) \<longrightarrow> live P = {} \<and> slots P = 0)"
proof -
  have inv: "proc_inv P" using assms by (rule reach_inv)
  have f: "owned s = {} \<and> sk_freed s" if "s \<in> set (socks P)" "finished s" for s
  proof -
    have "sock_inv s" using inv that(1) by (simp add: proc_inv_def)
    then show ?thesis using that(2) by (cases "sk_closed s") (auto simp: finished_def inv_defs)
  qed
  have "live P = {} \<and> slots P = 0" if "\<forall>s \<in> set (socks P). finished s"
  proof -
    have "own P = {}" using that f by (simp add: own_def)
    moreover have "holding P = 0" using that f by (simp add: holding_def filter_empty_conv)
    ultimately show ?thesis using inv by (simp add: proc_inv_def)
  qed
  then show ?thesis using inv by (simp add: proc_inv_def holding_def)
qed

theorem streams_bounded_witness:
  "\<exists>outs P. run [AOpen 0, ADial 0 True False, AGreet 0 True 0 False, ANext 0, AClose 0, AFrame 0,
      ACloserRelease 0, ACloserClose 0] start = Some (outs, P) \<and> live P = {} \<and> slots P = 0"
proof -
  let ?as = "[AOpen 0, ADial 0 True False, AGreet 0 True 0 False, ANext 0, AClose 0, AFrame 0,
      ACloserRelease 0, ACloserClose 0]"
  obtain outs P where r: "run ?as start = Some (outs, P)" "\<forall>s \<in> set (socks P). finished s"
    by (simp add: start_def maxConnections_def new_socket_def dial_end_def greet_end_def sections next_begin_def
        published_def frame_read_def release_def finished_def put_def kill_def)
  have "reach P" using reach_run [OF reach.init r(1)] .
  from streams_bounded [OF this] r show ?thesis by blast
qed

text \<open>
  The slot is given back before the connection is closed, so a process can have more
  connections up than slots: the sixth stream is dialled between the two.
\<close>

definition open_stream :: "nat \<Rightarrow> action list" where
  "open_stream i = [AOpen 0, ADial i True False, AGreet i True 0 False]"

lemma six_connections:
  "\<exists>outs P. run (concat (map open_stream [0, 1, 2, 3, 4]) @ [AClose 0, ACloserRelease 0] @ open_stream 5) start = Some (outs, P)
     \<and> card (live P) = 6"
  by (simp add: open_stream_def start_def maxConnections_def new_socket_def dial_end_def greet_end_def sections
      published_def release_def put_def kill_def)

subsection \<open>After Close\<close>

lemma nth_update: "i < length xs \<Longrightarrow> xs[j := x] ! i = (if i = j then x else xs ! i)"
  by auto

lemma closed_stays:
  assumes "exec a P = Some (out, Q)" "i < length (socks P)" "sk_closed (socks P ! i)"
  shows "i < length (socks Q) \<and> sk_closed (socks Q ! i)"
proof (cases a)
  case (AOpen p)
  then show ?thesis using assms by (auto simp: nth_append split: if_splits)
next
  case (ADial j ok ctx)
  then show ?thesis using assms
    by (auto simp: dial_end_def Let_def nth_update split: if_splits phase.splits)
next
  case (AGreet j hello now ctx)
  then show ?thesis using assms
    by (auto simp: greet_end_def Let_def nth_update sections split: if_splits phase.splits)
next
  case (ARelease j)
  then show ?thesis using assms by (auto simp: release_fields nth_update split: if_splits phase.splits)
next
  case (ANext j)
  then show ?thesis using assms
    by (auto simp: next_begin_def Let_def nth_update sections split: if_splits option.splits)
next
  case (AReadError j ctx now)
  then show ?thesis using assms
    by (auto simp: read_error_def read_failed_def endAlive_def Let_def nth_update split: if_splits phase.splits option.splits)
next
  case (AClose j)
  then show ?thesis using assms by (auto simp: close_locked_def endAlive_def nth_update split: if_splits option.splits)
next
  case (ACloserClose j)
  then show ?thesis using assms by (auto simp: nth_update split: if_splits option.splits)
next
  case (AStale j)
  then show ?thesis using assms by (auto simp: nth_update split: if_splits option.splits bool.splits)
qed (use assms in \<open>auto simp: wait_end_def frame_read_def close_now_def release_fields Let_def nth_update
    split: if_splits phase.splits\<close>)



subsection \<open>Backoff\<close>

lemma wait_fields [simp]: "minDelay (wait_begin s) = minDelay s" "maxDelay (wait_begin s) = maxDelay s"
  by (simp_all add: wait_begin_def)

text \<open>The backoff schedule. After n + 1 attempts in a row that delivered nothing and did
  not stay up, the delay is the first one doubled n times and never above the cap, a sleep
  is drawn from zero to it; and once a connection delivered a frame or stayed up for five
  seconds, the next sleep is again at most the first delay, so a load balancer that ends
  every socket after half a minute does not ratchet it up.\<close>

lemma backoff_schedule:
  assumes "0 < minDelay s" "minDelay s \<le> maxDelay s"
  shows "(sk_delay s = 0 \<longrightarrow> sk_delay ((wait_begin ^^ Suc n) s) = min (minDelay s * 2 ^ n) (maxDelay s)) \<and>
    (0 \<le> sk_delay s \<longrightarrow> 0 \<le> wait_sleep r (wait_begin s) \<and> wait_sleep r (wait_begin s) \<le> sk_delay (wait_begin s)) \<and>
    (sk_delivered s \<or> now - sk_opened s \<ge> healthyAfter \<longrightarrow>
       sk_delay (wait_begin (snd (read_failed ctx now s))) = minDelay s)"
proof (intro conjI impI)
  have f: "minDelay ((wait_begin ^^ n) s) = minDelay s" "maxDelay ((wait_begin ^^ n) s) = maxDelay s" for n
    by (induction n) simp_all
  have p: "minDelay s \<le> minDelay s * 2 ^ n" for n
    using assms(1) by simp
  show "sk_delay ((wait_begin ^^ Suc n) s) = min (minDelay s * 2 ^ n) (maxDelay s)" if z: "sk_delay s = 0"
  proof (induction n)
    case 0
    show ?case using assms z by (simp add: wait_begin_def next_delay_def)
  next
    case (Suc n)
    have "sk_delay ((wait_begin ^^ Suc (Suc n)) s) =
        min (max (2 * sk_delay ((wait_begin ^^ Suc n) s)) (minDelay s)) (maxDelay s)"
      using f [of "Suc n"] by (simp add: wait_begin_def next_delay_def)
    also have "\<dots> = min (2 * (minDelay s * 2 ^ n)) (maxDelay s)"
    proof -
      have "min (max (2 * min d (maxDelay s)) (minDelay s)) (maxDelay s) = min (2 * d) (maxDelay s)"
        if "minDelay s \<le> d" for d
        using that assms by (auto simp: min_def max_def)
      then show ?thesis unfolding Suc using p [of n] by blast
    qed
    also have "\<dots> = min (minDelay s * 2 ^ Suc n) (maxDelay s)" by (simp add: mult.left_commute)
    finally show ?case .
  qed
next
  assume d: "0 \<le> sk_delay s"
  have "0 \<le> sk_delay (wait_begin s)" using assms by (simp add: wait_begin_def next_delay_def)
  then show "0 \<le> wait_sleep r (wait_begin s)" "wait_sleep r (wait_begin s) \<le> sk_delay (wait_begin s)"
    using pos_mod_bound [of "sk_delay (wait_begin s) + 1" "int r"] pos_mod_sign [of "sk_delay (wait_begin s) + 1" "int r"]
    by (auto simp: wait_sleep_def rand_N_def)
next
  assume "sk_delivered s \<or> now - sk_opened s \<ge> healthyAfter"
  then show "sk_delay (wait_begin (snd (read_failed ctx now s))) = minDelay s"
    using assms by (auto simp: read_failed_def Let_def endAlive_def wait_begin_def next_delay_def split: option.split)
qed

end
