(* ===== verification/GoTypes.thy ===== *)
theory GoTypes
  imports JsonTyped Decimal "HOL-Library.List_Lexorder" "HOL-Library.Char_ord"
begin

section \<open>encoding/json on the shapes of the API models\<close>

text \<open>
  The models of the API are Go structs whose JSON form follows from their field types and
  tags. \<open>go_type\<close> describes such a type, \<open>go_val\<close> a value of it, and \<open>decode\<close> and
  \<open>encode\<close> are json.Unmarshal into a fresh variable and json.Marshal. A number that lands in
  an interface stays a json.Number (UseNumber). \<open>nullable.Nullable\<close> is a third-party type:
  its two JSON methods and its omitempty test are the record \<open>nullable_lib\<close>, a parameter.
  Of a member that appears twice in one object the last counts, and all must decode.
  A string is seen after its escapes are resolved, so a decimal written with escapes, which
  no JSON encoder does, is read here as if it were written plainly.
\<close>

datatype go_type =
    TString
  | TBool
  | TInt64
  | TUint64
  | TUint32
  | TNumber
  | TDecimal
  | TAny
  | TRaw
  | TPtr go_type
  | TSlice go_type
  | TMap go_type
  | TNullable go_type
  | TStruct "(string \<times> bool \<times> go_type) list"

text \<open>\<open>VNil\<close> is a nil pointer, slice, map or an unspecified Nullable.\<close>

datatype go_val =
    VString string
  | VBool bool
  | VInt int
  | VNumber string
  | VFloat rat
  | VDecimal decimal
  | VJson json
  | VNil
  | VNull
  | VPtr go_val
  | VSet go_val
  | VSlice "go_val list"
  | VMap "(string \<times> go_val) list"
  | VStruct "go_val list"

lemma map_res_cong [fundef_cong]:
  "xs = ys \<Longrightarrow> (\<And>x. x \<in> set ys \<Longrightarrow> f x = g x) \<Longrightarrow> map_res f xs = map_res g ys"
  by (induction ys arbitrary: xs) auto

record nullable_lib =
  nl_unmarshal :: "(json \<Rightarrow> json_error + go_val) \<Rightarrow> json \<Rightarrow> json_error + go_val"
  nl_marshal :: "(go_val \<Rightarrow> json option) \<Rightarrow> go_val \<Rightarrow> json option"
  nl_empty :: "go_val \<Rightarrow> bool"

definition member_vals :: "string \<Rightarrow> json \<Rightarrow> json_error + json list" where
  "member_vals k j = bind_res (members j) (\<lambda>ms. Inr (field_vals k ms))"

definition map_err :: "('a \<Rightarrow> 'b) \<Rightarrow> 'e + 'a \<Rightarrow> 'e + 'b" where
  "map_err f r = bind_res r (\<lambda>x. Inr (f x))"

definition decode_decimal :: "json \<Rightarrow> json_error + go_val" where
  "decode_decimal j =
     (case j of
        JStr s \<Rightarrow>
          (case dec_UnmarshalJSON (quote_string s) zero_decimal of
             Inl _ \<Rightarrow> Inl (JCustom ''invalid decimal'')
           | Inr d \<Rightarrow> Inr (VDecimal d))
      | JNull \<Rightarrow> Inr (VDecimal zero_decimal)
      | _ \<Rightarrow> Inl (JCustom ''decimal is not a JSON string''))"

fun zero :: "go_type \<Rightarrow> go_val" where
  "zero TString = VString []"
| "zero TBool = VBool False"
| "zero TInt64 = VInt 0"
| "zero TUint64 = VInt 0"
| "zero TUint32 = VInt 0"
| "zero TNumber = VNumber []"
| "zero TDecimal = VDecimal zero_decimal"
| "zero TAny = VJson JNull"
| "zero TRaw = VNil"
| "zero (TStruct fs) = VStruct (map (\<lambda>(k, om, t). zero t) fs)"
| "zero _ = VNil"

fun decode :: "nullable_lib \<Rightarrow> go_type \<Rightarrow> json \<Rightarrow> json_error + go_val" where
  "decode N TString = (\<lambda>j. or_null (VString []) (\<lambda>j. map_err VString (dec_string j)) j)"
| "decode N TBool = (\<lambda>j. or_null (VBool False) (\<lambda>j. map_err VBool (dec_bool j)) j)"
| "decode N TInt64 = (\<lambda>j. or_null (VInt 0) (\<lambda>j. map_err VInt (dec_int64 j)) j)"
| "decode N TUint64 = (\<lambda>j. or_null (VInt 0) (\<lambda>j. map_err VInt (dec_uint64 j)) j)"
| "decode N TUint32 = (\<lambda>j. or_null (VInt 0) (\<lambda>j. map_err VInt (dec_uint32 j)) j)"
| "decode N TNumber = (\<lambda>j. or_null (VNumber []) (\<lambda>j. map_err VNumber (dec_number j)) j)"
| "decode N TDecimal = decode_decimal"
| "decode N TAny = (\<lambda>j. Inr (VJson j))"
| "decode N TRaw = (\<lambda>j. Inr (VJson j))"
| "decode N (TPtr t) = (\<lambda>j. if j = JNull then Inr VNil else map_err VPtr (decode N t j))"
| "decode N (TSlice t) = (\<lambda>j. if j = JNull then Inr VNil else map_err VSlice (dec_slice (decode N t) j))"
| "decode N (TMap t) =
     (\<lambda>j. case j of
            JNull \<Rightarrow> Inr VNil
          | JObj ms \<Rightarrow>
              map_err VMap (map_res (\<lambda>(k, v). map_err (Pair k) (decode N t v)) (fold (\<lambda>(k, v). AList.update k v) ms []))
          | _ \<Rightarrow> Inl JType)"
| "decode N (TNullable t) = nl_unmarshal N (decode N t)"
| "decode N (TStruct fs) =
     (\<lambda>j. map_err VStruct (map_res (\<lambda>(k, om, t).
            bind_res (member_vals k j) (\<lambda>vs.
            bind_res (map_res (decode N t) vs) (\<lambda>xs. Inr (if xs = [] then zero t else last xs)))) fs))"

text \<open>What omitempty leaves out.\<close>

definition empty_val :: "nullable_lib \<Rightarrow> go_type \<Rightarrow> go_val \<Rightarrow> bool" where
  "empty_val N t v =
     (case t of
        TNullable _ \<Rightarrow> nl_empty N v
      | TStruct _ \<Rightarrow> False
      | TDecimal \<Rightarrow> False
      | _ \<Rightarrow> v \<in> {VString [], VBool False, VInt 0, VNumber [], VNil, VSlice [], VMap []} \<or> t = TAny \<and> v = VJson JNull)"

definition encode_number :: "string \<Rightarrow> json option" where
  "encode_number s = (if s = [] then Some (JNum ''0'') else if num_lit s then Some (JNum s) else None)"

definition join_members :: "(string \<times> json option) option list \<Rightarrow> json option" where
  "join_members ms = map_option JObj (those (map (\<lambda>(k, j). map_option (Pair k) j) (List.map_filter id ms)))"

fun encode :: "nullable_lib \<Rightarrow> go_type \<Rightarrow> go_val \<Rightarrow> json option" where
  "encode N TString = (\<lambda>v. case v of VString s \<Rightarrow> Some (JStr s) | _ \<Rightarrow> None)"
| "encode N TBool = (\<lambda>v. case v of VBool b \<Rightarrow> Some (JBool b) | _ \<Rightarrow> None)"
| "encode N TInt64 = (\<lambda>v. case v of VInt i \<Rightarrow> Some (JNum (show_int i)) | _ \<Rightarrow> None)"
| "encode N TUint64 = (\<lambda>v. case v of VInt i \<Rightarrow> Some (JNum (show_int i)) | _ \<Rightarrow> None)"
| "encode N TUint32 = (\<lambda>v. case v of VInt i \<Rightarrow> Some (JNum (show_int i)) | _ \<Rightarrow> None)"
| "encode N TNumber = (\<lambda>v. case v of VNumber s \<Rightarrow> encode_number s | _ \<Rightarrow> None)"
| "encode N TDecimal = (\<lambda>v. case v of VDecimal d \<Rightarrow> Some (JStr (dec_String d)) | _ \<Rightarrow> None)"
| "encode N TAny = (\<lambda>v. case v of VJson j \<Rightarrow> Some j | _ \<Rightarrow> None)"
| "encode N TRaw = (\<lambda>v. case v of VJson j \<Rightarrow> Some j | VNil \<Rightarrow> Some JNull | _ \<Rightarrow> None)"
| "encode N (TPtr t) = (\<lambda>v. case v of VNil \<Rightarrow> Some JNull | VPtr v \<Rightarrow> encode N t v | _ \<Rightarrow> None)"
| "encode N (TSlice t) =
     (\<lambda>v. case v of VNil \<Rightarrow> Some JNull | VSlice vs \<Rightarrow> map_option JArr (those (map (encode N t) vs)) | _ \<Rightarrow> None)"
| "encode N (TMap t) =
     (\<lambda>v. case v of
            VNil \<Rightarrow> Some JNull
          | VMap ms \<Rightarrow> join_members (map (\<lambda>(k, v). Some (k, encode N t v)) (sort_key fst ms))
          | _ \<Rightarrow> None)"
| "encode N (TNullable t) = nl_marshal N (encode N t)"
| "encode N (TStruct fs) =
     (\<lambda>v. case v of
            VStruct vs \<Rightarrow>
              if length vs \<noteq> length fs then None
              else join_members (map2 (\<lambda>(k, om, t, enc) v. if om \<and> empty_val N t v then None else Some (k, enc v))
                (map (\<lambda>(k, om, t). (k, om, t, encode N t)) fs) vs)
          | _ \<Rightarrow> None)"

subsection \<open>The round trip\<close>

text \<open>The documented behaviour of nullable.Nullable.\<close>

definition nullable_laws :: "nullable_lib \<Rightarrow> bool" where
  "nullable_laws N =
     ((\<forall>dec. nl_unmarshal N dec JNull = Inr VNull) \<and>
      (\<forall>dec j. j \<noteq> JNull \<longrightarrow> nl_unmarshal N dec j = map_err VSet (dec j)) \<and>
      (\<forall>enc. nl_marshal N enc VNull = Some JNull) \<and>
      (\<forall>enc v. nl_marshal N enc (VSet v) = enc v) \<and>
      nl_empty N VNil \<and> \<not> nl_empty N VNull \<and> (\<forall>v. \<not> nl_empty N (VSet v)))"

text \<open>
  The values of a type that JSON can carry: numbers in range, decimals that are literals, no
  pointer to something written as null, and where omitempty leaves a field out, the zero
  value and nothing else.
\<close>

fun typed :: "nullable_lib \<Rightarrow> go_type \<Rightarrow> go_val \<Rightarrow> bool" where
  "typed N TString = (\<lambda>v. case v of VString s \<Rightarrow> True | _ \<Rightarrow> False)"
| "typed N TBool = (\<lambda>v. case v of VBool b \<Rightarrow> True | _ \<Rightarrow> False)"
| "typed N TInt64 = (\<lambda>v. case v of VInt i \<Rightarrow> in_int64 i | _ \<Rightarrow> False)"
| "typed N TUint64 = (\<lambda>v. case v of VInt i \<Rightarrow> 0 \<le> i \<and> i \<le> max_uint64 | _ \<Rightarrow> False)"
| "typed N TUint32 = (\<lambda>v. case v of VInt i \<Rightarrow> 0 \<le> i \<and> i \<le> max_uint32 | _ \<Rightarrow> False)"
| "typed N TNumber = (\<lambda>v. case v of VNumber s \<Rightarrow> num_lit s | _ \<Rightarrow> False)"
| "typed N TDecimal = (\<lambda>v. case v of VDecimal d \<Rightarrow> lit_ok d | _ \<Rightarrow> False)"
| "typed N TAny = (\<lambda>v. case v of VJson j \<Rightarrow> True | _ \<Rightarrow> False)"
| "typed N TRaw = (\<lambda>v. case v of VJson j \<Rightarrow> True | _ \<Rightarrow> False)"
| "typed N (TPtr t) = (\<lambda>v. case v of VNil \<Rightarrow> True | VPtr u \<Rightarrow> typed N t u \<and> encode N t u \<noteq> Some JNull | _ \<Rightarrow> False)"
| "typed N (TSlice t) = (\<lambda>v. case v of VNil \<Rightarrow> True | VSlice us \<Rightarrow> list_all (typed N t) us | _ \<Rightarrow> False)"
| "typed N (TMap t) =
     (\<lambda>v. case v of
            VNil \<Rightarrow> True
          | VMap ms \<Rightarrow> sorted (map fst ms) \<and> distinct (map fst ms) \<and> list_all (typed N t) (map snd ms)
          | _ \<Rightarrow> False)"
| "typed N (TNullable t) =
     (\<lambda>v. case v of VNull \<Rightarrow> True | VSet u \<Rightarrow> typed N t u \<and> encode N t u \<noteq> Some JNull | _ \<Rightarrow> False)"
| "typed N (TStruct fs) =
     (\<lambda>v. case v of
            VStruct vs \<Rightarrow>
              list_all2 (\<lambda>(om, t, ok) v. if om \<and> empty_val N t v then v = zero t else ok v)
                (map (\<lambda>(k, om, t). (om, t, typed N t)) fs) vs
          | _ \<Rightarrow> False)"

text \<open>No two fields of a struct answer to the same member name.\<close>

fun wf_type :: "go_type \<Rightarrow> bool" where
  "wf_type (TPtr t) = wf_type t"
| "wf_type (TSlice t) = wf_type t"
| "wf_type (TMap t) = wf_type t"
| "wf_type (TNullable t) = wf_type t"
| "wf_type (TStruct fs) = (distinct (map (fold_name \<circ> fst) fs) \<and> list_all (\<lambda>(k, om, t). wf_type t) fs)"
| "wf_type _ = True"

definition carries :: "nullable_lib \<Rightarrow> go_type \<Rightarrow> go_val \<Rightarrow> bool" where
  "carries N t v = (\<exists>j. encode N t v = Some j \<and> decode N t j = Inr v)"

lemma map_err_simps [simp]: "map_err f (Inr x) = Inr (f x)" "map_err f (Inl e) = Inl e"
  by (simp_all add: map_err_def)

lemma those_map_Some:
  "list_all (\<lambda>x. \<exists>y. f x = Some y) xs \<Longrightarrow> those (map f xs) = Some (map (the \<circ> f) xs)"
  by (induction xs) auto

lemma carries_slice:
  assumes "list_all (carries N t) vs" shows "carries N (TSlice t) (VSlice vs)"
proof -
  have e: "\<exists>j. encode N t v = Some j \<and> decode N t j = Inr v" if "v \<in> set vs" for v
    using assms that by (auto simp: list_all_iff carries_def)
  have "those (map (encode N t) vs) = Some (map (the \<circ> encode N t) vs)"
    by (rule those_map_Some) (use e in \<open>auto simp: list_all_iff\<close>)
  moreover have "map_res (decode N t) (map (the \<circ> encode N t) vs) = Inr vs"
    by (rule map_res_map) (use e in force)
  ultimately show ?thesis by (simp add: carries_def dec_slice_def)
qed

lemma quote_plain:
  "list_all (\<lambda>c. is_digit c \<or> c \<in> {CHR ''-'', CHR ''.''}) s \<Longrightarrow> quote_body s = s"
proof (induction s)
  case (Cons c s)
  have n: "45 \<le> (of_char c :: nat)" "(of_char c :: nat) \<le> 57" using Cons.prems by (auto simp: is_digit_def)
  have d: "c \<noteq> d" if "(of_char d :: nat) < 45 \<or> 57 < (of_char d :: nat)" for d using n that by auto
  have "quote_ascii c = [c]" using n by (simp add: quote_ascii_def d)
  then show ?case using Cons n by simp
qed simp

lemma literal_chars:
  assumes "rx_matches decimalLiteral s" shows "list_all (\<lambda>c. is_digit c \<or> c \<in> {CHR ''-'', CHR ''.''}) s"
proof -
  obtain sg ip fp where s: "s = sg @ ip @ fp" "sg \<in> {[], ''-''}" "int_part ip" "frac_part fp"
    using assms by (auto simp: literal_grammar)
  have "list_all is_digit ip" using s(3) by (auto simp: int_part_def all_digits_def is_digit_def)
  moreover have "list_all (\<lambda>c. is_digit c \<or> c = CHR ''.'') fp"
    using s(4) by (auto simp: frac_part_def all_digits_def list_all_iff)
  ultimately show ?thesis using s(1,2) by (auto simp: list_all_iff)
qed

lemma decimal_carries:
  assumes "lit_ok d" shows "carries N TDecimal (VDecimal d)"
proof -
  have s: "dec_String d = dec_s d" using assms by (rule lit_ok_String)
  have q: "quote_string (dec_s d) = dec_MarshalJSON d"
    using quote_plain [OF literal_chars] assms by (simp add: quote_string_def dec_MarshalJSON_def s lit_ok_def)
  have "dec_UnmarshalJSON (dec_MarshalJSON d) zero_decimal = Inr d"
    using dec_json.dec_enc [OF assms] by (simp add: dec_MarshalJSON_def)
  then show ?thesis by (simp add: carries_def decode_decimal_def s q)
qed

text \<open>The members an encoder keeps, and what a decoder finds under each field's name.\<close>

definition kept :: "(string \<times> json option) option list \<Rightarrow> (string \<times> json) list" where
  "kept ms = map (\<lambda>(k, j). (k, the j)) (List.map_filter id ms)"

lemma kept_simps [simp]:
  "kept [] = []" "kept (None # ms) = kept ms" "kept (Some (k, j) # ms) = (k, the j) # kept ms"
  by (simp_all add: kept_def map_filter_simps)

lemma join_members_Some:
  "(\<forall>k j. Some (k, j) \<in> set ms \<longrightarrow> j \<noteq> None) \<Longrightarrow> join_members ms = Some (JObj (kept ms))"
proof -
  assume "\<forall>k j. Some (k, j) \<in> set ms \<longrightarrow> j \<noteq> None"
  then have "those (map (\<lambda>(k, j). map_option (Pair k) j) (List.map_filter id ms)) = Some (kept ms)"
  proof (induction ms)
    case (Cons m ms)
    show ?case
    proof (cases m)
      case (Some x)
      obtain k y where "x = (k, Some y)" using Cons.prems Some by (cases x) auto
      then show ?thesis using Cons Some by (simp add: map_filter_simps)
    qed (use Cons in \<open>simp add: map_filter_simps\<close>)
  qed (simp add: map_filter_simps)
  then show ?thesis by (simp add: join_members_def)
qed

lemma field_vals_kept:
  assumes "distinct (map (\<lambda>x. fold_name (fst x)) fs)" "(k, y) \<in> set fs"
  shows "field_vals k (kept (map (\<lambda>(k, y). if g k y then None else Some (k, Some (f k y))) fs)) =
    (if g k y then [] else [f k y])"
  using assms
proof (induction fs)
  case (Cons x fs)
  obtain k' y' where x: "x = (k', y')" by (cases x)
  have none: "field_vals k (kept (map (\<lambda>(k, y). if g k y then None else Some (k, Some (f k y))) gs)) = []"
    if "fold_name k \<notin> (\<lambda>x. fold_name (fst x)) ` set gs" for gs
    using that by (induction gs) auto
  show ?case
  proof (cases "(k, y) = x")
    case True
    then have "fold_name k \<notin> (\<lambda>x. fold_name (fst x)) ` set fs" using Cons.prems(1) by (metis distinct.simps(2) fst_conv list.simps(9) list.set_map)
    then show ?thesis using none [of fs] True by auto
  next
    case False
    then have m: "(k, y) \<in> set fs" using Cons.prems(2) by auto
    then have "fold_name k' \<noteq> fold_name k" using Cons.prems(1) by (force simp: x)
    then show ?thesis using Cons m by (simp add: x)
  qed
qed simp

lemma map_res_maps: "(\<And>x. x \<in> set xs \<Longrightarrow> f (a x) = Inr (b x)) \<Longrightarrow> map_res f (map a xs) = Inr (map b xs)"
  by (induction xs) auto

lemma fold_update_distinct:
  "distinct (map fst (m @ ms)) \<Longrightarrow> fold (\<lambda>(k, v). AList.update k v) ms m = m @ ms"
proof (induction ms arbitrary: m)
  case (Cons x ms)
  obtain k v where x: "x = (k, v)" by (cases x)
  have "AList.update k v m = m @ [(k, v)]"
  proof -
    have "k \<notin> fst ` set m" using Cons.prems by (auto simp: x)
    then show ?thesis by (induction m) auto
  qed
  then show ?case using Cons by (simp add: x)
qed simp

lemma carries_map:
  assumes "sorted (map fst ms)" "distinct (map fst ms)" "list_all (carries N t) (map snd ms)"
  shows "carries N (TMap t) (VMap ms)"
proof -
  have e: "\<exists>j. encode N t v = Some j \<and> decode N t j = Inr v" if "(k, v) \<in> set ms" for k v
    using assms(3) that by (auto simp: list_all_iff carries_def)
  let ?js = "map (\<lambda>(k, v). (k, the (encode N t v))) ms"
  have k: "kept (map (\<lambda>(k, v). Some (k, encode N t v)) ms) = ?js"
    by (induction ms) auto
  have "sort_key fst ms = ms" using assms(1) by (simp add: sort_key_id_if_sorted)
  moreover have "join_members (map (\<lambda>(k, v). Some (k, encode N t v)) ms) = Some (JObj ?js)"
    unfolding k [symmetric] by (rule join_members_Some) (use e in force)
  moreover have "fold (\<lambda>(k, v). AList.update k v) ?js [] = ?js"
  proof -
    have "map fst ?js = map fst ms" by (induction ms) auto
    then have "distinct (map fst ([] @ ?js))" using assms(2) by (simp only: append_Nil)
    from fold_update_distinct [OF this] show ?thesis by (simp only: append_Nil)
  qed
  moreover have "map_res (\<lambda>(k, v). map_err (Pair k) (decode N t v)) ?js = Inr ms"
  proof -
    have "map_res (\<lambda>(k, v). map_err (Pair k) (decode N t v)) (map (\<lambda>(k, v). (k, the (encode N t v))) ms) = Inr ms"
      by (rule map_res_map) (use e in force)
    then show ?thesis .
  qed
  ultimately show ?thesis by (simp add: carries_def)
qed

lemma carries_struct:
  assumes "distinct (map (fold_name \<circ> fst) fs)" "length vs = length fs"
    and "\<And>k om t v. ((k, om, t), v) \<in> set (zip fs vs) \<Longrightarrow> if om \<and> empty_val N t v then v = zero t else carries N t v"
  shows "carries N (TStruct fs) (VStruct vs)"
proof -
  define g where "g = (\<lambda>(k :: string) (om, t, v). om \<and> empty_val N t v)"
  define f where "f = (\<lambda>(k :: string) (om :: bool, t, v). the (encode N t v))"
  define xs where "xs = map (\<lambda>((k, om, t), v). (k, om, t, v)) (zip fs vs)"
  have fx: "map (\<lambda>(k, om, t, v). (k, om, t)) xs = fs" "map (\<lambda>(k, om, t, v). v) xs = vs"
    unfolding xs_def using assms(2) by (induction fs vs rule: list_induct2') auto
  have c: "if om \<and> empty_val N t v then v = zero t else carries N t v" if "(k, om, t, v) \<in> set xs" for k om t v
    using that assms(3) by (auto simp: xs_def)
  have enc: "map2 (\<lambda>(k, om, t, enc) v. if om \<and> empty_val N t v then None else Some (k, enc v))
      (map (\<lambda>(k, om, t). (k, om, t, encode N t)) fs) vs
    = map (\<lambda>(k, y). if g k y then None else Some (k, Some (f k y))) xs"
  proof -
    have "map2 (\<lambda>(k, om, t, enc) v. if om \<and> empty_val N t v then None else Some (k, enc v))
        (map (\<lambda>(k, om, t). (k, om, t, encode N t)) fs) vs
      = map (\<lambda>(k, om, t, v). if om \<and> empty_val N t v then None else Some (k, encode N t v)) xs"
      unfolding xs_def using assms(2) by (induction fs vs rule: list_induct2') auto
    also have "\<dots> = map (\<lambda>(k, y). if g k y then None else Some (k, Some (f k y))) xs"
    proof (rule map_cong [OF refl])
      fix x assume x: "x \<in> set xs"
      obtain k om t v where "x = (k, om, t, v)" by (cases x) blast
      then show "(case x of (k, om, t, v) \<Rightarrow> if om \<and> empty_val N t v then None else Some (k, encode N t v)) =
          (case x of (k, y) \<Rightarrow> if g k y then None else Some (k, Some (f k y)))"
        using c [of k om t v] x by (auto simp: g_def f_def carries_def)
    qed
    finally show ?thesis .
  qed
  let ?ms = "kept (map (\<lambda>(k, y). if g k y then None else Some (k, Some (f k y))) xs)"
  have "join_members (map (\<lambda>(k, y). if g k y then None else Some (k, Some (f k y))) xs) = Some (JObj ?ms)"
    by (rule join_members_Some) (auto split: if_splits)
  then have "encode N (TStruct fs) (VStruct vs) = Some (JObj ?ms)"
    using assms(2) by (simp add: enc)
  moreover have "decode N (TStruct fs) (JObj ?ms) = Inr (VStruct vs)"
  proof -
    have d: "distinct (map (\<lambda>x. fold_name (fst x)) xs)"
    proof -
      have "map (\<lambda>x. fold_name (fst x)) xs = map (fold_name \<circ> fst) (map (\<lambda>(k, om, t, v). (k, om, t)) xs)" by auto
      then show ?thesis using assms(1) fx(1) by simp
    qed
    have "map_res (\<lambda>(k, om, t). bind_res (member_vals k (JObj ?ms)) (\<lambda>ws. bind_res (map_res (decode N t) ws)
        (\<lambda>zs. Inr (if zs = [] then zero t else last zs)))) (map (\<lambda>(k, om, t, v). (k, om, t)) xs)
      = Inr (map (\<lambda>(k, om, t, v). v) xs)" 
    proof (rule map_res_maps)
      fix x assume x: "x \<in> set xs"
      obtain k om t v where y: "x = (k, om, t, v)" by (cases x) blast
      have "field_vals k ?ms = (if g k (om, t, v) then [] else [f k (om, t, v)])"
        using field_vals_kept [OF d, of k "(om, t, v)"] x y by simp
      moreover have "decode N t (f k (om, t, v)) = Inr v" if "\<not> g k (om, t, v)"
        using c [of k om t v] x y that by (auto simp: g_def f_def carries_def)
      moreover have "v = zero t" if "g k (om, t, v)" using c [of k om t v] x y that by (auto simp: g_def)
      ultimately show "(case case x of (k, om, t, v) \<Rightarrow> (k, om, t) of (k, om, t) \<Rightarrow>
          bind_res (member_vals k (JObj ?ms)) (\<lambda>ws. bind_res (map_res (decode N t) ws)
            (\<lambda>zs. Inr (if zs = [] then zero t else last zs)))) = Inr (case x of (k, om, t, v) \<Rightarrow> v)"
        unfolding y by (simp add: member_vals_def members_def)
    qed
    then show ?thesis by (simp add: fx)
  qed
  ultimately show ?thesis by (simp add: carries_def)
qed

lemma dec_int64_show: "in_int64 i \<Longrightarrow> dec_int64 (JNum (show_int i)) = Inr i"
  by (simp add: dec_int64_def num_field_def)

lemma dec_uint_show:
  "0 \<le> i \<Longrightarrow> i \<le> max_uint64 \<Longrightarrow> dec_uint64 (JNum (show_int i)) = Inr i"
  "0 \<le> i \<Longrightarrow> i \<le> max_uint32 \<Longrightarrow> dec_uint32 (JNum (show_int i)) = Inr i"
  by (simp_all add: dec_uint64_def dec_uint32_def num_field_def show_int_def)

lemma typed_carries:
  assumes N: "nullable_laws N"
  shows "wf_type T \<Longrightarrow> typed N T v \<Longrightarrow> carries N T v"
proof (induction T arbitrary: v)
  case TNumber
  then obtain s where s: "v = VNumber s" "num_lit s" by (auto split: go_val.splits)
  then have "s \<noteq> []" by (cases s) simp_all
  then show ?case using s by (simp add: carries_def encode_number_def or_null_def dec_number_def)
next
  case TDecimal
  then show ?case using decimal_carries by (auto split: go_val.splits)
next
  case (TPtr t)
  show ?case
  proof (cases v)
    case (VPtr u)
    then have "carries N t u" "encode N t u \<noteq> Some JNull" using TPtr.IH [of u] TPtr.prems VPtr by simp_all
    then obtain j where "encode N t u = Some j" "decode N t j = Inr u" "j \<noteq> JNull" by (auto simp: carries_def)
    then show ?thesis using VPtr by (simp add: carries_def)
  qed (use TPtr.prems in \<open>auto simp: carries_def\<close>)
next
  case (TSlice t)
  show ?case
  proof (cases v)
    case (VSlice us)
    then have "list_all (carries N t) us" using TSlice.IH TSlice.prems VSlice by (simp add: list_all_iff)
    then show ?thesis using VSlice carries_slice by simp
  qed (use TSlice.prems in \<open>auto simp: carries_def\<close>)
next
  case (TMap t)
  show ?case
  proof (cases v)
    case (VMap ms)
    then have "list_all (carries N t) (map snd ms)" using TMap.IH TMap.prems VMap by (simp add: list_all_iff)
    then show ?thesis using VMap TMap.prems carries_map by simp
  qed (use TMap.prems in \<open>auto simp: carries_def\<close>)
next
  case (TNullable t)
  show ?case
  proof (cases v)
    case (VSet u)
    then have "carries N t u" "encode N t u \<noteq> Some JNull" using TNullable.IH [of u] TNullable.prems VSet by simp_all
    then obtain j where "encode N t u = Some j" "decode N t j = Inr u" "j \<noteq> JNull" by (auto simp: carries_def)
    then show ?thesis using VSet N by (simp add: carries_def nullable_laws_def)
  qed (use TNullable.prems N in \<open>auto simp: carries_def nullable_laws_def\<close>)
next
  case (TStruct fs)
  obtain vs where v: "v = VStruct vs" using TStruct.prems(2) by (auto split: go_val.splits)
  let ?ts = "map (\<lambda>(k, om, t). (om, t, typed N t)) fs"
  have l2: "list_all2 (\<lambda>(om, t, ok) v. if om \<and> empty_val N t v then v = zero t else ok v) ?ts vs"
    using TStruct.prems(2) by (simp add: v)
  have len: "length vs = length fs" using list_all2_lengthD [OF l2] by simp
  have "if om \<and> empty_val N t u then u = zero t else carries N t u" if z: "((k, om, t), u) \<in> set (zip fs vs)" for k om t u
  proof -
    obtain i where i: "i < length fs" "fs ! i = (k, om, t)" "vs ! i = u"
      using z by (auto simp: in_set_zip)
    have "if om \<and> empty_val N t u then u = zero t else typed N t u"
      using list_all2_nthD [OF l2, of i] i by simp
    moreover have m: "(k, om, t) \<in> set fs" using i(1,2) by (metis nth_mem)
    moreover have "wf_type t" using TStruct.prems(1) m by (auto simp: list_all_iff)
    ultimately show ?thesis using TStruct.IH [of "(k, om, t)" "(om, t)" t u] by auto
  qed
  then show ?case unfolding v using TStruct.prems(1) len by (intro carries_struct) auto
next
  case TInt64
  then show ?case using dec_int64_show by (auto simp: carries_def or_null_def split: go_val.splits)
next
  case TUint64
  then show ?case using dec_uint_show(1) by (auto simp: carries_def or_null_def split: go_val.splits)
next
  case TUint32
  then show ?case using dec_uint_show(2) by (auto simp: carries_def or_null_def split: go_val.splits)
next
  case TString
  then show ?case by (cases v) (simp_all add: carries_def or_null_def dec_string_def)
next
  case TBool
  then show ?case by (cases v) (simp_all add: carries_def or_null_def dec_bool_def)
next
  case TAny
  then show ?case by (cases v) (simp_all add: carries_def)
next
  case TRaw
  then show ?case by (cases v) (simp_all add: carries_def)
qed

subsection \<open>New members\<close>

text \<open>Members a struct does not know are ignored, wherever a newer server adds them.\<close>

lemma decode_ignores:
  assumes "\<forall>(k, v) \<in> set extra. \<forall>(f, om, t) \<in> set fs. fold_name k \<noteq> fold_name f"
  shows "decode N (TStruct fs) (JObj (ms @ extra)) = decode N (TStruct fs) (JObj ms)"
proof -
  have "field_vals f (ms @ extra) = field_vals f ms" if "(f, om, t) \<in> set fs" for f om t
    using assms that by (fastforce simp: field_vals_def filter_empty_conv)
  then have "map_res (\<lambda>(k, om, t). bind_res (member_vals k (JObj (ms @ extra))) (\<lambda>vs.
        bind_res (map_res (decode N t) vs) (\<lambda>xs. Inr (if xs = [] then zero t else last xs)))) fs
    = map_res (\<lambda>(k, om, t). bind_res (member_vals k (JObj ms)) (\<lambda>vs.
        bind_res (map_res (decode N t) vs) (\<lambda>xs. Inr (if xs = [] then zero t else last xs)))) fs"
    by (intro map_res_cong refl) (auto simp: member_vals_def members_def)
  then show ?thesis by simp
qed

text \<open>A library for the witnesses.\<close>

definition sample_nullable :: nullable_lib where
  "sample_nullable =
     \<lparr>nl_unmarshal = (\<lambda>dec j. if j = JNull then Inr VNull else map_err VSet (dec j)),
      nl_marshal = (\<lambda>enc v. case v of VNull \<Rightarrow> Some JNull | VSet u \<Rightarrow> enc u | _ \<Rightarrow> None),
      nl_empty = (\<lambda>v. v = VNil)\<rparr>"

lemma sample_nullable_laws: "nullable_laws sample_nullable"
  by (simp add: nullable_laws_def sample_nullable_def)


subsection \<open>Checking member names\<close>

text \<open>Names without upper-case letters are folded injectively, so comparing them is enough.\<close>

fun unfolded :: "char \<Rightarrow> bool" where
  "unfolded (Char b0 b1 b2 b3 b4 b5 b6 b7) = (\<not> b7 \<and> (b5 \<or> \<not> b6 \<or> b0 \<and> b1 \<and> b2 \<and> b3 \<and> b4))"

lemma unfolded_range:
  "unfolded c \<Longrightarrow> (of_char c :: nat) < 128 \<and> \<not> (65 \<le> (of_char c :: nat) \<and> (of_char c :: nat) \<le> 90)"
  by (cases c) (auto split: if_splits)

lemma fold_name_ascii: "list_all (\<lambda>c. (of_char c :: nat) < 128) s \<Longrightarrow> fold_name s = map upper_char s"
  by (induction s rule: fold_name.induct) auto

lemma of_upper_char:
  "(of_char (upper_char c) :: nat) =
     (if 97 \<le> (of_char c :: nat) \<and> (of_char c :: nat) \<le> 122 then of_char c - 32 else of_char c)"
  by (auto simp: upper_char_def Let_def)

lemma upper_char_inj:
  assumes "unfolded c" "unfolded d" "upper_char c = upper_char d" shows "c = d"
proof -
  have u: "n = m" if "(if 97 \<le> n \<and> n \<le> 122 then n - 32 else n) = (if 97 \<le> m \<and> m \<le> 122 then m - 32 else m)"
    "\<not> (65 \<le> n \<and> n \<le> 90)" "\<not> (65 \<le> m \<and> m \<le> 90)" for n m :: nat
    using that by (auto split: if_splits)
  have "(of_char (upper_char c) :: nat) = of_char (upper_char d)" using assms(3) by simp
  then have "(of_char c :: nat) = of_char d"
    unfolding of_upper_char by (rule u [OF _ conjunct2 [OF unfolded_range [OF assms(1)]] conjunct2 [OF unfolded_range [OF assms(2)]]])
  then show ?thesis by simp
qed

lemma fold_name_inj:
  assumes "list_all unfolded s" "list_all unfolded t" "fold_name s = fold_name t" shows "s = t"
proof -
  have "list_all (\<lambda>c. (of_char c :: nat) < 128) u" if "list_all unfolded u" for u
    using that unfolded_range by (auto simp: list_all_iff)
  then have "map upper_char s = map upper_char t" using assms fold_name_ascii by metis
  then show ?thesis using assms(1,2)
  proof (induction s arbitrary: t)
    case (Cons c s)
    then show ?case using upper_char_inj by (cases t) auto
  qed simp
qed

fun wf_fast :: "go_type \<Rightarrow> bool" where
  "wf_fast (TPtr t) = wf_fast t"
| "wf_fast (TSlice t) = wf_fast t"
| "wf_fast (TMap t) = wf_fast t"
| "wf_fast (TNullable t) = wf_fast t"
| "wf_fast (TStruct fs) =
     ((if list_all (\<lambda>(k, om, t). list_all unfolded k) fs then distinct (map fst fs)
       else distinct (map (\<lambda>(k, om, t). fold_name k) fs)) \<and> list_all (\<lambda>(k, om, t). wf_fast t) fs)"
| "wf_fast _ = True"

lemma wf_fast: "wf_fast T \<Longrightarrow> wf_type T"
proof (induction T rule: wf_fast.induct)
  case (5 fs)
  have "distinct (map (fold_name \<circ> fst) fs)"
  proof (cases "list_all (\<lambda>(k, om, t). list_all unfolded k) fs")
    case True
    then have "\<forall>k \<in> set (map fst fs). list_all unfolded k" by (auto simp: list_all_iff)
    then have "inj_on fold_name (set (map fst fs))" using fold_name_inj by (blast intro: inj_onI)
    moreover have "distinct (map fst fs)" using 5(2) True by simp
    ultimately have "distinct (map fold_name (map fst fs))" unfolding distinct_map [of fold_name] by blast
    then show ?thesis by simp
  next
    case False
    have eq: "map (fold_name \<circ> fst) fs = map (\<lambda>(k, om, t). fold_name k) fs" by auto
    show ?thesis unfolding eq using 5(2) False by simp
  qed
  moreover have "list_all (\<lambda>(k, om, t). wf_type t) fs" using 5 by (auto simp: list_all_iff)
  ultimately show ?case by simp
qed simp_all

end
