(* ===== verification/Models.thy ===== *)
theory Models
  imports GoTypes
begin

section \<open>The API models (internal/models)\<close>

text \<open>
  The generated structs of models.gen.go and the two hand-written ones beside it, as the
  shapes of GoTypes: for each field its member name, whether it carries omitempty, and its
  type. An enum is its Valid predicate, its type being string. The methods of the two unions
  and of DepositResponse are in ModelMethods.
\<close>

subsection \<open>Enums\<close>

definition AccountFundingDirection_Valid :: "string \<Rightarrow> bool" where
  "AccountFundingDirection_Valid e = (e \<in> {''paid'', ''received''})"

definition BridgeAssetSymbol_Valid :: "string \<Rightarrow> bool" where
  "BridgeAssetSymbol_Valid e = (e \<in> {''USDC'', ''USDX''})"

definition BridgeDepositAsset_Valid :: "string \<Rightarrow> bool" where
  "BridgeDepositAsset_Valid e = (e \<in> {''USDC'', ''USDX''})"

definition BridgeDepositStatus_Valid :: "string \<Rightarrow> bool" where
  "BridgeDepositStatus_Valid e = (e \<in> {''confirming'', ''credited'', ''detected'', ''failed''})"

definition ClosedPositionSide_Valid :: "string \<Rightarrow> bool" where
  "ClosedPositionSide_Valid e = (e \<in> {''Long'', ''Short''})"

definition FillSide_Valid :: "string \<Rightarrow> bool" where
  "FillSide_Valid e = (e \<in> {''buy'', ''sell''})"

definition FillTakerOrMaker_Valid :: "string \<Rightarrow> bool" where
  "FillTakerOrMaker_Valid e = (e \<in> {''maker'', ''taker''})"

definition FundsEntryKind_Valid :: "string \<Rightarrow> bool" where
  "FundsEntryKind_Valid e = (e \<in> {''deposit'', ''faucet'', ''withdrawal''})"

definition FundsEntryStatus_Valid :: "string \<Rightarrow> bool" where
  "FundsEntryStatus_Valid e = (e \<in> {''confirmed'', ''failed'', ''pending''})"

definition MarketStatusStatus_Valid :: "string \<Rightarrow> bool" where
  "MarketStatusStatus_Valid e = (e \<in> {''active'', ''halted''})"

definition MarketSummaryStatus_Valid :: "string \<Rightarrow> bool" where
  "MarketSummaryStatus_Valid e = (e \<in> {''active'', ''halted''})"

definition OrderSide_Valid :: "string \<Rightarrow> bool" where
  "OrderSide_Valid e = (e \<in> {''Buy'', ''Sell''})"

definition OrderStatus_Valid :: "string \<Rightarrow> bool" where
  "OrderStatus_Valid e = (e \<in> {''Cancelled'', ''Expired'', ''Filled'', ''Open'', ''PartiallyFilled'', ''Rejected''})"

definition OrderHistoryEntrySide_Valid :: "string \<Rightarrow> bool" where
  "OrderHistoryEntrySide_Valid e = (e \<in> {''buy'', ''sell''})"

definition OrderHistoryEntryStatus_Valid :: "string \<Rightarrow> bool" where
  "OrderHistoryEntryStatus_Valid e = (e \<in> {''Cancelled'', ''Expired'', ''Filled'', ''Rejected''})"

definition OrderRequestOrderType_Valid :: "string \<Rightarrow> bool" where
  "OrderRequestOrderType_Valid e = (e \<in> {''Limit'', ''Market'', ''StopLimit'', ''StopMarket'', ''TakeProfitLimit'', ''TakeProfitMarket'', ''TrailingLimit'', ''TrailingStop''})"

definition OrderRequestSide_Valid :: "string \<Rightarrow> bool" where
  "OrderRequestSide_Valid e = (e \<in> {''Buy'', ''Sell''})"

definition OrderRequestStp_Valid :: "string \<Rightarrow> bool" where
  "OrderRequestStp_Valid e = (e \<in> {''CancelNewest'', ''CancelOldest'', ''DecrementAndCancel'', ''<nil>''})"

definition OrderRequestTimeInForce_Valid :: "string \<Rightarrow> bool" where
  "OrderRequestTimeInForce_Valid e = (e \<in> {''FOK'', ''GTC'', ''IOC'', ''PostOnly''})"

definition OrderResultErrOutcome_Valid :: "string \<Rightarrow> bool" where
  "OrderResultErrOutcome_Valid e = (e \<in> {''err''})"

definition OrderResultOkOutcome_Valid :: "string \<Rightarrow> bool" where
  "OrderResultOkOutcome_Valid e = (e \<in> {''ok''})"

definition PositionSide_Valid :: "string \<Rightarrow> bool" where
  "PositionSide_Valid e = (e \<in> {''Long'', ''Short''})"

definition ServiceHealthStatus_Valid :: "string \<Rightarrow> bool" where
  "ServiceHealthStatus_Valid e = (e \<in> {''degraded'', ''down'', ''ok'', ''starting''})"

definition ListBridgeDepositsParamsAsset_Valid :: "string \<Rightarrow> bool" where
  "ListBridgeDepositsParamsAsset_Valid e = (e \<in> {''USDC'', ''USDX''})"

definition ListBridgeDepositsParamsStatus_Valid :: "string \<Rightarrow> bool" where
  "ListBridgeDepositsParamsStatus_Valid e = (e \<in> {''confirming'', ''credited'', ''detected'', ''failed''})"

definition FetchOHLCVParamsTimeframe_Valid :: "string \<Rightarrow> bool" where
  "FetchOHLCVParamsTimeframe_Valid e = (e \<in> {''1h'', ''1m'', ''1s'', ''5m''})"

definition TradeSide_Valid :: "string \<Rightarrow> bool" where
  "TradeSide_Valid e = (e \<in> {''buy'', ''sell''})"

definition WithdrawalStatus_Valid :: "string \<Rightarrow> bool" where
  "WithdrawalStatus_Valid e = (e \<in> {''failed'', ''pending'', ''settled''})"

subsection \<open>Structs\<close>

definition AccountFunding_t :: go_type where
  "AccountFunding_t = TStruct [
      (''amount'', True, TPtr TDecimal),
      (''direction'', True, TPtr TString),
      (''funding_rate'', True, TPtr TDecimal),
      (''market_id'', True, TPtr TString),
      (''position_size'', True, TPtr TDecimal),
      (''timestamp'', True, TPtr TInt64)]"

definition AccountPortfolioSummary_t :: go_type where
  "AccountPortfolioSummary_t = TStruct [
      (''available_margin'', True, TPtr TDecimal),
      (''collateral'', True, TPtr TDecimal),
      (''early_access_allowed'', True, TPtr TBool),
      (''margin_used'', True, TPtr TDecimal),
      (''open_orders_count'', True, TPtr TInt64),
      (''open_positions_count'', True, TPtr TInt64),
      (''total_equity'', True, TPtr TDecimal),
      (''total_realized_pnl_24h'', True, TPtr TDecimal),
      (''total_unrealized_pnl'', True, TPtr TDecimal),
      (''total_volume_24h'', True, TPtr TDecimal),
      (''withdrawable'', True, TPtr TDecimal)]"

definition Position_t :: go_type where
  "Position_t = TStruct [
      (''entry_price'', True, TPtr TDecimal),
      (''funding_paid'', True, TPtr TDecimal),
      (''leverage'', True, TNullable TNumber),
      (''leverage_error'', True, TNullable TString),
      (''liquidation_price'', True, TPtr TDecimal),
      (''margin_used'', True, TNullable TDecimal),
      (''margin_used_error'', True, TNullable TString),
      (''market_id'', True, TPtr TString),
      (''max_leverage'', True, TNullable TInt64),
      (''max_leverage_error'', True, TNullable TString),
      (''notional_value'', True, TNullable TDecimal),
      (''notional_value_error'', True, TNullable TString),
      (''realized_pnl'', True, TPtr TDecimal),
      (''roe'', True, TNullable TDecimal),
      (''roe_error'', True, TNullable TString),
      (''side'', True, TPtr TString),
      (''size'', True, TPtr TDecimal),
      (''unrealized_pnl'', True, TPtr TDecimal)]"

definition AccountState_t :: go_type where
  "AccountState_t = TStruct [
      (''positions'', False, TSlice Position_t),
      (''summary'', False, AccountPortfolioSummary_t)]"

definition AccountSummary_t :: go_type where
  "AccountSummary_t = TStruct [
      (''available_margin'', True, TPtr TDecimal),
      (''balance'', True, TPtr TDecimal),
      (''collateral'', True, TPtr TDecimal),
      (''equity'', True, TPtr TDecimal),
      (''positions'', True, TPtr (TSlice Position_t))]"

definition AdlClosureRecord_t :: go_type where
  "AdlClosureRecord_t = TStruct [
      (''account_id'', True, TPtr TString),
      (''position_closed'', True, TPtr TDecimal),
      (''settlement_amount'', True, TPtr TDecimal)]"

definition AdlEventRecord_t :: go_type where
  "AdlEventRecord_t = TStruct [
      (''bad_debt_absorbed_by_fund'', True, TPtr TDecimal),
      (''bankruptcy_price'', True, TPtr TDecimal),
      (''counterparty_closures'', True, TPtr (TSlice AdlClosureRecord_t)),
      (''market_id'', True, TPtr TString),
      (''sequence'', True, TPtr TInt64),
      (''target_account'', True, TPtr TString),
      (''timestamp'', True, TPtr TInt64)]"

definition AgentInfo_t :: go_type where
  "AgentInfo_t = TStruct [
      (''address'', True, TPtr TString),
      (''expiresAt'', True, TPtr TInt64),
      (''label'', True, TNullable TString),
      (''registeredAt'', True, TPtr TInt64)]"

definition AgentRegistrationRequest_t :: go_type where
  "AgentRegistrationRequest_t = TStruct [
      (''agent'', False, TString),
      (''expires_at'', True, TPtr TInt64),
      (''label'', True, TPtr TString),
      (''nonce'', False, TInt64),
      (''signature'', False, TString),
      (''wallet'', False, TString)]"

definition AmendOrderRequest_t :: go_type where
  "AmendOrderRequest_t = TStruct [
      (''price'', True, TPtr TDecimal),
      (''size'', True, TPtr TDecimal)]"

definition BridgeAsset_t :: go_type where
  "BridgeAsset_t = TStruct [
      (''confirmations'', False, TInt64),
      (''contract_address'', True, TNullable TString),
      (''decimals'', False, TInt64),
      (''fee'', True, TPtr TDecimal),
      (''min_amount'', False, TDecimal),
      (''symbol'', False, TString)]"

definition BridgeChainAssets_t :: go_type where
  "BridgeChainAssets_t = TStruct [
      (''chain'', False, TString),
      (''chain_id'', True, TNullable TInt64),
      (''deposit_assets'', False, TSlice BridgeAsset_t),
      (''withdraw_assets'', False, TSlice BridgeAsset_t)]"

definition BridgeAssetsResponse_t :: go_type where
  "BridgeAssetsResponse_t = TStruct [
      (''chains'', False, TSlice BridgeChainAssets_t)]"

definition BridgeDeposit_t :: go_type where
  "BridgeDeposit_t = TStruct [
      (''account_id'', False, TString),
      (''address'', False, TString),
      (''amount'', False, TDecimal),
      (''asset'', False, TString),
      (''chain'', False, TString),
      (''confirmations'', True, TNullable TInt64),
      (''created_at'', False, TInt64),
      (''credited_at'', True, TNullable TInt64),
      (''id'', False, TString),
      (''required_confirmations'', True, TNullable TInt64),
      (''status'', False, TString),
      (''tx_hash'', True, TNullable TString),
      (''updated_at'', True, TPtr TInt64)]"

definition BridgeError_t :: go_type where
  "BridgeError_t = TStruct [
      (''error'', False, TStruct [(''code'', False, TString),
      (''details'', True, TPtr (TMap TAny)),
      (''message'', False, TString)])]"

definition CancelOnDisconnectStatus_t :: go_type where
  "CancelOnDisconnectStatus_t = TStruct [
      (''active'', False, TBool),
      (''enabled'', False, TBool),
      (''grace_secs'', True, TNullable TInt64)]"

definition ClosedPosition_t :: go_type where
  "ClosedPosition_t = TStruct [
      (''closed_at_ms'', True, TPtr TInt64),
      (''entry_price'', True, TPtr TDecimal),
      (''exit_price'', True, TPtr TDecimal),
      (''market_id'', True, TPtr TString),
      (''realized_pnl'', True, TPtr TDecimal),
      (''side'', True, TPtr TString),
      (''size'', True, TPtr TDecimal)]"

definition CreditRequest_t :: go_type where
  "CreditRequest_t = TStruct [
      (''amount'', True, TPtr TDecimal)]"

definition CreditResponse_t :: go_type where
  "CreditResponse_t = TStruct [
      (''amount'', False, TDecimal),
      (''credited_today'', False, TDecimal),
      (''daily_limit'', False, TDecimal)]"

definition DepositRequest_t :: go_type where
  "DepositRequest_t = TStruct [
      (''amount'', False, TDecimal),
      (''asset'', True, TPtr TString)]"

definition EquityPoint_t :: go_type where
  "EquityPoint_t = TStruct [
      (''equity'', True, TPtr TNumber),
      (''timestamp_ms'', True, TPtr TInt64)]"

definition FaucetResponse_t :: go_type where
  "FaucetResponse_t = TStruct [
      (''amount'', True, TPtr TDecimal),
      (''available_at_ms'', True, TPtr TInt64)]"

definition Fill_t :: go_type where
  "Fill_t = TStruct [
      (''fee'', True, TPtr TDecimal),
      (''id'', True, TPtr TString),
      (''is_liquidation'', True, TPtr TBool),
      (''market_id'', True, TPtr TString),
      (''order_id'', True, TPtr TString),
      (''price'', True, TPtr TDecimal),
      (''side'', True, TPtr TString),
      (''size'', True, TPtr TDecimal),
      (''taker_or_maker'', True, TPtr TString),
      (''timestamp'', True, TPtr TInt64)]"

definition FundingPremiumSample_t :: go_type where
  "FundingPremiumSample_t = TStruct [
      (''premium_index'', False, TDecimal),
      (''timestamp'', False, TInt64)]"

definition FundingSample_t :: go_type where
  "FundingSample_t = TStruct [
      (''funding_rate'', True, TPtr TDecimal),
      (''mark_price'', True, TPtr TDecimal),
      (''oracle_price'', True, TPtr TDecimal),
      (''premium_index'', True, TPtr TDecimal),
      (''timestamp'', True, TPtr TInt64)]"

definition FundsEntry_t :: go_type where
  "FundsEntry_t = TStruct [
      (''account'', True, TPtr TString),
      (''amount'', True, TPtr TDecimal),
      (''asset'', True, TPtr TString),
      (''id'', True, TPtr TInt64),
      (''kind'', True, TPtr TString),
      (''status'', True, TPtr TString),
      (''timestamp'', True, TPtr TInt64),
      (''tx_hash'', True, TNullable TString)]"

definition JurisdictionError_t :: go_type where
  "JurisdictionError_t = TStruct [
      (''code'', False, TString),
      (''message'', False, TString)]"

definition LoginRequest_t :: go_type where
  "LoginRequest_t = TStruct [
      (''message'', False, TString),
      (''signature'', False, TString)]"

definition LoginResponse_t :: go_type where
  "LoginResponse_t = TStruct [
      (''address'', True, TPtr TString),
      (''token'', True, TPtr TString)]"

definition Market_t :: go_type where
  "Market_t = TStruct [
      (''base_asset'', True, TPtr TString),
      (''initial_margin_rate'', True, TPtr TDecimal),
      (''lot_size'', True, TPtr TDecimal),
      (''maintenance_margin_rate'', True, TPtr TDecimal),
      (''market_id'', True, TPtr TString),
      (''max_leverage'', True, TPtr TInt64),
      (''max_order_size'', True, TPtr TDecimal),
      (''min_order_size'', True, TPtr TDecimal),
      (''quote_asset'', True, TPtr TString),
      (''tick_size'', True, TPtr TDecimal)]"

definition MarketRiskParams_t :: go_type where
  "MarketRiskParams_t = TStruct [
      (''initial_margin_rate'', True, TPtr TDecimal),
      (''maintenance_margin_rate'', True, TPtr TDecimal),
      (''market_id'', True, TPtr TString),
      (''max_leverage'', True, TPtr TInt64)]"

definition MarketStatus_t :: go_type where
  "MarketStatus_t = TStruct [
      (''adl_event_count'', True, TPtr TInt64),
      (''halt_reason'', True, TNullable TString),
      (''halted_at'', True, TNullable TInt64),
      (''market_id'', True, TPtr TString),
      (''status'', True, TPtr TString)]"

definition MarketSummary_t :: go_type where
  "MarketSummary_t = TStruct [
      (''adl_event_count'', True, TPtr TInt64),
      (''halt_reason'', True, TNullable TString),
      (''halted_at'', True, TNullable TInt64),
      (''last_trade_price'', True, TNullable TNumber),
      (''market_id'', True, TPtr TString),
      (''status'', True, TPtr TString),
      (''trade_count'', True, TPtr TInt64),
      (''volume_24h'', True, TPtr TNumber)]"

definition Order_t :: go_type where
  "Order_t = TStruct [
      (''account_id'', True, TPtr TString),
      (''cancellation_reason'', True, TNullable TRaw),
      (''created_at'', True, TPtr TInt64),
      (''filled_qty'', True, TPtr TDecimal),
      (''id'', True, TPtr TString),
      (''limit_offset_bps'', True, TNullable TInt64),
      (''market_id'', True, TPtr TString),
      (''max_slippage_bps'', True, TNullable TInt64),
      (''order_type'', True, TPtr TString),
      (''price'', True, TPtr TDecimal),
      (''quantity'', True, TPtr TDecimal),
      (''side'', True, TPtr TString),
      (''status'', True, TPtr TString),
      (''stp'', True, TNullable TString),
      (''time_in_force'', True, TPtr TString),
      (''updated_at'', True, TPtr TInt64)]"

definition OrderCancellationReason2_t :: go_type where
  "OrderCancellationReason2_t = TStruct [
      (''Stp'', True, TPtr TString)]"

definition OrderBook_t :: go_type where
  "OrderBook_t = TStruct [
      (''asks'', True, TPtr (TSlice (TSlice TAny))),
      (''bids'', True, TPtr (TSlice (TSlice TAny))),
      (''datetime'', True, TPtr TString),
      (''nonce'', True, TPtr TInt64),
      (''symbol'', True, TPtr TString),
      (''timestamp'', True, TPtr TInt64)]"

definition OrderHistoryEntry_t :: go_type where
  "OrderHistoryEntry_t = TStruct [
      (''cancellation_reason'', True, TNullable TString),
      (''completed_at_ms'', True, TPtr TInt64),
      (''created_at_ms'', True, TPtr TInt64),
      (''filled_qty'', True, TPtr TDecimal),
      (''id'', True, TPtr TString),
      (''market_id'', True, TPtr TString),
      (''order_type'', True, TPtr TString),
      (''price'', True, TNullable TDecimal),
      (''side'', True, TPtr TString),
      (''size'', True, TPtr TDecimal),
      (''status'', True, TPtr TString)]"

definition OrderRequest_t :: go_type where
  "OrderRequest_t = TStruct [
      (''limit_offset_bps'', True, TNullable TInt64),
      (''market_id'', False, TString),
      (''max_slippage_bps'', True, TNullable TInt64),
      (''order_type'', False, TString),
      (''price'', True, TPtr TDecimal),
      (''quantity'', False, TDecimal),
      (''reduce_only'', True, TPtr TBool),
      (''side'', False, TString),
      (''stop_price'', True, TNullable TDecimal),
      (''stp'', True, TNullable TString),
      (''time_in_force'', False, TString),
      (''trailing_offset_bps'', True, TNullable TInt64),
      (''trigger_price'', True, TNullable TDecimal)]"

definition OrderResponse_t :: go_type where
  "OrderResponse_t = TStruct [
      (''fills'', True, TPtr (TSlice Fill_t)),
      (''order'', True, TPtr Order_t)]"

definition OrderResultErr_t :: go_type where
  "OrderResultErr_t = TStruct [
      (''error'', False, TString),
      (''message'', False, TString),
      (''outcome'', False, TString)]"

definition OrderResultOk_t :: go_type where
  "OrderResultOk_t = TStruct [
      (''fills'', True, TPtr (TSlice Fill_t)),
      (''order'', False, Order_t),
      (''outcome'', False, TString)]"

definition PreviewResponse_t :: go_type where
  "PreviewResponse_t = TStruct [
      (''accepted'', True, TPtr TBool),
      (''expected_fill_vwap'', True, TNullable TDecimal),
      (''projected_fees'', True, TPtr TDecimal),
      (''projected_post_trade_equity'', True, TPtr TDecimal),
      (''projected_post_trade_leverage'', True, TPtr TDecimal),
      (''projected_post_trade_liquidation_price'', True, TNullable TDecimal),
      (''reject_reason'', True, TNullable TString),
      (''required_initial_margin'', True, TPtr TDecimal)]"

definition RateLimitStatus_t :: go_type where
  "RateLimitStatus_t = TStruct [
      (''limit'', False, TNullable TInt64),
      (''remaining'', False, TNullable TInt64),
      (''reset_at_ms'', False, TNullable TInt64),
      (''tier'', False, TString)]"

definition ServiceHealth_t :: go_type where
  "ServiceHealth_t = TStruct [
      (''services'', True, TPtr (TMap TAny)),
      (''status'', True, TPtr TString),
      (''timestamp_ms'', True, TPtr TInt64)]"

definition SetCancelOnDisconnectRequest_t :: go_type where
  "SetCancelOnDisconnectRequest_t = TStruct [
      (''enabled'', False, TBool)]"

definition StatsSnapshot_t :: go_type where
  "StatsSnapshot_t = TStruct [
      (''connected'', True, TPtr TBool),
      (''events_per_sec'', True, TPtr TNumber),
      (''events_received'', True, TPtr TInt64),
      (''fills_total'', True, TPtr TInt64),
      (''gap_count'', True, TPtr TInt64),
      (''health'', True, TPtr TString),
      (''highest_sequence_seen'', True, TPtr TInt64),
      (''last_event_ms'', True, TNullable TInt64),
      (''liquidations_total'', True, TPtr TInt64),
      (''unique_traders_24h'', True, TPtr TInt64),
      (''unique_traders_30d'', True, TPtr TInt64),
      (''unique_traders_7d'', True, TPtr TInt64),
      (''uptime_seconds'', True, TPtr TInt64)]"

definition ThroughputSample_t :: go_type where
  "ThroughputSample_t = TStruct [
      (''fills'', True, TPtr TInt64),
      (''timestamp'', True, TPtr TInt64)]"

definition Ticker_t :: go_type where
  "Ticker_t = TStruct [
      (''ask'', True, TNullable TNumber),
      (''askVolume'', True, TNullable TNumber),
      (''baseVolume'', True, TNullable TNumber),
      (''bid'', True, TNullable TNumber),
      (''bidVolume'', True, TNullable TNumber),
      (''change'', True, TNullable TNumber),
      (''close'', True, TNullable TNumber),
      (''datetime'', True, TPtr TString),
      (''high'', True, TNullable TNumber),
      (''indexPrice'', True, TNullable TNumber),
      (''info'', True, TPtr (TMap TAny)),
      (''last'', True, TNullable TNumber),
      (''low'', True, TNullable TNumber),
      (''markPrice'', True, TNullable TNumber),
      (''open'', True, TNullable TNumber),
      (''percentage'', True, TNullable TNumber),
      (''quoteVolume'', True, TNullable TNumber),
      (''symbol'', True, TPtr TString),
      (''timestamp'', True, TPtr TInt64)]"

definition Trade_t :: go_type where
  "Trade_t = TStruct [
      (''amount'', True, TPtr TNumber),
      (''cost'', True, TPtr TNumber),
      (''datetime'', True, TPtr TString),
      (''id'', True, TPtr TString),
      (''info'', True, TPtr (TMap TAny)),
      (''is_liquidation'', True, TPtr TBool),
      (''price'', True, TPtr TNumber),
      (''side'', True, TPtr TString),
      (''symbol'', True, TPtr TString),
      (''takerOrMaker'', True, TNullable TString),
      (''timestamp'', True, TPtr TInt64)]"

definition Withdrawal_t :: go_type where
  "Withdrawal_t = TStruct [
      (''amount'', False, TDecimal),
      (''id'', False, TString),
      (''status'', False, TString),
      (''timestamp'', False, TInt64)]"

text \<open>\<open>AccountFees\<close> (account_fees.go).\<close>

definition FeeDiscount_t :: go_type where
  "FeeDiscount_t = TMap TAny"

definition AccountFees_t :: go_type where
  "AccountFees_t = TStruct [
      (''discounts'', False, TSlice FeeDiscount_t),
      (''maker_fee_bps'', False, TNumber),
      (''schedule'', False, TString),
      (''taker_fee_bps'', False, TNumber),
      (''tier'', False, TString),
      (''volume_30d'', False, TDecimal),
      (''volume_30d_estimated'', False, TBool)]"

text \<open>The query parameters of the operations, which the SDK writes into its URLs itself.\<close>

definition FetchEquityHistoryParams_t :: go_type where
  "FetchEquityHistoryParams_t = TStruct [
      (''limit'', True, TPtr TInt64),
      (''cursor'', True, TPtr TString)]"

definition FetchAdlHistoryParams_t :: go_type where
  "FetchAdlHistoryParams_t = TStruct [
      (''limit'', True, TPtr TInt64)]"

definition ListBridgeDepositsParams_t :: go_type where
  "ListBridgeDepositsParams_t = TStruct [
      (''limit'', True, TPtr TInt64),
      (''chain'', True, TPtr TString),
      (''asset'', True, TPtr TString),
      (''status'', True, TPtr TString)]"

definition FetchDepositsParams_t :: go_type where
  "FetchDepositsParams_t = TStruct [
      (''limit'', True, TPtr TInt64)]"

definition FetchFillsParams_t :: go_type where
  "FetchFillsParams_t = TStruct [
      (''limit'', True, TPtr TInt64),
      (''cursor'', True, TPtr TString)]"

definition FetchAccountFundingParams_t :: go_type where
  "FetchAccountFundingParams_t = TStruct [
      (''limit'', True, TPtr TInt64)]"

definition FetchAdlEventsParams_t :: go_type where
  "FetchAdlEventsParams_t = TStruct [
      (''limit'', True, TPtr TInt64)]"

definition FetchOHLCVParams_t :: go_type where
  "FetchOHLCVParams_t = TStruct [
      (''timeframe'', True, TPtr TString),
      (''limit'', True, TPtr TInt64)]"

definition FetchFundingParams_t :: go_type where
  "FetchFundingParams_t = TStruct [
      (''limit'', True, TPtr TInt64)]"

definition FetchFundingSamplesParams_t :: go_type where
  "FetchFundingSamplesParams_t = TStruct [
      (''limit'', True, TPtr TInt64)]"

definition FetchTradesParams_t :: go_type where
  "FetchTradesParams_t = TStruct [
      (''limit'', True, TPtr TInt64),
      (''cursor'', True, TPtr TString)]"

definition CancelAllOrdersParams_t :: go_type where
  "CancelAllOrdersParams_t = TStruct [
      (''market_id'', True, TPtr TString)]"

definition FetchOrderHistoryParams_t :: go_type where
  "FetchOrderHistoryParams_t = TStruct [
      (''limit'', True, TPtr TInt64),
      (''cursor'', True, TPtr TString)]"

definition CancelOrderParams_t :: go_type where
  "CancelOrderParams_t = TStruct [
      (''market_id'', False, TString)]"

definition FetchOrderParams_t :: go_type where
  "FetchOrderParams_t = TStruct [
      (''market_id'', False, TString)]"

definition EditOrderParams_t :: go_type where
  "EditOrderParams_t = TStruct [
      (''market_id'', False, TString)]"

definition FetchClosedPositionsParams_t :: go_type where
  "FetchClosedPositionsParams_t = TStruct [
      (''limit'', True, TPtr TInt64),
      (''cursor'', True, TPtr TString)]"

definition ConnectStreamParams_t :: go_type where
  "ConnectStreamParams_t = TStruct [
      (''token'', False, TString)]"

definition FetchWithdrawalsParams_t :: go_type where
  "FetchWithdrawalsParams_t = TStruct [
      (''limit'', True, TPtr TInt64)]"

definition ConnectWebSocketParams_t :: go_type where
  "ConnectWebSocketParams_t = TStruct [
      (''token'', False, TString)]"

definition api_models :: "(string \<times> go_type) list" where
  "api_models = [
      (''AccountFunding'', AccountFunding_t), (''AccountPortfolioSummary'', AccountPortfolioSummary_t), (''Position'', Position_t),
      (''AccountState'', AccountState_t), (''AccountSummary'', AccountSummary_t), (''AdlClosureRecord'', AdlClosureRecord_t),
      (''AdlEventRecord'', AdlEventRecord_t), (''AgentInfo'', AgentInfo_t), (''AgentRegistrationRequest'', AgentRegistrationRequest_t),
      (''AmendOrderRequest'', AmendOrderRequest_t), (''BridgeAsset'', BridgeAsset_t), (''BridgeChainAssets'', BridgeChainAssets_t),
      (''BridgeAssetsResponse'', BridgeAssetsResponse_t), (''BridgeDeposit'', BridgeDeposit_t), (''BridgeError'', BridgeError_t),
      (''CancelOnDisconnectStatus'', CancelOnDisconnectStatus_t), (''ClosedPosition'', ClosedPosition_t), (''CreditRequest'', CreditRequest_t),
      (''CreditResponse'', CreditResponse_t), (''DepositRequest'', DepositRequest_t), (''EquityPoint'', EquityPoint_t),
      (''FaucetResponse'', FaucetResponse_t), (''Fill'', Fill_t), (''FundingPremiumSample'', FundingPremiumSample_t),
      (''FundingSample'', FundingSample_t), (''FundsEntry'', FundsEntry_t), (''JurisdictionError'', JurisdictionError_t),
      (''LoginRequest'', LoginRequest_t), (''LoginResponse'', LoginResponse_t), (''Market'', Market_t),
      (''MarketRiskParams'', MarketRiskParams_t), (''MarketStatus'', MarketStatus_t), (''MarketSummary'', MarketSummary_t),
      (''Order'', Order_t), (''OrderCancellationReason2'', OrderCancellationReason2_t), (''OrderBook'', OrderBook_t),
      (''OrderHistoryEntry'', OrderHistoryEntry_t), (''OrderRequest'', OrderRequest_t), (''OrderResponse'', OrderResponse_t),
      (''OrderResultErr'', OrderResultErr_t), (''OrderResultOk'', OrderResultOk_t), (''PreviewResponse'', PreviewResponse_t),
      (''RateLimitStatus'', RateLimitStatus_t), (''ServiceHealth'', ServiceHealth_t), (''SetCancelOnDisconnectRequest'', SetCancelOnDisconnectRequest_t),
      (''StatsSnapshot'', StatsSnapshot_t), (''ThroughputSample'', ThroughputSample_t), (''Ticker'', Ticker_t),
      (''Trade'', Trade_t), (''Withdrawal'', Withdrawal_t),
      (''AccountFees'', AccountFees_t),
      (''FetchEquityHistoryParams'', FetchEquityHistoryParams_t), (''FetchAdlHistoryParams'', FetchAdlHistoryParams_t), (''ListBridgeDepositsParams'', ListBridgeDepositsParams_t),
      (''FetchDepositsParams'', FetchDepositsParams_t), (''FetchFillsParams'', FetchFillsParams_t), (''FetchAccountFundingParams'', FetchAccountFundingParams_t),
      (''FetchAdlEventsParams'', FetchAdlEventsParams_t), (''FetchOHLCVParams'', FetchOHLCVParams_t), (''FetchFundingParams'', FetchFundingParams_t),
      (''FetchFundingSamplesParams'', FetchFundingSamplesParams_t), (''FetchTradesParams'', FetchTradesParams_t), (''CancelAllOrdersParams'', CancelAllOrdersParams_t),
      (''FetchOrderHistoryParams'', FetchOrderHistoryParams_t), (''CancelOrderParams'', CancelOrderParams_t), (''FetchOrderParams'', FetchOrderParams_t),
      (''EditOrderParams'', EditOrderParams_t), (''FetchClosedPositionsParams'', FetchClosedPositionsParams_t), (''ConnectStreamParams'', ConnectStreamParams_t),
      (''FetchWithdrawalsParams'', FetchWithdrawalsParams_t), (''ConnectWebSocketParams'', ConnectWebSocketParams_t)]"

lemma api_models_wf: "(n, T) \<in> set api_models \<Longrightarrow> wf_type T"
proof -
  have "list_all (\<lambda>(n, T). wf_fast T) api_models" by code_simp
  then show "(n, T) \<in> set api_models \<Longrightarrow> wf_type T" using wf_fast by (auto simp: list_all_iff)
qed

subsection \<open>Markets (market.go)\<close>

text \<open>\<open>Market.UnmarshalJSON\<close>: the served names id, base and quote win over the spec's.\<close>

definition market_names_t :: go_type where
  "market_names_t = TStruct [(''id'', False, TPtr TString), (''base'', False, TPtr TString), (''quote'', False, TPtr TString)]"

definition set_if :: "nat \<Rightarrow> go_val \<Rightarrow> go_val list \<Rightarrow> go_val list" where
  "set_if i v vs = (if v = VNil then vs else vs[i := v])"

fun resolve_market :: "go_val \<Rightarrow> go_val \<Rightarrow> json_error + go_val" where
  "resolve_market (VStruct vs) (VStruct [i, b, q]) =
     (let vs = set_if 4 i vs; vs = set_if 0 b vs; vs = set_if 8 q vs
      in if vs ! 4 = VNil then Inl (JCustom ''market row has neither id nor market_id'') else Inr (VStruct vs))"
| "resolve_market _ _ = Inl JType"

definition Market_UnmarshalJSON :: "nullable_lib \<Rightarrow> json \<Rightarrow> json_error + go_val" where
  "Market_UnmarshalJSON N j =
     bind_res (decode N Market_t j) (\<lambda>v. bind_res (decode N market_names_t j) (resolve_market v))"

subsection \<open>Properties\<close>



text \<open>A market row carries its identifier under either spelling. A row decodes exactly when
  its members are well typed and it has an id or a market_id; the decoded market's id, base
  and quote are the served names where present and the spec's otherwise, and its other
  fields are those of the plain decoding.\<close>

lemma market_names_resolved:
  assumes "decode N Market_t j = Inr (VStruct vs)" "decode N market_names_t j = Inr (VStruct [i, b, q])"
  shows "Market_UnmarshalJSON N j =
    (if i = VNil \<and> vs ! 4 = VNil then Inl (JCustom ''market row has neither id nor market_id'')
     else Inr (VStruct (vs[4 := if i = VNil then vs ! 4 else i, 0 := if b = VNil then vs ! 0 else b,
                           8 := if q = VNil then vs ! 8 else q])))"
proof -
  have "length vs = 10"
    using assms(1) by (auto simp: Market_t_def map_err_def dest!: length_map_res)
  moreover have set_if_eq: "set_if i v us = us[i := if v = VNil then us ! i else v]" for i v us
    by (simp add: set_if_def)
  ultimately have "(set_if 8 q (set_if 0 b (set_if 4 i vs))) ! 4 = (if i = VNil then vs ! 4 else i)"
    "set_if 8 q (set_if 0 b (set_if 4 i vs)) = vs[4 := if i = VNil then vs ! 4 else i, 0 := if b = VNil then vs ! 0 else b,
       8 := if q = VNil then vs ! 8 else q]"
    by simp_all
  then show ?thesis by (simp add: Market_UnmarshalJSON_def assms Let_def)
qed

end
