(* ===== verification/ModelMethods.thy ===== *)
theory ModelMethods
  imports Models Float64
begin

section \<open>The methods of the generated models (models.gen.go)\<close>

text \<open>
  What models.gen.go declares beside its types: the two unions, whose value is the raw JSON a
  response held until one alternative is asked for, and DepositResponse, which keeps the
  members it does not know. A union is a \<open>go_val\<close> of type \<open>TRaw\<close>: VNil before anything is
  stored. A setter returns the changed union and the error it returns, None for nil.
  runtime.JSONMerge is third-party code, an argument. DepositResponse.MarshalJSON, which the
  SDK never calls and which prints float64 numbers, is left out.
\<close>

subsection \<open>Unions\<close>

type_synonym merger = "go_val \<Rightarrow> go_val \<Rightarrow> go_val \<times> json_error option"

text \<open>json.Unmarshal of the raw bytes, which are empty at first, and json.Marshal.\<close>

definition Unmarshal_raw :: "nullable_lib \<Rightarrow> go_type \<Rightarrow> go_val \<Rightarrow> json_error + go_val" where
  "Unmarshal_raw N T u = (case u of VJson j \<Rightarrow> decode N T j | _ \<Rightarrow> Inl JSyntax)"

definition Marshal :: "nullable_lib \<Rightarrow> go_type \<Rightarrow> go_val \<Rightarrow> json_error + go_val" where
  "Marshal N T v =
     (case encode N T v of None \<Rightarrow> Inl (JCustom ''json: unsupported value'') | Some j \<Rightarrow> Inr (VJson j))"

text \<open>The two bodies the setters share: overwrite, and merge into what is there.\<close>

definition store_union :: "json_error + go_val \<Rightarrow> go_val \<times> json_error option" where
  "store_union r = (case r of Inl e \<Rightarrow> (VNil, Some e) | Inr b \<Rightarrow> (b, None))"

definition merge_union :: "merger \<Rightarrow> go_val \<Rightarrow> json_error + go_val \<Rightarrow> go_val \<times> json_error option" where
  "merge_union M u r = (case r of Inl e \<Rightarrow> (u, Some e) | Inr b \<Rightarrow> M u b)"

paragraph \<open>Order.cancellation_reason\<close>

definition AsOrderCancellationReason1 :: "nullable_lib \<Rightarrow> go_val \<Rightarrow> json_error + go_val" where
  "AsOrderCancellationReason1 N u = Unmarshal_raw N TString u"

definition FromOrderCancellationReason1 :: "nullable_lib \<Rightarrow> go_val \<Rightarrow> go_val \<times> json_error option" where
  "FromOrderCancellationReason1 N v = store_union (Marshal N TString v)"

definition MergeOrderCancellationReason1 ::
  "nullable_lib \<Rightarrow> merger \<Rightarrow> go_val \<Rightarrow> go_val \<Rightarrow> go_val \<times> json_error option" where
  "MergeOrderCancellationReason1 N M u v = merge_union M u (Marshal N TString v)"

definition AsOrderCancellationReason2 :: "nullable_lib \<Rightarrow> go_val \<Rightarrow> json_error + go_val" where
  "AsOrderCancellationReason2 N u = Unmarshal_raw N OrderCancellationReason2_t u"

definition FromOrderCancellationReason2 :: "nullable_lib \<Rightarrow> go_val \<Rightarrow> go_val \<times> json_error option" where
  "FromOrderCancellationReason2 N v = store_union (Marshal N OrderCancellationReason2_t v)"

definition MergeOrderCancellationReason2 ::
  "nullable_lib \<Rightarrow> merger \<Rightarrow> go_val \<Rightarrow> go_val \<Rightarrow> go_val \<times> json_error option" where
  "MergeOrderCancellationReason2 N M u v = merge_union M u (Marshal N OrderCancellationReason2_t v)"

text \<open>json.RawMessage prints an empty value as null and takes any text as it is.\<close>

definition union_MarshalJSON :: "go_val \<Rightarrow> json" where
  "union_MarshalJSON u = (case u of VJson j \<Rightarrow> j | _ \<Rightarrow> JNull)"

definition union_UnmarshalJSON :: "json \<Rightarrow> go_val" where
  "union_UnmarshalJSON j = VJson j"

paragraph \<open>The result of one order of a batch\<close>

definition outcome_patch :: "string \<Rightarrow> go_val" where
  "outcome_patch tag = VJson (JObj [(''outcome'', JStr tag)])"

text \<open>A value with its outcome set, or the error of Marshal or of the merge. From stores whatever a
  failing merge returned; Merge then leaves the union alone.\<close>

definition From_tagged :: "merger \<Rightarrow> string \<Rightarrow> json_error + go_val \<Rightarrow> go_val \<Rightarrow> go_val \<times> json_error option" where
  "From_tagged M tag r u =
     (case r of Inl e \<Rightarrow> (u, Some e) | Inr b \<Rightarrow> M b (outcome_patch tag))"

definition Merge_tagged :: "merger \<Rightarrow> string \<Rightarrow> json_error + go_val \<Rightarrow> go_val \<Rightarrow> go_val \<times> json_error option" where
  "Merge_tagged M tag r u =
     (case r of
        Inl e \<Rightarrow> (u, Some e)
      | Inr b \<Rightarrow> (case M b (outcome_patch tag) of (_, Some e) \<Rightarrow> (u, Some e) | (b, None) \<Rightarrow> M u b))"

definition AsOrderResultOk :: "nullable_lib \<Rightarrow> go_val \<Rightarrow> json_error + go_val" where
  "AsOrderResultOk N u = Unmarshal_raw N OrderResultOk_t u"

definition FromOrderResultOk :: "nullable_lib \<Rightarrow> merger \<Rightarrow> go_val \<Rightarrow> go_val \<Rightarrow> go_val \<times> json_error option" where
  "FromOrderResultOk N M u v = From_tagged M ''ok'' (Marshal N OrderResultOk_t v) u"

definition MergeOrderResultOk :: "nullable_lib \<Rightarrow> merger \<Rightarrow> go_val \<Rightarrow> go_val \<Rightarrow> go_val \<times> json_error option" where
  "MergeOrderResultOk N M u v = Merge_tagged M ''ok'' (Marshal N OrderResultOk_t v) u"

definition AsOrderResultErr :: "nullable_lib \<Rightarrow> go_val \<Rightarrow> json_error + go_val" where
  "AsOrderResultErr N u = Unmarshal_raw N OrderResultErr_t u"

definition FromOrderResultErr :: "nullable_lib \<Rightarrow> merger \<Rightarrow> go_val \<Rightarrow> go_val \<Rightarrow> go_val \<times> json_error option" where
  "FromOrderResultErr N M u v = From_tagged M ''err'' (Marshal N OrderResultErr_t v) u"

definition MergeOrderResultErr :: "nullable_lib \<Rightarrow> merger \<Rightarrow> go_val \<Rightarrow> go_val \<Rightarrow> go_val \<times> json_error option" where
  "MergeOrderResultErr N M u v = Merge_tagged M ''err'' (Marshal N OrderResultErr_t v) u"

definition OrderResult_Discriminator :: "nullable_lib \<Rightarrow> go_val \<Rightarrow> json_error + string" where
  "OrderResult_Discriminator N u =
     bind_res (Unmarshal_raw N (TStruct [(''outcome'', False, TString)]) u)
       (\<lambda>v. case v of VStruct [VString s] \<Rightarrow> Inr s | _ \<Rightarrow> Inl JType)"

datatype order_result = ROk go_val | RErr go_val

definition OrderResult_ValueByDiscriminator :: "nullable_lib \<Rightarrow> go_val \<Rightarrow> json_error + order_result" where
  "OrderResult_ValueByDiscriminator N u =
     bind_res (OrderResult_Discriminator N u) (\<lambda>d.
       if d = ''err'' then map_err RErr (AsOrderResultErr N u)
       else if d = ''ok'' then map_err ROk (AsOrderResultOk N u)
       else Inl (JCustom (''unknown discriminator value: '' @ d)))"

subsection \<open>DepositResponse\<close>

text \<open>A value is \<open>VStruct [balance, additional properties]\<close>.\<close>

definition DepositResponse_Get :: "go_val \<Rightarrow> string \<Rightarrow> go_val \<times> bool" where
  "DepositResponse_Get a fieldName =
     (case a of
        VStruct [balance, VMap ms] \<Rightarrow>
          (case map_of ms fieldName of None \<Rightarrow> (VNil, False) | Some v \<Rightarrow> (v, True))
      | _ \<Rightarrow> (VNil, False))"

definition DepositResponse_Set :: "go_val \<Rightarrow> string \<Rightarrow> go_val \<Rightarrow> go_val" where
  "DepositResponse_Set a fieldName v =
     (case a of
        VStruct [balance, VMap ms] \<Rightarrow> VStruct [balance, VMap (AList.update fieldName v ms)]
      | VStruct [balance, _] \<Rightarrow> VStruct [balance, VMap [(fieldName, v)]]
      | _ \<Rightarrow> a)"

text \<open>
  \<open>DepositResponse.UnmarshalJSON\<close> (models.gen.go) reads its members one by one with
  json.Unmarshal, so a number beside balance becomes a float64: the nearest one to the
  literal, ties to even, an error past the greatest.
\<close>

definition number_value :: "string \<Rightarrow> rat" where
  "number_value s =
     (let m = takeWhile (\<lambda>c. c \<noteq> CHR ''e'' \<and> c \<noteq> CHR ''E'') s; e = drop (Suc (length m)) s;
          neg = has_prefix e ''-''; n = int (digits_val (if neg \<or> has_prefix e ''+'' then tl e else e))
      in lit_val m * 10 powi (if neg then - n else n))"

definition ParseFloat64 :: "string \<Rightarrow> rat option" where
  "ParseFloat64 s =
     (let q = number_value s; u = ulp (max (exponent \<bar>q\<bar>) (- 1022)); r = of_int (round_even (\<bar>q\<bar> / u)) * u
      in if q = 0 then Some 0 else if r \<ge> 2 ^ 1024 then None else Some (if q < 0 then - r else r))"

text \<open>json.Unmarshal into an empty interface.\<close>

fun go_any :: "json \<Rightarrow> json_error + go_val" where
  "go_any JNull = Inr VNil"
| "go_any (JBool b) = Inr (VBool b)"
| "go_any (JStr s) = Inr (VString s)"
| "go_any (JNum s) = (case ParseFloat64 s of None \<Rightarrow> Inl JType | Some x \<Rightarrow> Inr (VFloat x))"
| "go_any (JArr js) = map_err VSlice (map_res go_any js)"
| "go_any (JObj ms) =
     map_err (\<lambda>vs. VMap (fold (\<lambda>(k, v). AList.update k v) vs [])) (map_res (\<lambda>(k, v). map_err (Pair k) (go_any v)) ms)"

definition DepositResponse_UnmarshalJSON :: "json \<Rightarrow> json_error + go_val" where
  "DepositResponse_UnmarshalJSON j =
     bind_res (members j) (\<lambda>ms.
       let object = fold (\<lambda>(k, v). AList.update k v) ms [];
           rest = filter (\<lambda>(k, v). k \<noteq> ''balance'') object
       in bind_res (case map_of object ''balance'' of
                      None \<Rightarrow> Inr VNil
                    | Some raw \<Rightarrow> if raw = JNull then Inr VNil else map_err VPtr (decode_decimal raw)) (\<lambda>balance.
          bind_res (map_res (\<lambda>(k, v). map_err (Pair k) (go_any v)) rest) (\<lambda>others.
            Inr (VStruct [balance, if rest = [] then VNil else VMap others]))))"

subsection \<open>Properties\<close>

text \<open>What is set is what is found, and nothing else changes, the balance included.\<close>

lemma DepositResponse_get_set:
  assumes "a = VStruct [balance, VNil] \<or> a = VStruct [balance, VMap ms]"
  shows "DepositResponse_Get (DepositResponse_Set a k v) k' = (if k' = k then (v, True) else DepositResponse_Get a k')"
    and "\<exists>ms'. DepositResponse_Set a k v = VStruct [balance, VMap ms']"
  using assms by (auto simp: DepositResponse_Get_def DepositResponse_Set_def update_conv' split: option.splits)

text \<open>Objects whose members are in order and occur once, the form encoding/json prints maps in.\<close>

fun canonical :: "json \<Rightarrow> bool" where
  "canonical (JArr js) = list_all canonical js"
| "canonical (JObj ms) = (sorted (map fst ms) \<and> distinct (map fst ms) \<and> list_all (\<lambda>(k, j). canonical j) ms)"
| "canonical _ = True"

text \<open>The documented behaviour of JSONMerge the setters rely on: a patch of one string replaces that
  member and keeps the others.\<close>

definition merge_laws :: "merger \<Rightarrow> bool" where
  "merge_laws M \<longleftrightarrow>
     (\<forall>ms k s. canonical (JObj ms) \<and> k \<in> fst ` set ms \<longrightarrow>
        M (VJson (JObj ms)) (VJson (JObj [(k, JStr s)])) = (VJson (JObj (AList.update k (JStr s) ms)), None))"

lemma those_snoc: "those (xs @ [Some y]) = map_option (\<lambda>ys. ys @ [y]) (those xs)"
  by (induction xs) (auto split: option.split simp: option.map_comp o_def)

lemma join_members_snoc:
  "join_members (ms @ [Some (k, Some j)]) =
    map_option (\<lambda>js. JObj (js @ [(k, j)])) (those (map (\<lambda>(k, j). map_option (Pair k) j) (List.map_filter id ms)))"
  by (simp add: join_members_def map_filter_def those_snoc option.map_comp o_def)

definition outcome_field :: "string \<times> bool \<times> go_type" where
  "outcome_field = (''outcome'', False, TString)"

text \<open>The outcome of a struct that ends with it is a member of its own.\<close>

lemma encode_outcome:
  assumes "length vs = length fs"
  shows "\<exists>e. \<forall>x. encode N (TStruct (fs @ [outcome_field])) (VStruct (vs @ [VString x])) =
    map_option (\<lambda>js. JObj (js @ [(''outcome'', JStr x)])) e"
  using assms by (auto simp: outcome_field_def empty_val_def join_members_snoc)

lemma update_snoc: "k \<notin> fst ` set ms \<Longrightarrow> AList.update k v (ms @ [(k, w)]) = ms @ [(k, v)]"
  by (induction ms) auto

lemma typed_outcome:
  assumes "typed N (TStruct (fs @ [outcome_field])) (VStruct (vs @ [VString x]))" "length vs = length fs"
  shows "typed N (TStruct (fs @ [outcome_field])) (VStruct (vs @ [VString y]))"
  using assms by (auto simp: outcome_field_def list_all2_append)

lemma map_res_snoc:
  assumes "map_res f (xs @ [x]) = Inr (ys @ [y])" "length ys = length xs"
  shows "map_res f [x] = Inr [y]"
  using assms by (simp only: map_res_Inr list_all2_append list_all2_append2 list_all2_lengthD) auto

lemma decode_last:
  assumes "decode N (TStruct (fs @ [f])) j = Inr (VStruct (vs @ [v]))" "length vs = length fs"
  shows "decode N (TStruct [f]) j = Inr (VStruct [v])"
proof -
  let ?g = "\<lambda>(k, om, t). bind_res (member_vals k j) (\<lambda>vs. bind_res (map_res (decode N t) vs)
    (\<lambda>xs. Inr (if xs = [] then zero t else last xs)))"
  have "map_res ?g (fs @ [f]) = Inr (vs @ [v])" using assms(1) by (auto simp: map_err_def)
  then have "map_res ?g [f] = Inr [v]" using assms(2) by (rule map_res_snoc)
  then show ?thesis by (simp only: decode.simps map_err_simps)
qed

lemma From_tagged_decodes:
  assumes N: "nullable_laws N" and M: "merge_laws M"
    and wf: "wf_type (TStruct (fs @ [outcome_field]))" and len: "length vs = length fs"
    and ty: "typed N (TStruct (fs @ [outcome_field])) (VStruct (vs @ [VString x]))"
    and enc: "encode N (TStruct (fs @ [outcome_field])) (VStruct (vs @ [VString x])) = Some j" "canonical j"
  shows "\<exists>j'. From_tagged M tag (Marshal N (TStruct (fs @ [outcome_field])) (VStruct (vs @ [VString x]))) u = (VJson j', None) \<and>
    decode N (TStruct (fs @ [outcome_field])) j' = Inr (VStruct (vs @ [VString tag])) \<and>
    decode N (TStruct [outcome_field]) j' = Inr (VStruct [VString tag])"
proof -
  let ?T = "TStruct (fs @ [outcome_field])"
  obtain e where e: "encode N ?T (VStruct (vs @ [VString y])) = map_option (\<lambda>js. JObj (js @ [(''outcome'', JStr y)])) e" for y
    using encode_outcome [OF len] by metis
  obtain js where js: "e = Some js" "j = JObj (js @ [(''outcome'', JStr x)])" using enc(1) unfolding e by auto
  let ?j = "JObj (js @ [(''outcome'', JStr tag)])"
  have "From_tagged M tag (Marshal N ?T (VStruct (vs @ [VString x]))) u = (VJson ?j, None)"
    using M enc js by (simp add: merge_laws_def From_tagged_def Marshal_def outcome_patch_def update_snoc)
  moreover have d: "decode N ?T ?j = Inr (VStruct (vs @ [VString tag]))"
    using typed_carries [OF N wf typed_outcome [OF ty len, of tag]] js unfolding carries_def e by (simp del: decode.simps)
  ultimately show ?thesis using decode_last [OF d len] by blast
qed


text \<open>The two batch results end with their outcome.\<close>

lemma result_fields:
  "OrderResultOk_t = TStruct ([(''fills'', True, TPtr (TSlice Fill_t)), (''order'', False, Order_t)] @ [outcome_field])"
  "OrderResultErr_t = TStruct ([(''error'', False, TString), (''message'', False, TString)] @ [outcome_field])"
  by (simp_all add: OrderResultOk_t_def OrderResultErr_t_def outcome_field_def)

lemma result_wf: "wf_type OrderResultOk_t" "wf_type OrderResultErr_t"
  by (auto intro: api_models_wf simp: api_models_def)

lemma ok_decodes:
  assumes "nullable_laws N" "merge_laws M" "typed N OrderResultOk_t (VStruct [fills, ord, VString x])"
    and "encode N OrderResultOk_t (VStruct [fills, ord, VString x]) = Some j" "canonical j"
  shows "\<exists>j'. FromOrderResultOk N M u (VStruct [fills, ord, VString x]) = (VJson j', None) \<and>
    decode N OrderResultOk_t j' = Inr (VStruct [fills, ord, VString ''ok'']) \<and>
    decode N (TStruct [outcome_field]) j' = Inr (VStruct [VString ''ok''])"
  using From_tagged_decodes [OF assms(1,2), of _ "[fills, ord]" x j "''ok''" u] assms(3-) result_wf(1)
  unfolding result_fields FromOrderResultOk_def by fastforce

lemma err_decodes:
  assumes "nullable_laws N" "merge_laws M"
  shows "\<exists>j'. FromOrderResultErr N M u (VStruct [VString e, VString m, VString x]) = (VJson j', None) \<and>
    decode N OrderResultErr_t j' = Inr (VStruct [VString e, VString m, VString ''err'']) \<and>
    decode N (TStruct [outcome_field]) j' = Inr (VStruct [VString ''err''])"
proof -
  have enc: "encode N OrderResultErr_t (VStruct [VString e, VString m, VString x]) =
      Some (JObj [(''error'', JStr e), (''message'', JStr m), (''outcome'', JStr x)])"
    by (simp add: OrderResultErr_t_def empty_val_def join_members_def map_filter_simps)
  have c: "canonical (JObj [(''error'', JStr e), (''message'', JStr m), (''outcome'', JStr x)])"
    by (simp add: less_char_def)
  have t: "typed N OrderResultErr_t (VStruct [VString e, VString m, VString x])"
    by (simp add: OrderResultErr_t_def empty_val_def)
  show ?thesis
    using From_tagged_decodes [OF assms, of _ "[VString e, VString m]" x _ "''err''" u] enc c t result_wf(2)
    unfolding result_fields FromOrderResultErr_def by fastforce
qed

text \<open>C26: what is put into a batch result comes out of it. A result set to an accepted order, or to a
  rejection, carries the outcome of that alternative whatever the value said, and after it has
  been printed and read again its discriminator leads back to the value that was set. The
  hypotheses are the documented behaviour of nullable.Nullable and of JSONMerge, and that the
  order prints its members in order.\<close>

theorem union_roundtrip:
  assumes "nullable_laws N" "merge_laws M" "typed N OrderResultOk_t (VStruct [fills, ord, VString x])"
    and "encode N OrderResultOk_t (VStruct [fills, ord, VString x]) = Some j" "canonical j"
  shows "\<exists>a b. FromOrderResultOk N M u (VStruct [fills, ord, VString x]) = (a, None) \<and>
    OrderResult_ValueByDiscriminator N (union_UnmarshalJSON (union_MarshalJSON a)) =
      Inr (ROk (VStruct [fills, ord, VString ''ok''])) \<and>
    FromOrderResultErr N M u (VStruct [VString e, VString m, VString x]) = (b, None) \<and>
    OrderResult_ValueByDiscriminator N (union_UnmarshalJSON (union_MarshalJSON b)) =
      Inr (RErr (VStruct [VString e, VString m, VString ''err'']))"
proof -
  note d = OrderResult_ValueByDiscriminator_def OrderResult_Discriminator_def Unmarshal_raw_def AsOrderResultOk_def
    AsOrderResultErr_def union_UnmarshalJSON_def union_MarshalJSON_def
  obtain a where a: "FromOrderResultOk N M u (VStruct [fills, ord, VString x]) = (VJson a, None)"
      "decode N OrderResultOk_t a = Inr (VStruct [fills, ord, VString ''ok''])"
      "decode N (TStruct [(''outcome'', False, TString)]) a = Inr (VStruct [VString ''ok''])"
    using ok_decodes [OF assms, of u] unfolding outcome_field_def by blast
  obtain b where b: "FromOrderResultErr N M u (VStruct [VString e, VString m, VString x]) = (VJson b, None)"
      "decode N OrderResultErr_t b = Inr (VStruct [VString e, VString m, VString ''err''])"
      "decode N (TStruct [(''outcome'', False, TString)]) b = Inr (VStruct [VString ''err''])"
    using err_decodes [OF assms(1,2), of u e m x] unfolding outcome_field_def by blast
  have "OrderResult_ValueByDiscriminator N (union_UnmarshalJSON (union_MarshalJSON (VJson a))) =
      Inr (ROk (VStruct [fills, ord, VString ''ok'']))"
    using a(2,3) by (simp add: d del: decode.simps)
  moreover have "OrderResult_ValueByDiscriminator N (union_UnmarshalJSON (union_MarshalJSON (VJson b))) =
      Inr (RErr (VStruct [VString e, VString m, VString ''err'']))"
    using b(2,3) by (simp add: d del: decode.simps)
  ultimately show ?thesis using a(1) b(1) by blast
qed

text \<open>A merger that replaces members in place.\<close>

definition sample_merge :: merger where
  "sample_merge u p =
     (case (u, p) of
        (VJson (JObj ms), VJson (JObj ps)) \<Rightarrow> (VJson (JObj (fold (\<lambda>(k, v). AList.update k v) ps ms)), None)
      | _ \<Rightarrow> (VNil, Some JType))"

lemma sample_merge_laws: "merge_laws sample_merge"
  by (simp add: merge_laws_def sample_merge_def)

definition bare_order :: go_val where
  "bare_order = VStruct (map (\<lambda>_. VNil) (case Order_t of TStruct fs \<Rightarrow> fs | _ \<Rightarrow> []))"

theorem union_roundtrip_witness:
  "\<exists>a. FromOrderResultOk sample_nullable sample_merge VNil (VStruct [VNil, bare_order, VString []]) = (a, None) \<and>
    OrderResult_ValueByDiscriminator sample_nullable (union_UnmarshalJSON (union_MarshalJSON a)) =
      Inr (ROk (VStruct [VNil, bare_order, VString ''ok'']))"
proof -
  have t: "typed sample_nullable OrderResultOk_t (VStruct [VNil, bare_order, VString []])"
    by (simp add: OrderResultOk_t_def bare_order_def Order_t_def empty_val_def sample_nullable_def)
  have e: "encode sample_nullable OrderResultOk_t (VStruct [VNil, bare_order, VString []]) =
      Some (JObj [(''order'', JObj []), (''outcome'', JStr [])])"
    by (simp add: OrderResultOk_t_def bare_order_def Order_t_def empty_val_def sample_nullable_def join_members_def map_filter_simps)
  have c: "canonical (JObj [(''order'', JObj []), (''outcome'', JStr [])])"
    by (simp add: less_char_def)
  from union_roundtrip [OF sample_nullable_laws sample_merge_laws t e c, of VNil "[]" "[]"] show ?thesis by blast
qed

text \<open>The two shapes of a cancellation reason come back as they were set.\<close>

lemma reason_roundtrip:
  assumes "nullable_laws N"
  shows "AsOrderCancellationReason1 N (fst (FromOrderCancellationReason1 N (VString s))) = Inr (VString s)"
    and "AsOrderCancellationReason2 N (fst (FromOrderCancellationReason2 N (VStruct [VPtr (VString s)]))) =
      Inr (VStruct [VPtr (VString s)])"
proof -
  have "carries N OrderCancellationReason2_t (VStruct [VPtr (VString s)])"
    by (rule typed_carries [OF assms])
      (simp_all add: OrderCancellationReason2_t_def empty_val_def)
  then show "AsOrderCancellationReason2 N (fst (FromOrderCancellationReason2 N (VStruct [VPtr (VString s)]))) =
      Inr (VStruct [VPtr (VString s)])"
    by (auto simp: carries_def AsOrderCancellationReason2_def FromOrderCancellationReason2_def store_union_def
      Marshal_def Unmarshal_raw_def)
  show "AsOrderCancellationReason1 N (fst (FromOrderCancellationReason1 N (VString s))) = Inr (VString s)"
    by (simp add: AsOrderCancellationReason1_def FromOrderCancellationReason1_def store_union_def Marshal_def
      Unmarshal_raw_def or_null_def dec_string_def)
qed

end
