(* ===== verification/Rest.thy ===== *)
theory Rest
  imports MarketData ModelMethods
begin

section \<open>The REST methods (market.go, orders.go, account.go, positions.go, funds.go, admin.go)\<close>

text \<open>
  A method asks the transport for one operation: which of Get, GetPage and Send, at which
  path and query, with which body, and what the answer decodes into. That request is a
  \<open>call\<close>, each method is the call it makes, and \<open>perform\<close> carries a call out on the
  transport. The value returned when the body is empty is the zero of what the method
  decodes into: nil where it is a pointer, a zero struct where it is a variable.
\<close>

datatype verb = VGet | VPage | VSend string

record call =
  k_verb :: verb
  k_path :: string
  k_query :: query
  k_body :: "json option option"
  k_out :: "(json \<Rightarrow> json_error + go_val) option"
  k_zero :: go_val

definition get_call :: "nullable_lib \<Rightarrow> go_type \<Rightarrow> string \<Rightarrow> query \<Rightarrow> call" where
  "get_call N T path q =
     \<lparr>k_verb = VGet, k_path = path, k_query = q, k_body = None, k_out = Some (decode N T), k_zero = zero T\<rparr>"

definition page_call :: "nullable_lib \<Rightarrow> go_type \<Rightarrow> string \<Rightarrow> query \<Rightarrow> call" where
  "page_call N T path q =
     \<lparr>k_verb = VPage, k_path = path, k_query = q, k_body = None, k_out = Some (decode N T), k_zero = zero T\<rparr>"

definition send_call :: "nullable_lib \<Rightarrow> string \<Rightarrow> string \<Rightarrow> json option option \<Rightarrow> go_type \<Rightarrow> call" where
  "send_call N m path body T =
     \<lparr>k_verb = VSend m, k_path = path, k_query = [], k_body = body, k_out = Some (decode N T), k_zero = zero T\<rparr>"

definition perform :: "env \<Rightarrow> 's transport \<Rightarrow> 's world \<Rightarrow> call \<Rightarrow> (go_error + go_val \<times> string) \<times> 's world" where
  "perform V t w k =
     (let value = (\<lambda>v. case v of None \<Rightarrow> k_zero k | Some a \<Rightarrow> a) in
      case k_verb k of
        VGet \<Rightarrow> (case Get V t w (k_path k) (k_query k) (k_out k) of
                  (r, w) \<Rightarrow> (map_sum (\<lambda>e. e) (\<lambda>v. (value v, [])) r, w))
      | VPage \<Rightarrow> (case GetPage V t w (k_path k) (k_query k) (k_out k) of
                  (r, w) \<Rightarrow> (map_sum (\<lambda>e. e) (\<lambda>(v, next). (value v, next)) r, w))
      | VSend m \<Rightarrow> (case Send V t w [] m (k_path k) (k_body k) (k_out k) of
                  (r, w) \<Rightarrow> (map_sum (\<lambda>e. e) (\<lambda>v. (value v, [])) r, w)))"

subsection \<open>market.go\<close>

text \<open>A slice of market rows, each through its own UnmarshalJSON.\<close>

definition decode_markets :: "nullable_lib \<Rightarrow> json \<Rightarrow> json_error + go_val" where
  "decode_markets N j = (if j = JNull then Inr VNil else map_err VSlice (dec_slice (Market_UnmarshalJSON N) j))"

definition FetchMarkets :: "nullable_lib \<Rightarrow> call" where
  "FetchMarkets N = (get_call N TAny ''/markets'' [])\<lparr>k_out := Some (decode_markets N), k_zero := VNil\<rparr>"

definition FetchMarketsSummary :: "nullable_lib \<Rightarrow> call" where
  "FetchMarketsSummary N = get_call N (TSlice MarketSummary_t) ''/markets/summary'' []"

definition MarkPrice_t :: go_type where
  "MarkPrice_t = TStruct [(''market_id'', False, TString), (''mark_price'', False, TDecimal)]"

definition FetchMarkPrice :: "nullable_lib \<Rightarrow> string \<Rightarrow> call" where
  "FetchMarkPrice N m = get_call N (TPtr MarkPrice_t) (marketPath m ''/mark-price'') []"

definition FetchMarketRiskParams :: "nullable_lib \<Rightarrow> string \<Rightarrow> call" where
  "FetchMarketRiskParams N m = get_call N (TPtr MarketRiskParams_t) (marketPath m ''/risk-params'') []"

definition FetchMarketStatus :: "nullable_lib \<Rightarrow> string \<Rightarrow> call" where
  "FetchMarketStatus N m = get_call N (TPtr MarketStatus_t) (marketPath m ''/status'') []"

definition FetchAdlEvents :: "nullable_lib \<Rightarrow> string \<Rightarrow> int \<Rightarrow> call" where
  "FetchAdlEvents N m limit = get_call N (TSlice AdlEventRecord_t) (marketPath m ''/adl-events'') (limitQuery limit)"

definition FetchStatus :: "nullable_lib \<Rightarrow> call" where
  "FetchStatus N = get_call N (TPtr ServiceHealth_t) ''/status'' []"

definition FetchStats :: "nullable_lib \<Rightarrow> call" where
  "FetchStats N = get_call N (TPtr StatsSnapshot_t) ''/stats'' []"

definition FetchStatsHistory :: "nullable_lib \<Rightarrow> call" where
  "FetchStatsHistory N = get_call N (TSlice ThroughputSample_t) ''/stats/history'' []"

definition FetchFundingHistory :: "nullable_lib \<Rightarrow> int \<Rightarrow> call" where
  "FetchFundingHistory N limit = get_call N (TSlice AccountFunding_t) ''/funding'' (limitQuery limit)"

definition FetchFundingRateHistory :: "nullable_lib \<Rightarrow> string \<Rightarrow> int \<Rightarrow> call" where
  "FetchFundingRateHistory N m limit = get_call N (TSlice FundingSample_t) (marketPath m ''/funding'') (limitQuery limit)"

definition FetchFundingSamples :: "nullable_lib \<Rightarrow> string \<Rightarrow> int \<Rightarrow> call" where
  "FetchFundingSamples N m limit =
     get_call N (TSlice FundingPremiumSample_t) (marketPath m ''/funding-samples'') (limitQuery limit)"

definition FetchTickers :: "nullable_lib \<Rightarrow> call" where
  "FetchTickers N = get_call N (TMap Ticker_t) ''/tickers'' []"

definition FetchTicker :: "nullable_lib \<Rightarrow> string \<Rightarrow> call" where
  "FetchTicker N m = get_call N (TPtr Ticker_t) (marketPath m ''/ticker'') []"

definition FetchOrderBook :: "nullable_lib \<Rightarrow> string \<Rightarrow> call" where
  "FetchOrderBook N m = get_call N (TPtr OrderBook_t) (marketPath m ''/orderbook'') []"

definition FetchTrades ::
  "env \<Rightarrow> 's transport \<Rightarrow> nullable_lib \<Rightarrow> string \<Rightarrow> int \<Rightarrow> (go_val, 'y) consumer \<Rightarrow> 's world \<Rightarrow> 'y \<Rightarrow> ('s world \<times> 'y) option" where
  "FetchTrades V t N m limit yield w y =
     paginate V t (marketPath m ''/trades'') (decode N Trade_t) yield (limitQuery limit) w y"

subsection \<open>orders.go\<close>

record page =
  pg_Limit :: int
  pg_Cursor :: string

definition page_query :: "page \<Rightarrow> query" where
  "page_query p =
     (let q = (if pg_Limit p > 0 then qset [] ''limit'' (show_int (pg_Limit p)) else [])
      in if pg_Cursor p \<noteq> [] then qset q ''cursor'' (pg_Cursor p) else q)"

definition CreateOrder :: "nullable_lib \<Rightarrow> go_val \<Rightarrow> call" where
  "CreateOrder N req = send_call N ''POST'' ''/orders'' (Some (encode N OrderRequest_t req)) OrderResponse_t"

definition PreviewOrder :: "nullable_lib \<Rightarrow> go_val \<Rightarrow> call" where
  "PreviewOrder N req = send_call N ''POST'' ''/orders/preview'' (Some (encode N OrderRequest_t req)) PreviewResponse_t"

text \<open>An OrderResult keeps the raw union.\<close>

definition CreateOrders :: "nullable_lib \<Rightarrow> go_val \<Rightarrow> call" where
  "CreateOrders N reqs =
     send_call N ''POST'' ''/orders/batch'' (Some (encode N (TSlice OrderRequest_t) reqs)) (TSlice TRaw)"

definition EditOrder :: "nullable_lib \<Rightarrow> string \<Rightarrow> string \<Rightarrow> go_val \<Rightarrow> call" where
  "EditOrder N orderID marketID req =
     send_call N ''PATCH'' (orderPath orderID marketID) (Some (encode N AmendOrderRequest_t req)) Order_t"

definition CancelOrder :: "nullable_lib \<Rightarrow> string \<Rightarrow> string \<Rightarrow> call" where
  "CancelOrder N orderID marketID = send_call N ''DELETE'' (orderPath orderID marketID) None Order_t"

definition CancelAllOrders :: "nullable_lib \<Rightarrow> string \<Rightarrow> call" where
  "CancelAllOrders N marketID =
     send_call N ''DELETE''
       (if marketID \<noteq> [] then ''/orders'' @ ''?'' @ query_encode [(''market_id'', marketID)] else ''/orders'')
       None (TSlice Order_t)"

definition FetchOrder :: "nullable_lib \<Rightarrow> string \<Rightarrow> string \<Rightarrow> call" where
  "FetchOrder N orderID marketID =
     get_call N Order_t (''/orders/'' @ PathEscape orderID) [(''market_id'', marketID)]"

definition FetchOpenOrders :: "nullable_lib \<Rightarrow> call" where
  "FetchOpenOrders N = get_call N (TSlice Order_t) ''/orders'' []"

definition FetchOrders :: "nullable_lib \<Rightarrow> page \<Rightarrow> call" where
  "FetchOrders N p = page_call N (TSlice OrderHistoryEntry_t) ''/orders/history'' (page_query p)"

definition FetchMyTrades :: "nullable_lib \<Rightarrow> page \<Rightarrow> call" where
  "FetchMyTrades N p = page_call N (TSlice Fill_t) ''/fills'' (page_query p)"

subsection \<open>positions.go\<close>

definition FetchPositions :: "nullable_lib \<Rightarrow> call" where
  "FetchPositions N = get_call N (TSlice Position_t) ''/positions'' []"

definition FetchPositionsHistory :: "nullable_lib \<Rightarrow> page \<Rightarrow> call" where
  "FetchPositionsHistory N p = page_call N (TSlice ClosedPosition_t) ''/positions/closed'' (page_query p)"

subsection \<open>account.go\<close>

definition DepositResult_t :: go_type where
  "DepositResult_t = TStruct [(''balance'', False, TDecimal)]"

definition MarginRequest_t :: go_type where
  "MarginRequest_t = TStruct [(''market_id'', False, TString), (''amount'', False, TDecimal), (''direction'', False, TString)]"

definition MarginResult_t :: go_type where
  "MarginResult_t =
     TStruct [(''market_id'', False, TString), (''allocated_margin'', False, TDecimal), (''collateral'', False, TDecimal)]"

definition PortfolioPoint_t :: go_type where
  "PortfolioPoint_t =
     TStruct [(''timestamp_ms'', False, TInt64), (''equity'', False, TDecimal), (''pnl'', False, TDecimal), (''volume'', False, TDecimal)]"

definition PortfolioHistory_t :: go_type where
  "PortfolioHistory_t =
     TStruct [(''window'', False, TString), (''cadence_ms'', False, TInt64), (''points'', False, TSlice PortfolioPoint_t)]"

definition FetchBalance :: "nullable_lib \<Rightarrow> call" where
  "FetchBalance N = get_call N AccountSummary_t ''/account'' []"

definition FetchCancelOnDisconnect :: "nullable_lib \<Rightarrow> call" where
  "FetchCancelOnDisconnect N = get_call N CancelOnDisconnectStatus_t ''/account/cancel-on-disconnect'' []"

definition SetCancelOnDisconnect :: "nullable_lib \<Rightarrow> bool \<Rightarrow> call" where
  "SetCancelOnDisconnect N enabled =
     send_call N ''PUT'' ''/account/cancel-on-disconnect''
       (Some (encode N SetCancelOnDisconnectRequest_t (VStruct [VBool enabled]))) CancelOnDisconnectStatus_t"

definition ClaimCredit :: "nullable_lib \<Rightarrow> decimal option \<Rightarrow> call" where
  "ClaimCredit N amount =
     send_call N ''POST'' ''/account/credit''
       (Some (encode N CreditRequest_t (VStruct [case amount of None \<Rightarrow> VNil | Some d \<Rightarrow> VPtr (VDecimal d)]))) CreditResponse_t"

definition AccountDeposit :: "nullable_lib \<Rightarrow> decimal \<Rightarrow> call" where
  "AccountDeposit N amount =
     send_call N ''POST'' ''/account/deposit''
       (Some (encode N (TStruct [(''amount'', False, TDecimal)]) (VStruct [VDecimal amount]))) DepositResult_t"

definition AddMargin :: "nullable_lib \<Rightarrow> string \<Rightarrow> decimal \<Rightarrow> string \<Rightarrow> call" where
  "AddMargin N marketID amount direction =
     send_call N ''POST'' ''/account/margin''
       (Some (encode N MarginRequest_t (VStruct [VString marketID, VDecimal amount, VString direction]))) MarginResult_t"

definition FetchEquityHistory :: "nullable_lib \<Rightarrow> page \<Rightarrow> call" where
  "FetchEquityHistory N p = page_call N (TSlice EquityPoint_t) ''/account/equity-history'' (page_query p)"

definition FetchTradingFees :: "nullable_lib \<Rightarrow> call" where
  "FetchTradingFees N = get_call N (TPtr AccountFees_t) ''/account/fees'' []"

definition FetchPortfolioHistory :: "nullable_lib \<Rightarrow> string \<Rightarrow> int \<Rightarrow> call" where
  "FetchPortfolioHistory N window limit =
     get_call N (TPtr PortfolioHistory_t) ''/account/portfolio-history''
       (let q = limitQuery limit in if window \<noteq> [] then qset q ''window'' window else q)"

definition FetchRateLimitStatus :: "nullable_lib \<Rightarrow> call" where
  "FetchRateLimitStatus N = get_call N (TPtr RateLimitStatus_t) ''/account/rate-limit'' []"

definition FetchAccountState :: "nullable_lib \<Rightarrow> call" where
  "FetchAccountState N = get_call N (TPtr AccountState_t) ''/account/state'' []"

definition FetchAccountSummary :: "nullable_lib \<Rightarrow> call" where
  "FetchAccountSummary N = get_call N (TPtr AccountPortfolioSummary_t) ''/account/summary'' []"

definition FetchAdlHistory :: "nullable_lib \<Rightarrow> string \<Rightarrow> int \<Rightarrow> call" where
  "FetchAdlHistory N address limit =
     get_call N (TSlice AdlEventRecord_t) (''/account/'' @ PathEscape address @ ''/adl-history'') (limitQuery limit)"


subsection \<open>funds.go\<close>

definition FetchDeposits :: "nullable_lib \<Rightarrow> int \<Rightarrow> call" where
  "FetchDeposits N limit = get_call N (TSlice FundsEntry_t) ''/deposits'' (limitQuery limit)"

definition CreateDeposit :: "nullable_lib \<Rightarrow> go_val \<Rightarrow> call" where
  "CreateDeposit N req =
     (send_call N ''POST'' ''/deposits'' (Some (encode N DepositRequest_t req)) TAny)
       \<lparr>k_out := Some DepositResponse_UnmarshalJSON, k_zero := VStruct [VNil, VNil]\<rparr>"

definition FetchWithdrawals :: "nullable_lib \<Rightarrow> int \<Rightarrow> call" where
  "FetchWithdrawals N limit = get_call N (TSlice Withdrawal_t) ''/withdrawals'' (limitQuery limit)"

definition ClaimFaucet :: "nullable_lib \<Rightarrow> call" where
  "ClaimFaucet N = send_call N ''POST'' ''/faucet'' None FaucetResponse_t"

definition FetchBridgeAssets :: "nullable_lib \<Rightarrow> call" where
  "FetchBridgeAssets N = get_call N (TPtr BridgeAssetsResponse_t) ''/bridge/assets'' []"

text \<open>The filters are ranged over as a map, in whatever order Go picks.\<close>

record bridge_deposits_params =
  bd_Limit :: int
  bd_Chain :: string
  bd_Asset :: string
  bd_Status :: string

definition bridge_query :: "(string \<times> string) list \<Rightarrow> int \<Rightarrow> query" where
  "bridge_query filters limit =
     fold (\<lambda>(k, v) q. if v \<noteq> [] then qset q k v else q) filters (limitQuery limit)"

definition bridge_filters :: "bridge_deposits_params \<Rightarrow> (string \<times> string) list" where
  "bridge_filters p = [(''chain'', bd_Chain p), (''asset'', bd_Asset p), (''status'', bd_Status p)]"

definition FetchBridgeDeposits :: "nullable_lib \<Rightarrow> (string \<times> string) list \<Rightarrow> int \<Rightarrow> call" where
  "FetchBridgeDeposits N filters limit =
     get_call N (TSlice BridgeDeposit_t) ''/bridge/deposits'' (bridge_query filters limit)"

definition FetchBridgeDeposit :: "nullable_lib \<Rightarrow> string \<Rightarrow> call" where
  "FetchBridgeDeposit N i = get_call N (TPtr BridgeDeposit_t) (''/bridge/deposits/'' @ PathEscape i) []"

subsection \<open>admin.go\<close>

definition TierEntry_t :: go_type where
  "TierEntry_t = TStruct [(''address'', False, TString), (''tier'', False, TString)]"

definition FetchTiers :: "nullable_lib \<Rightarrow> call" where
  "FetchTiers N = get_call N (TSlice TierEntry_t) ''/admin/tiers'' []"

definition SetTier :: "nullable_lib \<Rightarrow> string \<Rightarrow> string \<Rightarrow> call" where
  "SetTier N address tier =
     send_call N ''PUT'' ''/admin/tiers'' (Some (encode N TierEntry_t (VStruct [VString address, VString tier]))) TierEntry_t"

text \<open>Nothing is decoded from the answer.\<close>

definition DeleteTier :: "nullable_lib \<Rightarrow> string \<Rightarrow> call" where
  "DeleteTier N address =
     (send_call N ''DELETE'' (''/admin/tiers/'' @ PathEscape address) None TAny)\<lparr>k_out := None\<rparr>"

text \<open>A number beside the balance can lose its last digit: 2^53 + 1 reads as 2^53.\<close>

lemma number_value_53:
  "number_value ''9007199254740993'' = 9007199254740993" "number_value ''9007199254740992'' = 9007199254740992"
  by (simp_all add: number_value_def lit_val_def digits_val_def digit_val_def Let_def)

lemma deposit_digits_lost:
  "go_any (JNum ''9007199254740993'') = go_any (JNum ''9007199254740992'')"
proof -
  have e: "exponent 9007199254740993 = 53" "exponent 9007199254740992 = 53"
    by (rule exponent_unique; simp add: power_int_def)+
  have f: "\<lfloor>9007199254740993 / 2 :: rat\<rfloor> = 4503599627370496" by (simp add: floor_eq_iff)
  have "round_even (9007199254740993 / 2) = round_even (9007199254740992 / 2)"
    by (simp add: round_even_def f Let_def)
  then show ?thesis by (simp add: ParseFloat64_def number_value_53 e ulp_def Let_def power_int_def)
qed

subsection \<open>Which operation a method is\<close>

text \<open>The route of the API each method stands for. An order id may not be the word history,
  which is another route's, and no identifier may be empty.\<close>

inductive route :: "nullable_lib \<Rightarrow> call \<Rightarrow> string \<Rightarrow> bool" for N where
  "route N (FetchMarkets N) ''/markets''"
| "route N (FetchMarketsSummary N) ''/markets/summary''"
| "m \<noteq> [] \<Longrightarrow> route N (FetchMarkPrice N m) ''/markets/{market_id}/mark-price''"
| "m \<noteq> [] \<Longrightarrow> route N (FetchMarketRiskParams N m) ''/markets/{market_id}/risk-params''"
| "m \<noteq> [] \<Longrightarrow> route N (FetchMarketStatus N m) ''/markets/{market_id}/status''"
| "m \<noteq> [] \<Longrightarrow> route N (FetchAdlEvents N m l) ''/markets/{market_id}/adl-events''"
| "route N (FetchStatus N) ''/status''"
| "route N (FetchStats N) ''/stats''"
| "route N (FetchStatsHistory N) ''/stats/history''"
| "route N (FetchFundingHistory N l) ''/funding''"
| "m \<noteq> [] \<Longrightarrow> route N (FetchFundingRateHistory N m l) ''/markets/{market_id}/funding''"
| "m \<noteq> [] \<Longrightarrow> route N (FetchFundingSamples N m l) ''/markets/{market_id}/funding-samples''"
| "route N (FetchTickers N) ''/tickers''"
| "m \<noteq> [] \<Longrightarrow> route N (FetchTicker N m) ''/markets/{market_id}/ticker''"
| "m \<noteq> [] \<Longrightarrow> route N (FetchOrderBook N m) ''/markets/{market_id}/orderbook''"
| "route N (CreateOrder N req) ''/orders''"
| "route N (PreviewOrder N req) ''/orders/preview''"
| "route N (CreateOrders N reqs) ''/orders/batch''"
| "oid \<noteq> [] \<Longrightarrow> route N (EditOrder N oid m req) ''/orders/{order_id}''"
| "oid \<noteq> [] \<Longrightarrow> route N (CancelOrder N oid m) ''/orders/{order_id}''"
| "route N (CancelAllOrders N m) ''/orders''"
| "oid \<notin> {[], ''history''} \<Longrightarrow> route N (FetchOrder N oid m) ''/orders/{order_id}''"
| "route N (FetchOpenOrders N) ''/orders''"
| "route N (FetchOrders N p) ''/orders/history''"
| "route N (FetchMyTrades N p) ''/fills''"
| "route N (FetchPositions N) ''/positions''"
| "route N (FetchPositionsHistory N p) ''/positions/closed''"
| "route N (FetchBalance N) ''/account''"
| "route N (FetchCancelOnDisconnect N) ''/account/cancel-on-disconnect''"
| "route N (SetCancelOnDisconnect N b) ''/account/cancel-on-disconnect''"
| "route N (ClaimCredit N a) ''/account/credit''"
| "route N (AccountDeposit N d) ''/account/deposit''"
| "route N (AddMargin N m d dir) ''/account/margin''"
| "route N (FetchEquityHistory N p) ''/account/equity-history''"
| "route N (FetchTradingFees N) ''/account/fees''"
| "route N (FetchPortfolioHistory N win l) ''/account/portfolio-history''"
| "route N (FetchRateLimitStatus N) ''/account/rate-limit''"
| "route N (FetchAccountState N) ''/account/state''"
| "route N (FetchAccountSummary N) ''/account/summary''"
| "a \<noteq> [] \<Longrightarrow> route N (FetchAdlHistory N a l) ''/account/{address}/adl-history''"
| "route N (FetchDeposits N l) ''/deposits''"
| "route N (CreateDeposit N req) ''/deposits''"
| "route N (FetchWithdrawals N l) ''/withdrawals''"
| "route N (ClaimFaucet N) ''/faucet''"
| "route N (FetchTiers N) ''/admin/tiers''"
| "route N (SetTier N a tier) ''/admin/tiers''"
| "a \<noteq> [] \<Longrightarrow> route N (DeleteTier N a) ''/admin/tiers/{address}''"

definition call_method :: "call \<Rightarrow> string" where
  "call_method k = (case k_verb k of VSend m \<Rightarrow> m | _ \<Rightarrow> ''GET'')"

definition call_path :: "call \<Rightarrow> string" where
  "call_path k = cut_before (CHR ''?'') (k_path k)"

text \<open>A path written as its segments, with holes: the rows that can match an instance.\<close>

fun fits :: "string option list \<Rightarrow> string list \<Rightarrow> bool" where
  "fits (x # xs) (s # ss) = ((case x of None \<Rightarrow> True | Some w \<Rightarrow> s = w \<or> has_prefix s ''{'') \<and> fits xs ss)"
| "fits [] [] = True"
| "fits _ _ = False"

fun fills :: "string option list \<Rightarrow> string list \<Rightarrow> bool" where
  "fills (x # xs) (p # ps) = ((case x of None \<Rightarrow> True | Some w \<Rightarrow> p = w) \<and> fills xs ps)"
| "fills [] [] = True"
| "fills _ _ = False"

lemma match_fits: "fills pat ps \<Longrightarrow> match_segments ss ps \<Longrightarrow> fits pat ss"
  by (induction pat ps arbitrary: ss rule: fills.induct) (auto simp: match_segments_Nil elim: match_segments.elims split: option.splits)

lemma match_self: "match_segments ps ps"
  by (induction ps) auto

lemma lookup_from_candidates:
  assumes "\<forall>c\<in>set cs. op_method c = m \<and> matchTemplate (op_path c) p \<longrightarrow> P c"
  shows "lookup_from cs t m p = lookup_from (filter (\<lambda>c. op_method c = m \<and> P c) cs) t m p"
  using assms by (induction cs t m p rule: lookup_from.induct) (auto simp: matchTemplate_def match_self)

lemma lookup_pattern:
  assumes "fills pat (split_on (CHR ''/'') p)"
  shows "lookup m p = lookup_from (filter (\<lambda>c. op_method c = m \<and> fits pat (split_on (CHR ''/'') (op_path c))) specCosts) None m p"
  unfolding lookup_def
  by (rule lookup_from_candidates) (use assms match_fits in \<open>auto simp: matchTemplate_def\<close>)

lemma lookup_pattern1:
  assumes "fills pat (split_on (CHR ''/'') p)"
    and "filter (\<lambda>c. op_method c = m \<and> fits pat (split_on (CHR ''/'') (op_path c))) specCosts = [c]"
    and "match_segments (split_on (CHR ''/'') (op_path c)) (split_on (CHR ''/'') p)"
  shows "lookup m p = Some c"
proof -
  have "c \<in> set (filter (\<lambda>c. op_method c = m \<and> fits pat (split_on (CHR ''/'') (op_path c))) specCosts)"
    unfolding assms(2) by simp
  then have "op_method c = m" by simp
  then show ?thesis using lookup_pattern [OF assms(1), of m] assms(2,3) by (simp add: matchTemplate_def)
qed

lemma lookup_market:
  assumes "m \<noteq> []" "CHR ''/'' \<notin> set x"
    and "filter (\<lambda>c. op_method c = ''GET'' \<and> fits [Some [], Some ''markets'', None, Some x] (split_on (CHR ''/'') (op_path c))) specCosts = [c]"
    and "split_on (CHR ''/'') (op_path c) = [[], ''markets'', ''{market_id}'', x]"
  shows "lookup ''GET'' (marketPath m (CHR ''/'' # x)) = Some c"
proof -
  have s: "split_on (CHR ''/'') (marketPath m (CHR ''/'' # x)) = [[], ''markets'', PathEscape m, x]"
    using split_on_append [of "CHR ''/''" "''markets''" "PathEscape m @ CHR ''/'' # x"]
      split_on_append [of "CHR ''/''" "PathEscape m" x] PathEscape_not [of "CHR ''/''" m] assms(2)
    by (simp add: marketPath_def split_on_free)
  have "has_prefix ''{market_id}'' ''{''" by code_simp
  then show ?thesis using assms(1) by (intro lookup_pattern1 [OF _ assms(3)]) (simp_all add: s assms(4))
qed

lemma lookup_row:
  assumes "(m, p) \<in> set (map (\<lambda>c. (op_method c, op_path c)) specCosts)"
  shows "\<exists>c\<in>set specCosts. op_method c = m \<and> op_path c = p \<and> lookup m p = Some c"
proof -
  obtain c where "c \<in> set specCosts" "op_method c = m" "op_path c = p" using assms by auto
  then show ?thesis using lookup_literal [OF distinct_rows, of c None] by (auto simp: lookup_def)
qed

text \<open>The row a method's request is looked up as.\<close>

definition routed :: "string \<Rightarrow> string \<Rightarrow> string \<Rightarrow> bool" where
  "routed m p tmpl = (\<exists>c\<in>set specCosts. op_method c = m \<and> op_path c = tmpl \<and> lookup m p = Some c)"

lemma routed_literal:
  "(m, p) \<in> set (map (\<lambda>c. (op_method c, op_path c)) specCosts) \<Longrightarrow> routed m p p"
  unfolding routed_def by (rule lookup_row)

lemma routed_filter:
  assumes "filter P specCosts = [c]" "lookup m p = Some c"
  shows "routed m p (op_path c)"
  using lookup_sound [OF assms(2)] assms(2) by (auto simp: routed_def)

lemma split_two: "CHR ''/'' \<notin> set a \<Longrightarrow> split_on (CHR ''/'') (CHR ''/'' # a @ CHR ''/'' # b) = [] # a # split_on (CHR ''/'') b"
  using split_on_append [of "CHR ''/''" a b] by simp

lemma routed_market:
  assumes "m \<noteq> []" "CHR ''/'' \<notin> set x"
    and "filter (\<lambda>c. op_method c = ''GET'' \<and> fits [Some [], Some ''markets'', None, Some x] (split_on (CHR ''/'') (op_path c))) specCosts = [c]"
    and "split_on (CHR ''/'') (op_path c) = [[], ''markets'', ''{market_id}'', x]"
  shows "routed ''GET'' (marketPath m (CHR ''/'' # x)) (op_path c)"
  by (rule routed_filter [OF assms(3) lookup_market [OF assms]])

definition market_routes :: "string list" where
  "market_routes = [''mark-price'', ''risk-params'', ''status'', ''adl-events'', ''funding'', ''funding-samples'',
     ''ticker'', ''orderbook'', ''candles'', ''trades'']"

lemma routed_markets:
  assumes "m \<noteq> []" "x \<in> set market_routes"
  shows "routed ''GET'' (marketPath m (CHR ''/'' # x)) (''/markets/{market_id}/'' @ x)"
proof -
  have "list_all (\<lambda>x. CHR ''/'' \<notin> set x \<and>
      filter (\<lambda>c. op_method c = ''GET'' \<and> fits [Some [], Some ''markets'', None, Some x] (split_on (CHR ''/'') (op_path c))) specCosts
        = [row ''GET'' (''/markets/{market_id}/'' @ x) ClassRequest 1 0]) market_routes"
    by code_simp
  then have x: "CHR ''/'' \<notin> set x"
      "filter (\<lambda>c. op_method c = ''GET'' \<and> fits [Some [], Some ''markets'', None, Some x] (split_on (CHR ''/'') (op_path c))) specCosts
        = [row ''GET'' (''/markets/{market_id}/'' @ x) ClassRequest 1 0]"
    using assms(2) by (simp_all add: list_all_iff)
  have "split_on (CHR ''/'') (''/markets/{market_id}/'' @ x) = [[], ''markets'', ''{market_id}'', x]"
    using split_on_free [OF x(1)] by simp
  then show ?thesis using routed_market [OF assms(1) x] by (simp add: row_def)
qed

text \<open>An identifier at the end of a path.\<close>

lemma split_last: "CHR ''/'' \<notin> set a \<Longrightarrow> split_on (CHR ''/'') (CHR ''/'' # a @ CHR ''/'' # PathEscape i) = [[], a, PathEscape i]"
  using split_two [of a "PathEscape i"] PathEscape_not [of "CHR ''/''" i] by (simp add: split_on_free)

lemma routed_order:
  assumes "oid \<noteq> []" "x \<in> {''DELETE'', ''PATCH''} \<or> x = ''GET'' \<and> oid \<noteq> ''history''"
  shows "routed x (''/orders/'' @ PathEscape oid) ''/orders/{order_id}''"
proof -
  let ?pat = "[Some [], Some ''orders'', None]" and ?p = "''/orders/'' @ PathEscape oid"
  let ?rows = "\<lambda>x. filter (\<lambda>c. op_method c = x \<and> fits ?pat (split_on (CHR ''/'') (op_path c))) specCosts"
  have s: "split_on (CHR ''/'') ?p = [[], ''orders'', PathEscape oid]" using split_last [of "''orders''" oid] by simp
  have t: "split_on (CHR ''/'') ''/orders/{order_id}'' = [[], ''orders'', ''{order_id}'']" by simp
  have h: "has_prefix ''{order_id}'' ''{''" "\<not> has_prefix ''history'' ''{''" by code_simp+
  have r: "?rows ''DELETE'' = [row ''DELETE'' ''/orders/{order_id}'' ClassCancel 1 0]"
    "?rows ''PATCH'' = [row ''PATCH'' ''/orders/{order_id}'' ClassOrder 1 0]"
    "?rows ''GET'' = [row ''GET'' ''/orders/history'' ClassRequest 5 0, row ''GET'' ''/orders/{order_id}'' ClassRequest 1 0]"
    by code_simp+
  have l: "lookup x ?p = lookup_from (?rows x) None x ?p" for x
    by (rule lookup_pattern) (subst s, simp)
  have sp: "split_on (CHR ''/'') (PathEscape oid) = [PathEscape oid]"
    using PathEscape_not [of "CHR ''/''" oid] by (simp add: split_on_free)
  have "\<exists>c. lookup x ?p = Some c \<and> op_path c = ''/orders/{order_id}''"
  proof (cases "x = ''GET''")
    case True
    have "PathEscape oid \<noteq> ''history''"
      using assms(2) True PathEscape_inject [of oid "''history''"]
      by (simp add: PathEscape_def keep_segment_def unreserved_def)
    then show ?thesis unfolding l True r(3) row_def using assms(1) h by (simp add: matchTemplate_def sp)
  next
    case False
    then consider "x = ''DELETE''" | "x = ''PATCH''" using assms(2) by auto
    then show ?thesis
    proof cases
      case 1 show ?thesis unfolding l 1 r(1) row_def using assms(1) h by (simp add: matchTemplate_def sp)
    next
      case 2 show ?thesis unfolding l 2 r(2) row_def using assms(1) h by (simp add: matchTemplate_def sp)
    qed
  qed
  then show ?thesis using lookup_sound [of x ?p] by (fastforce simp: routed_def)
qed

lemma routed_adl:
  assumes "a \<noteq> []"
  shows "routed ''GET'' (''/account/'' @ PathEscape a @ ''/adl-history'') ''/account/{address}/adl-history''"
proof -
  let ?pat = "[Some [], Some ''account'', None, Some ''adl-history'']" and ?p = "''/account/'' @ PathEscape a @ ''/adl-history''"
  have s: "split_on (CHR ''/'') ?p = [[], ''account'', PathEscape a, ''adl-history'']"
    using split_two [of "''account''" "PathEscape a @ ''/adl-history''"]
      split_on_append [of "CHR ''/''" "PathEscape a" "''adl-history''"] PathEscape_not [of "CHR ''/''" a] by simp
  have f: "filter (\<lambda>c. op_method c = ''GET'' \<and> fits ?pat (split_on (CHR ''/'') (op_path c))) specCosts =
      [row ''GET'' ''/account/{address}/adl-history'' ClassRequest 1 0]" by code_simp
  have h: "has_prefix ''{address}'' ''{''" by code_simp
  have "lookup ''GET'' ?p = Some (row ''GET'' ''/account/{address}/adl-history'' ClassRequest 1 0)"
    by (rule lookup_pattern1 [OF _ f]) (subst s, use assms h in \<open>simp add: row_def\<close>)+
  then show ?thesis using routed_filter [OF f] by (simp add: row_def)
qed

lemma routed_tier:
  assumes "a \<noteq> []"
  shows "routed ''DELETE'' (''/admin/tiers/'' @ PathEscape a) ''/admin/tiers/{address}''"
proof -
  let ?pat = "[Some [], Some ''admin'', Some ''tiers'', None]" and ?p = "''/admin/tiers/'' @ PathEscape a"
  have s: "split_on (CHR ''/'') ?p = [[], ''admin'', ''tiers'', PathEscape a]"
    using split_two [of "''admin''" "''tiers/'' @ PathEscape a"]
      split_on_append [of "CHR ''/''" "''tiers''" "PathEscape a"] PathEscape_not [of "CHR ''/''" a]
    by (simp add: split_on_free)
  have f: "filter (\<lambda>c. op_method c = ''DELETE'' \<and> fits ?pat (split_on (CHR ''/'') (op_path c))) specCosts =
      [row ''DELETE'' ''/admin/tiers/{address}'' ClassRequest 1 0]" by code_simp
  have h: "has_prefix ''{address}'' ''{''" by code_simp
  have "lookup ''DELETE'' ?p = Some (row ''DELETE'' ''/admin/tiers/{address}'' ClassRequest 1 0)"
    by (rule lookup_pattern1 [OF _ f]) (subst s, use assms h in \<open>simp add: row_def\<close>)+
  then show ?thesis using routed_filter [OF f] by (simp add: row_def)
qed

text \<open>The routes without an identifier.\<close>

definition plain_routes :: "(string \<times> string) list" where
  "plain_routes =
     map (Pair ''GET'') [''/markets'', ''/markets/summary'', ''/status'', ''/stats'', ''/stats/history'', ''/funding'',
       ''/tickers'', ''/orders'', ''/orders/history'', ''/fills'', ''/positions'', ''/positions/closed'', ''/account'',
       ''/account/cancel-on-disconnect'', ''/account/equity-history'', ''/account/fees'', ''/account/portfolio-history'',
       ''/account/rate-limit'', ''/account/state'', ''/account/summary'', ''/deposits'', ''/withdrawals'', ''/admin/tiers''] @
     map (Pair ''POST'') [''/orders'', ''/orders/preview'', ''/orders/batch'', ''/account/credit'', ''/account/deposit'',
       ''/account/margin'', ''/deposits'', ''/faucet''] @
     [(''PUT'', ''/account/cancel-on-disconnect''), (''PUT'', ''/admin/tiers''), (''DELETE'', ''/orders'')]"

lemma routed_plain:
  assumes "(m, p) \<in> set plain_routes"
  shows "routed m p p"
proof -
  have "list_all (\<lambda>(m, p). list_ex (\<lambda>c. op_method c = m \<and> op_path c = p) specCosts) plain_routes" by code_simp
  then show ?thesis using assms by (intro routed_literal) (force simp: list_all_iff list_ex_iff)
qed

lemmas call_defs = get_call_def page_call_def send_call_def call_method_def call_path_def

lemma cut_free: "CHR ''?'' \<notin> set p \<Longrightarrow> cut_before (CHR ''?'') p = p"
  by (rule cut_before_free)

lemma cut_escaped: "CHR ''?'' \<notin> set a \<Longrightarrow> CHR ''?'' \<notin> set b \<Longrightarrow> cut_before (CHR ''?'') (a @ PathEscape i @ b) = a @ PathEscape i @ b"
  using PathEscape_not [of "CHR ''?''" i] by (intro cut_before_free) simp

lemma cut_market: "CHR ''?'' \<notin> set x \<Longrightarrow> cut_before (CHR ''?'') (marketPath m x) = marketPath m x"
  unfolding marketPath_def by (intro cut_escaped) simp_all

lemma cut_orderPath: "cut_before (CHR ''?'') (orderPath oid m) = ''/orders/'' @ PathEscape oid"
  using cut_before_append [of "CHR ''?''" "''/orders/'' @ PathEscape oid"] PathEscape_not [of "CHR ''?''" oid]
  by (simp add: orderPath_def)

lemmas method_defs =
  FetchMarkets_def FetchMarketsSummary_def FetchMarkPrice_def FetchMarketRiskParams_def
  FetchMarketStatus_def FetchAdlEvents_def FetchStatus_def FetchStats_def FetchStatsHistory_def
  FetchFundingHistory_def FetchFundingRateHistory_def FetchFundingSamples_def FetchTickers_def
  FetchTicker_def FetchOrderBook_def CreateOrder_def PreviewOrder_def CreateOrders_def EditOrder_def
  CancelOrder_def CancelAllOrders_def FetchOrder_def FetchOpenOrders_def FetchOrders_def
  FetchMyTrades_def FetchPositions_def FetchPositionsHistory_def FetchBalance_def
  FetchCancelOnDisconnect_def SetCancelOnDisconnect_def ClaimCredit_def AccountDeposit_def AddMargin_def
  FetchEquityHistory_def FetchTradingFees_def FetchPortfolioHistory_def FetchRateLimitStatus_def
  FetchAccountState_def FetchAccountSummary_def FetchAdlHistory_def FetchDeposits_def CreateDeposit_def
  FetchWithdrawals_def ClaimFaucet_def FetchBridgeAssets_def FetchBridgeDeposits_def
  FetchBridgeDeposit_def FetchTiers_def SetTier_def DeleteTier_def

lemma routed_marketPaths:
  assumes "m \<noteq> []"
  shows "routed ''GET'' (marketPath m ''/mark-price'') ''/markets/{market_id}/mark-price''"
    "routed ''GET'' (marketPath m ''/risk-params'') ''/markets/{market_id}/risk-params''"
    "routed ''GET'' (marketPath m ''/status'') ''/markets/{market_id}/status''"
    "routed ''GET'' (marketPath m ''/adl-events'') ''/markets/{market_id}/adl-events''"
    "routed ''GET'' (marketPath m ''/funding'') ''/markets/{market_id}/funding''"
    "routed ''GET'' (marketPath m ''/funding-samples'') ''/markets/{market_id}/funding-samples''"
    "routed ''GET'' (marketPath m ''/ticker'') ''/markets/{market_id}/ticker''"
    "routed ''GET'' (marketPath m ''/orderbook'') ''/markets/{market_id}/orderbook''"
  using routed_markets [OF assms, of "''mark-price''"] routed_markets [OF assms, of "''risk-params''"]
    routed_markets [OF assms, of "''status''"] routed_markets [OF assms, of "''adl-events''"]
    routed_markets [OF assms, of "''funding''"] routed_markets [OF assms, of "''funding-samples''"]
    routed_markets [OF assms, of "''ticker''"] routed_markets [OF assms, of "''orderbook''"]
  by (simp_all add: market_routes_def)

lemma cut_cancel_all: "cut_before (CHR ''?'') (''/orders?'' @ q) = ''/orders''"
  by (simp add: cut_before_def)

lemma cut_adl: "cut_before (CHR ''?'') (''/account/'' @ PathEscape a @ ''/adl-history'') = ''/account/'' @ PathEscape a @ ''/adl-history''"
  by (rule cut_escaped) simp_all

lemma cut_last: "CHR ''?'' \<notin> set a \<Longrightarrow> cut_before (CHR ''?'') (a @ PathEscape i) = a @ PathEscape i"
  using cut_escaped [of a "[]" i] by simp

lemma route_routed:
  assumes "route N k tmpl"
  shows "routed (call_method k) (call_path k) tmpl"
  using assms
proof cases
  case (20 oid m)
  then show ?thesis using routed_order [of oid] by (simp add: CancelOrder_def call_defs cut_orderPath)
next
  case (19 oid m req)
  then show ?thesis using routed_order [of oid] by (simp add: EditOrder_def call_defs cut_orderPath)
next
  case (21 m)
  have "routed ''DELETE'' ''/orders'' ''/orders''" by (rule routed_plain) (simp add: plain_routes_def)
  then show ?thesis using 21 cut_cancel_all [of "query_encode [(''market_id'', m)]"]
    by (simp add: CancelAllOrders_def call_defs)
next
  case (22 oid m)
  then show ?thesis using routed_order [of oid "''GET''"] cut_last [of "''/orders/''" oid]
    by (simp add: FetchOrder_def call_defs)
next
  case (40 x l)
  then show ?thesis using routed_adl [of x] cut_adl [of x] by (simp add: FetchAdlHistory_def call_defs)
next
  case (47 x)
  then show ?thesis using routed_tier [of x] cut_last [of "''/admin/tiers/''" x] by (simp add: DeleteTier_def call_defs)
qed (simp_all add: method_defs call_defs cut_market routed_marketPaths routed_plain plain_routes_def)

subsection \<open>What a method puts on the wire\<close>

definition call_target :: "call \<Rightarrow> string" where
  "call_target k = (case k_verb k of VSend m \<Rightarrow> k_path k | _ \<Rightarrow> with_query (k_path k) (k_query k))"

definition call_body :: "call \<Rightarrow> string option" where
  "call_body k = (case k_body k of Some (Some j) \<Rightarrow> Some (json_print j) | _ \<Rightarrow> None)"

lemma plain_literal: "plain_path b \<Longrightarrow> plain_path p \<Longrightarrow> path_text (b @ p)"
  by (rule path_text_plain) (simp add: plain_path_def)

lemma text_escaped: "plain_path b \<Longrightarrow> plain_path a \<Longrightarrow> plain_path c \<Longrightarrow> path_text (b @ a @ PathEscape i @ c)"
  using path_text_append_escape [of "b @ a" c i] path_text_plain [of c] by (simp add: plain_path_def)

lemma text_market: "plain_path b \<Longrightarrow> plain_path x \<Longrightarrow> path_text (b @ marketPath m x)"
  unfolding marketPath_def by (rule text_escaped) (simp_all add: plain_path_def unreserved_def)

lemma text_last: "plain_path b \<Longrightarrow> plain_path a \<Longrightarrow> path_text (b @ a @ PathEscape i)"
  using text_escaped [of b a "[]" i] by (simp add: plain_path_def)

lemmas plain_defs = plain_path_def unreserved_def

lemma route_text:
  assumes "route N k tmpl" "plain_path b"
  shows "path_text (b @ call_path k)"
  using assms(1)
proof cases
  case (19 oid m req)
  have "path_text (b @ ''/orders/'' @ PathEscape oid)" by (rule text_last [OF assms(2)]) (simp add: plain_defs)
  then show ?thesis using 19 by (simp add: EditOrder_def call_defs cut_orderPath)
next
  case (20 oid m)
  have "path_text (b @ ''/orders/'' @ PathEscape oid)" by (rule text_last [OF assms(2)]) (simp add: plain_defs)
  then show ?thesis using 20 by (simp add: CancelOrder_def call_defs cut_orderPath)
next
  case (21 m)
  have "path_text (b @ ''/orders'')" by (rule plain_literal [OF assms(2)]) (simp add: plain_defs)
  then show ?thesis using 21 cut_cancel_all [of "query_encode [(''market_id'', m)]"]
    by (simp add: CancelAllOrders_def call_defs)
next
  case (22 oid m)
  have "path_text (b @ ''/orders/'' @ PathEscape oid)" by (rule text_last [OF assms(2)]) (simp add: plain_defs)
  then show ?thesis using 22 cut_last [of "''/orders/''" oid] by (simp add: FetchOrder_def call_defs)
next
  case (40 x l)
  have "path_text (b @ ''/account/'' @ PathEscape x @ ''/adl-history'')"
    by (rule text_escaped [OF assms(2)]) (simp_all add: plain_defs)
  then show ?thesis using 40 cut_adl [of x] by (simp add: FetchAdlHistory_def call_defs)
next
  case (47 x)
  have "path_text (b @ ''/admin/tiers/'' @ PathEscape x)" by (rule text_last [OF assms(2)]) (simp add: plain_defs)
  then show ?thesis using 47 cut_last [of "''/admin/tiers/''" x] by (simp add: DeleteTier_def call_defs)
qed (use assms(2) in \<open>simp_all add: method_defs call_defs cut_market text_market plain_literal plain_defs\<close>)

lemma orderPath_suffix:
  "orderPath oid m = cut_before (CHR ''?'') (orderPath oid m) @ CHR ''?'' # query_encode [(''market_id'', m)]"
  unfolding cut_orderPath by (simp add: orderPath_def)

text \<open>What follows the path in a target.\<close>

lemma route_suffix:
  assumes "route N k tmpl"
  shows "k_path k = call_path k \<or> (\<exists>m q. k_verb k = VSend m \<and> k_path k = call_path k @ CHR ''?'' # query_encode q)"
  using assms
proof cases
  case (19 oid m req)
  have "k_verb k = VSend (call_method k)" "k_path k = orderPath oid m" using 19 by (simp_all add: EditOrder_def call_defs)
  then show ?thesis unfolding call_path_def using orderPath_suffix [of oid m] by metis
next
  case (20 oid m)
  have "k_verb k = VSend (call_method k)" "k_path k = orderPath oid m" using 20 by (simp_all add: CancelOrder_def call_defs)
  then show ?thesis unfolding call_path_def using orderPath_suffix [of oid m] by metis
next
  case (21 m)
  then show ?thesis using cut_cancel_all [of "query_encode [(''market_id'', m)]"]
    by (auto simp: CancelAllOrders_def call_defs)
next
  case (22 oid m)
  then show ?thesis using cut_last [of "''/orders/''" oid] by (simp add: FetchOrder_def call_defs)
next
  case (40 x l)
  then show ?thesis using cut_adl [of x] by (simp add: FetchAdlHistory_def call_defs)
next
  case (47 x)
  then show ?thesis using cut_last [of "''/admin/tiers/''" x] by (simp add: DeleteTier_def call_defs)
qed (simp_all add: method_defs call_defs cut_market)

lemma target_parses:
  assumes "route N k tmpl" "plain_path b"
  shows "\<exists>q. parse_target (b @ call_target k) = Some (b @ call_path k, query_encode q)"
proof -
  note p = route_text [OF assms]
  have q: "parse_target ((b @ call_path k) @ CHR ''?'' # query_encode q) = Some (b @ call_path k, query_encode q)" for q
    using parse_path_query [OF p] query_encode_plain by blast
  have e: "query_encode [] = []" by (simp add: query_encode_def)
  consider "call_target k = call_path k" | q where "call_target k = call_path k @ CHR ''?'' # query_encode q"
    using route_suffix [OF assms(1)] that unfolding call_target_def with_query_def
    by (cases "k_verb k"; cases "k_query k = []") auto
  then show ?thesis
  proof cases
    case 1 then show ?thesis using parse_path_text [OF p] e by (metis)
  next
    case 2 then show ?thesis using q by auto
  qed
qed

lemma target_cut:
  assumes "route N k tmpl"
  shows "cut_before (CHR ''?'') (call_target k) = call_path k"
proof -
  have "CHR ''?'' \<notin> set (call_path k)"
    by (auto simp: call_path_def cut_before_def dest: set_takeWhileD)
  then show ?thesis
    using route_suffix [OF assms] by (auto simp: call_target_def with_query_def split: verb.splits)
qed

lemma route_verb:
  assumes "route N k tmpl"
  shows "case k_verb k of VSend m \<Rightarrow> m \<noteq> ''GET'' | _ \<Rightarrow> k_body k = None"
  using assms by cases (simp_all add: method_defs call_defs)

text \<open>The requests a call adds to the log: at most one for a mutation, at most one more than the
  retries for a read, each to the call's target.\<close>

definition requests_to :: "call \<Rightarrow> string \<Rightarrow> string \<Rightarrow> request \<Rightarrow> bool" where
  "requests_to k wire q req =
     (r_method req = call_method k \<and> r_path req = wire \<and> r_query req = q \<and> r_body req = call_body k)"

lemma Get_raw_log:
  assumes "quiet t" "0 \<le> t_minDelay t" "t_minDelay t \<le> t_maxDelay t"
    and "Get_raw V t w path q out = (r, w')"
    and "parse_target (after_scheme (t_base t) @ with_query path q) = Some (wire, qs)"
  shows "\<exists>xs. w_log w' = w_log w @ xs \<and> length xs \<le> Suc (t_maxRetries t) \<and>
    (\<forall>x\<in>set xs. r_method (fst x) = ''GET'' \<and> r_path (fst x) = wire \<and> r_query (fst x) = qs \<and> r_body (fst x) = None)"
proof (cases "t_refuse t")
  case (Some e)
  then show ?thesis using assms(4) by (intro exI [of _ "[]"]) (simp add: Get_raw_def)
next
  case None
  then have "get_loop V t (t_maxRetries t) (t_minDelay t) w [] (with_query path q) out = (r, w')"
    using assms(4) by (simp add: Get_raw_def)
  from get_loop_trace [OF assms(1,2) _ assms(3) this] assms(5) show ?thesis
    unfolding get_trace_def by auto
qed

lemma Send_log:
  assumes "quiet t" "Send V t w extra m path body out = (r, w')"
    and "parse_target (after_scheme (t_base t) @ path) = Some (wire, qs)"
  shows "\<exists>xs. w_log w' = w_log w @ xs \<and> length xs \<le> 1 \<and>
    (\<forall>x\<in>set xs. r_method (fst x) = m \<and> r_path (fst x) = wire \<and> r_query (fst x) = qs \<and>
       r_body (fst x) = (case body of Some (Some j) \<Rightarrow> Some (json_print j) | _ \<Rightarrow> None))"
proof (cases "t_refuse t = None \<and> m \<noteq> ''GET'' \<and> body \<noteq> Some None")
  case False
  then have "w' = w" using assms(2) by (auto simp: Send_def split: option.splits if_splits)
  then show ?thesis by (intro exI [of _ "[]"]) simp
next
  case True
  let ?b = "case body of Some (Some j) \<Rightarrow> Some (json_print j) | _ \<Rightarrow> None"
  obtain r1 where d: "do_request V t w extra m path ?b out = (r1, w')"
    using assms(2) True by (auto simp: Send_def split: prod.splits)
  show ?thesis using assms(1) d
  proof (cases rule: do_request_cases)
    case local
    then show ?thesis by (intro exI [of _ "[]"]) simp
  next
    case (sent wire' q' h w1 w2 w3 a)
    then show ?thesis using assms(3)
      by (intro exI [of _ "[(\<lparr>r_method = m, r_path = wire', r_query = q', r_headers = h, r_body = ?b\<rparr>, a)]"]) simp
  qed
qed

text \<open>What a call adds to the log.\<close>

lemma perform_log:
  assumes "route N k tmpl" "plain_path (after_scheme (t_base t))" "quiet t" "0 \<le> t_minDelay t" "t_minDelay t \<le> t_maxDelay t"
    and "perform V t w k = (r, w')"
  obtains q xs where "w_log w' = w_log w @ xs"
    "length xs \<le> (if call_method k = ''GET'' then Suc (t_maxRetries t) else 1)"
    "\<forall>x\<in>set xs. requests_to k (after_scheme (t_base t) @ call_path k) q (fst x)"
proof -
  let ?b = "after_scheme (t_base t)"
  obtain q where q: "parse_target (?b @ call_target k) = Some (?b @ call_path k, query_encode q)"
    using target_parses [OF assms(1,2)] by blast
  have "\<exists>xs. w_log w' = w_log w @ xs \<and> length xs \<le> (if call_method k = ''GET'' then Suc (t_maxRetries t) else 1) \<and>
      (\<forall>x\<in>set xs. requests_to k (?b @ call_path k) (query_encode q) (fst x))"
  proof (cases "k_verb k")
    case (VSend m)
    have m: "m \<noteq> ''GET''" using route_verb [OF assms(1)] VSend by simp
    obtain r1 where "Send V t w [] m (k_path k) (k_body k) (k_out k) = (r1, w')"
      using assms(6) VSend by (auto simp: perform_def split: prod.splits)
    from Send_log [OF assms(3) this, of "?b @ call_path k" "query_encode q"] show ?thesis
      using q VSend m by (simp add: call_target_def call_method_def requests_to_def call_body_def)
  next
    case VGet
    have b: "k_body k = None" using route_verb [OF assms(1)] VGet by simp
    obtain r1 where "Get_raw V t w (k_path k) (k_query k) (k_out k) = (r1, w')"
      using assms(6) VGet by (auto simp: perform_def Get_def split: prod.splits)
    from Get_raw_log [OF assms(3-5) this, of "?b @ call_path k" "query_encode q"] show ?thesis
      using q VGet b by (simp add: call_target_def call_method_def requests_to_def call_body_def)
  next
    case VPage
    have b: "k_body k = None" using route_verb [OF assms(1)] VPage by simp
    obtain r1 where "Get_raw V t w (k_path k) (k_query k) (k_out k) = (r1, w')"
      using assms(6) VPage by (auto simp: perform_def GetPage_def split: prod.splits)
    from Get_raw_log [OF assms(3-5) this, of "?b @ call_path k" "query_encode q"] show ?thesis
      using q VPage b by (simp add: call_target_def call_method_def requests_to_def call_body_def)
  qed
  then show thesis using that by blast
qed



text \<open>The order in which the bridge filters are ranged over does not show in the request.\<close>

lemma query_encode_unique:
  "set xs = set ys \<Longrightarrow> distinct (map fst xs) \<Longrightarrow> distinct (map fst ys) \<Longrightarrow> query_encode xs = query_encode ys"
  unfolding query_encode_def
  by (rule arg_cong [where f = "\<lambda>q. join_on (CHR ''&'') (map (\<lambda>(k, v). QueryEscape k @ CHR ''='' # QueryEscape v) q)"],
      rule map_sorted_distinct_set_unique [of fst]) (simp_all add: distinct_map)

lemma bridge_query_filters:
  assumes "distinct (map fst fs)" "''limit'' \<notin> fst ` set fs"
  shows "bridge_query fs l = limitQuery l @ filter (\<lambda>(k, v). v \<noteq> []) fs"
proof -
  have f: "fold (\<lambda>(k, v) q. if v \<noteq> [] then qset q k v else q) fs q = q @ filter (\<lambda>(k, v). v \<noteq> []) fs"
    if "distinct (map fst fs)" "fst ` set fs \<inter> fst ` set q = {}" for q :: query and fs
    using that
  proof (induction fs arbitrary: q)
    case (Cons kv fs)
    obtain k v where kv: "kv = (k, v)" by fastforce
    have n: "filter (\<lambda>(k', _). k' \<noteq> k) q = q" 
    proof (rule filter_True, rule ballI)
      fix x assume "x \<in> set q"
      moreover have "k \<notin> fst ` set q" using Cons.prems(2) kv by simp
      ultimately have "fst x \<noteq> k" by (metis image_eqI)
      then show "case x of (k', _) \<Rightarrow> k' \<noteq> k" by (simp add: case_prod_beta)
    qed
    show ?case
    proof (cases "v = []")
      case True
      then show ?thesis using Cons.IH [of q] Cons.prems kv by simp
    next
      case False
      have "fst ` set fs \<inter> fst ` set (q @ [(k, v)]) = {}" using Cons.prems kv by auto
      then show ?thesis using Cons.IH [of "q @ [(k, v)]"] Cons.prems(1) kv False n by (simp add: qset_def)
    qed
  qed simp
  have "fst ` set fs \<inter> fst ` set (limitQuery l) = {}"
    using assms(2) by (auto simp: limitQuery_def setInt_def qset_def)
  then show ?thesis using f [OF assms(1)] by (simp add: bridge_query_def)
qed

lemma bridge_order_irrelevant:
  assumes "set fs = set (bridge_filters p)" "distinct (map fst fs)"
  shows "query_encode (bridge_query fs l) = query_encode (bridge_query (bridge_filters p) l)"
proof -
  have d: "distinct (map fst (bridge_filters p))" "''limit'' \<notin> fst ` set (bridge_filters p)"
    by (simp_all add: bridge_filters_def)
  have d': "''limit'' \<notin> fst ` set fs" using d(2) assms(1) by simp
  have l: "distinct (map fst (limitQuery l @ filter (\<lambda>(k, v). v \<noteq> []) gs))"
    if "distinct (map fst gs)" "''limit'' \<notin> fst ` set gs" for gs
    using that by (auto simp: limitQuery_def setInt_def qset_def distinct_map_filter)
  show ?thesis
    unfolding bridge_query_filters [OF d] bridge_query_filters [OF assms(2) d']
    by (rule query_encode_unique [OF _ l [OF assms(2) d'] l [OF d]]) (simp add: assms(1))
qed

end
