(* ===== verification/Subscription.thy ===== *)
theory Subscription
  imports JsonTyped Url Socket
begin

section \<open>The account socket (ws.go)\<close>

text \<open>
  Channels, the client's frames, the cursors a subscription resumes from, and the decoding
  of the server's frames into events. The subscription's map of channels is the list of its
  keys; where the code ranges over the map, whose order Go does not fix, the order is an
  argument. Every function here is one critical section of the shared mutex; the frames it
  writes to the connection are part of its result.
\<close>

record channel =
  ch_name :: string
  ch_market :: string

definition channelNames :: "(string \<times> bool) list" where
  "channelNames =
     [(''trades'', True), (''book'', True), (''candles'', True),
      (''orders'', False), (''fills'', False), (''positions'', False), (''balances'', False), (''liquidations'', False)]"

definition ChannelOrders :: channel where "ChannelOrders = \<lparr>ch_name = ''orders'', ch_market = []\<rparr>"
definition ChannelFills :: channel where "ChannelFills = \<lparr>ch_name = ''fills'', ch_market = []\<rparr>"
definition ChannelPositions :: channel where "ChannelPositions = \<lparr>ch_name = ''positions'', ch_market = []\<rparr>"
definition ChannelBalances :: channel where "ChannelBalances = \<lparr>ch_name = ''balances'', ch_market = []\<rparr>"
definition ChannelLiquidations :: channel where "ChannelLiquidations = \<lparr>ch_name = ''liquidations'', ch_market = []\<rparr>"

definition ChannelTrades :: "string \<Rightarrow> channel" where "ChannelTrades m = \<lparr>ch_name = ''trades'', ch_market = m\<rparr>"
definition ChannelBook :: "string \<Rightarrow> channel" where "ChannelBook m = \<lparr>ch_name = ''book'', ch_market = m\<rparr>"
definition ChannelCandles :: "string \<Rightarrow> channel" where "ChannelCandles m = \<lparr>ch_name = ''candles'', ch_market = m\<rparr>"

definition channel_String :: "channel \<Rightarrow> string" where
  "channel_String c = (if ch_market c = [] then ch_name c else ch_name c @ '':'' @ ch_market c)"

definition channel_validate :: "channel \<Rightarrow> go_error option" where
  "channel_validate c =
     (case map_of channelNames (ch_name c) of
        None \<Rightarrow> Some (EInvalid ''zero Channel'')
      | Some perMarket \<Rightarrow>
          if perMarket \<and> (ch_market c = [] \<or> contains_space (ch_market c))
          then Some (EInvalid ''invalid market'') else None)"

subsection \<open>Client frames\<close>

datatype sub_op = OpSubscribe | OpUnsubscribe

fun op_tag :: "sub_op \<Rightarrow> string" where
  "op_tag OpSubscribe = ''subscribe''"
| "op_tag OpUnsubscribe = ''unsubscribe''"

record client_frame =
  cf_op :: sub_op
  cf_channel :: string
  cf_market :: string
  cf_since :: "int option"

definition client_frame_json :: "client_frame \<Rightarrow> json" where
  "client_frame_json f =
     JObj ([(''op'', JStr (op_tag (cf_op f))), (''channel'', JStr (cf_channel f))] @
       (if cf_market f = [] then [] else [(''market'', JStr (cf_market f))]) @
       (case cf_since f of None \<Rightarrow> [] | Some n \<Rightarrow> [(''since'', JNum (show_int n))]))"

record subscription =
  sb_subs :: "channel list"
  sb_cursors :: "channel \<Rightarrow> int option"

definition empty_subscription :: subscription where
  "empty_subscription = \<lparr>sb_subs = [], sb_cursors = (\<lambda>_. None)\<rparr>"

definition sub_frame :: "subscription \<Rightarrow> sub_op \<Rightarrow> channel \<Rightarrow> client_frame" where
  "sub_frame s o' ch =
     \<lparr>cf_op = o', cf_channel = ch_name ch, cf_market = ch_market ch,
      cf_since = (if o' = OpSubscribe then sb_cursors s ch else None)\<rparr>"

text \<open>The hello of a connection: every channel, in whatever order the map is ranged over.\<close>

definition sub_hello :: "subscription \<Rightarrow> channel list \<Rightarrow> client_frame list" where
  "sub_hello s order = map (sub_frame s OpSubscribe) order"

definition add_sub :: "channel \<Rightarrow> subscription \<Rightarrow> subscription" where
  "add_sub ch s = s\<lparr>sb_subs := if ch \<in> set (sb_subs s) then sb_subs s else sb_subs s @ [ch]\<rparr>"

definition drop_sub :: "channel \<Rightarrow> subscription \<Rightarrow> subscription" where
  "drop_sub ch s = s\<lparr>sb_subs := removeAll ch (sb_subs s), sb_cursors := (sb_cursors s)(ch := None)\<rparr>"

text \<open>\<open>send\<close>: the update, and the frame written if there is a connection. The write may
  fail; the update stays.\<close>

definition sub_send ::
  "subscription \<Rightarrow> bool \<Rightarrow> bool \<Rightarrow> bool \<Rightarrow> channel \<Rightarrow> (subscription \<Rightarrow> subscription) \<Rightarrow> sub_op
     \<Rightarrow> socket_error option \<times> subscription \<times> client_frame list" where
  "sub_send s shut online write_ok ch update o' =
     (if shut then (Some ErrStreamClosed, s, [])
      else
        (let s = update s in
         if \<not> online then (None, s, [])
         else if write_ok then (None, s, [sub_frame s o' ch]) else (Some ErrNet, s, [])))"

definition sub_Subscribe ::
  "subscription \<Rightarrow> bool \<Rightarrow> bool \<Rightarrow> bool \<Rightarrow> channel \<Rightarrow> (go_error + socket_error option) \<times> subscription \<times> client_frame list" where
  "sub_Subscribe s shut online write_ok ch =
     (case channel_validate ch of
        Some e \<Rightarrow> (Inl e, s, [])
      | None \<Rightarrow> map_prod Inr id (sub_send s shut online write_ok ch (add_sub ch) OpSubscribe))"

definition sub_Unsubscribe ::
  "subscription \<Rightarrow> bool \<Rightarrow> bool \<Rightarrow> bool \<Rightarrow> channel \<Rightarrow> socket_error option \<times> subscription \<times> client_frame list" where
  "sub_Unsubscribe s shut online write_ok ch =
     sub_send s shut online write_ok ch (drop_sub ch) OpUnsubscribe"

subsection \<open>Server frames\<close>

record engine_envelope =
  Epoch :: int
  Sequence :: int
  EmittedAt :: int

datatype sub_event =
    Subscribed channel int
  | Unsubscribed channel
  | ChannelEvent channel int "engine_envelope option" "json option"
  | OutOfSync channel int
  | ServerError string
  | Unrecognized string "json_error option"

text \<open>\<open>advance\<close>.\<close>

definition advance :: "subscription \<Rightarrow> channel \<Rightarrow> int \<Rightarrow> subscription" where
  "advance s ch seq =
     (if ch \<in> set (sb_subs s) \<and> (case sb_cursors s ch of None \<Rightarrow> True | Some cur \<Rightarrow> cur < seq)
      then s\<lparr>sb_cursors := (sb_cursors s)(ch := Some seq)\<rparr> else s)"

text \<open>\<open>resync\<close>: which subscriptions an out_of_sync names.\<close>

definition names_sub :: "channel \<Rightarrow> channel \<Rightarrow> bool" where
  "names_sub ch sub = (ch_name sub = ch_name ch \<and> (ch_market ch = [] \<or> ch_market sub = ch_market ch))"

fun resync :: "bool \<Rightarrow> channel \<Rightarrow> int \<Rightarrow> channel list \<Rightarrow> subscription \<Rightarrow> sub_event list \<times> subscription \<times> client_frame list" where
  "resync online ch oldest [] s = ([], s, [])"
| "resync online ch oldest (sub # order) s =
     (if \<not> names_sub ch sub then resync online ch oldest order s
      else
        (let s = s\<lparr>sb_cursors := (sb_cursors s)(sub := None)\<rparr>;
             (evs, s', fs) = resync online ch oldest order s
         in (OutOfSync sub oldest # evs, s', (if online then [sub_frame s OpSubscribe sub] else []) @ fs)))"

definition dec_envelope :: "json \<Rightarrow> json_error + engine_envelope" where
  "dec_envelope j =
     bind_res (members j) (\<lambda>ms.
     bind_res (field 0 dec_uint64 ''epoch'' ms) (\<lambda>e.
     bind_res (field 0 dec_uint64 ''sequence'' ms) (\<lambda>q.
     bind_res (field 0 dec_int64 ''emitted_at'' ms) (\<lambda>t. Inr \<lparr>Epoch = e, Sequence = q, EmittedAt = t\<rparr>))))"

record server_frame =
  f_op :: string
  f_channel :: string
  f_market :: "string option"
  f_seq :: "int option"
  f_seq_at_join :: "int option"
  f_oldest :: "int option"
  f_message :: string
  f_envelope :: "engine_envelope option"
  f_payload :: "json option"

definition dec_server_frame :: "json \<Rightarrow> json_error + server_frame" where
  "dec_server_frame j =
     bind_res (members j) (\<lambda>ms.
     bind_res (field [] dec_string ''op'' ms) (\<lambda>op.
     bind_res (field [] dec_string ''channel'' ms) (\<lambda>ch.
     bind_res (ptr_field dec_string ''market'' ms) (\<lambda>mk.
     bind_res (ptr_field dec_uint64 ''seq'' ms) (\<lambda>sq.
     bind_res (ptr_field dec_uint64 ''seq_at_join'' ms) (\<lambda>sj.
     bind_res (ptr_field dec_uint64 ''oldest_seq'' ms) (\<lambda>old.
     bind_res (field [] dec_string ''message'' ms) (\<lambda>msg.
     bind_res (ptr_field dec_envelope ''engine_envelope'' ms) (\<lambda>env.
       Inr \<lparr>f_op = op, f_channel = ch, f_market = mk, f_seq = sq, f_seq_at_join = sj, f_oldest = old,
            f_message = msg, f_envelope = env,
            f_payload = (case field_vals ''payload'' ms of [] \<Rightarrow> None | vs \<Rightarrow> Some (last vs))\<rparr>)))))))))"

text \<open>\<open>decode\<close>, on a frame that parsed, and on the bytes.\<close>

definition sub_handle ::
  "bool \<Rightarrow> channel list \<Rightarrow> string \<Rightarrow> server_frame \<Rightarrow> subscription \<Rightarrow> sub_event list \<times> subscription \<times> client_frame list" where
  "sub_handle online order data f s =
     (if f_op f = ''error'' then ([ServerError (f_message f)], s, [])
      else
        (let ch = \<lparr>ch_name = f_channel f, ch_market = (case f_market f of None \<Rightarrow> [] | Some m \<Rightarrow> m)\<rparr> in
         if map_of channelNames (ch_name ch) = None then ([Unrecognized data None], s, [])
         else if f_op f = ''subscribed'' \<and> f_seq_at_join f \<noteq> None
         then ([Subscribed ch (the (f_seq_at_join f))], advance s ch (the (f_seq_at_join f)), [])
         else if f_op f = ''unsubscribed'' then ([Unsubscribed ch], s, [])
         else if f_op f = ''event'' \<and> f_seq f \<noteq> None
         then ([ChannelEvent ch (the (f_seq f)) (f_envelope f) (f_payload f)], advance s ch (the (f_seq f)), [])
         else if f_op f = ''out_of_sync''
         then resync online ch (case f_oldest f of None \<Rightarrow> 0 | Some n \<Rightarrow> n) order s
         else ([Unrecognized data None], s, [])))"

definition sub_decode ::
  "bool \<Rightarrow> channel list \<Rightarrow> string \<Rightarrow> subscription \<Rightarrow> sub_event list \<times> subscription \<times> client_frame list" where
  "sub_decode online order data s =
     (case Unmarshal dec_server_frame data of
        Inl e \<Rightarrow> ([Unrecognized data (Some e)], s, [])
      | Inr f \<Rightarrow> sub_handle online order data f s)"

text \<open>
  \<open>Next\<close>: pending events first, then reads until one gives an event. Each read is a frame,
  decoded in some order of the map, or a lifecycle event or error of the socket; reads is
  what the socket returns in turn, and None that Next still waits.
\<close>

datatype sub_read = RData string bool "channel list" | RSocket outcome

datatype sub_result = SubEvent sub_event | SubSocket outcome

fun sub_Next ::
  "sub_event list \<Rightarrow> subscription \<Rightarrow> sub_read list
     \<Rightarrow> (sub_result \<times> sub_event list \<times> subscription \<times> client_frame list \<times> sub_read list) option" where
  "sub_Next (ev # pending) s reads = Some (SubEvent ev, pending, s, [], reads)"
| "sub_Next [] s [] = None"
| "sub_Next [] s (RSocket out # reads) = Some (SubSocket out, [], s, [], reads)"
| "sub_Next [] s (RData data online order # reads) =
     (case sub_decode online order data s of
        (ev # evs, s, fs) \<Rightarrow> Some (SubEvent ev, evs, s, fs, reads)
      | ([], s, fs) \<Rightarrow>
          map_option (\<lambda>(r, p, s, fs', reads). (r, p, s, fs @ fs', reads)) (sub_Next [] s reads))"

subsection \<open>Opening a subscription\<close>

text \<open>\<open>Client.Subscribe\<close> before any network I/O: the checks, in their order, and the set of
  channels.\<close>

fun subscribe_channels :: "channel list \<Rightarrow> subscription \<Rightarrow> go_error + subscription" where
  "subscribe_channels [] s = Inr s"
| "subscribe_channels (ch # chs) s =
     (case channel_validate ch of Some e \<Rightarrow> Inl e | None \<Rightarrow> subscribe_channels chs (add_sub ch s))"

definition Subscribe_checks :: "'s transport \<Rightarrow> channel list \<Rightarrow> go_error + subscription" where
  "Subscribe_checks t channels =
     (case t_signer t of
        None \<Rightarrow> Inl ENoCredential
      | Some _ \<Rightarrow>
          (case t_refuse t of Some e \<Rightarrow> Inl e | None \<Rightarrow> subscribe_channels channels empty_subscription))"

definition wsTokenPath :: string where
  "wsTokenPath = ''/ws/token''"

definition dec_token :: "json \<Rightarrow> json_error + string" where
  "dec_token j = bind_res (members j) (field [] dec_string ''token'')"

text \<open>The dial of the account socket: mint a token, then open the URL that carries it.\<close>

definition sub_dial ::
  "env \<Rightarrow> 's transport \<Rightarrow> 's world \<Rightarrow> (string \<Rightarrow> headers \<Rightarrow> 'c dial_result) \<Rightarrow> (go_error + (ws_error + 'c)) \<times> 's world" where
  "sub_dial V t w dial =
     (case Send V t w [] ''POST'' wsTokenPath None (Some dec_token) of
        (Inl e, w) \<Rightarrow> (Inl e, w)
      | (Inr tok, w) \<Rightarrow>
          (let token = (case tok of None \<Rightarrow> [] | Some s \<Rightarrow> s) in
           if token = [] then (Inl (EInvalid ''POST /ws/token returned no token''), w)
           else (Inr (Dial t dial (WSURL t ''/ws'' @ ''?token='' @ QueryEscape token)), w)))"

subsection \<open>Cursors\<close>

text \<open>\<open>order\<close> is an order of the map's keys.\<close>

definition key_order :: "subscription \<Rightarrow> channel list \<Rightarrow> bool" where
  "key_order s order = (distinct order \<and> set order = set (sb_subs s))"

definition sub_inv :: "subscription \<Rightarrow> bool" where
  "sub_inv s = (distinct (sb_subs s) \<and> (\<forall>ch. sb_cursors s ch \<noteq> None \<longrightarrow> ch \<in> set (sb_subs s)))"

definition fresh_frame :: "channel \<Rightarrow> client_frame" where
  "fresh_frame ch = \<lparr>cf_op = OpSubscribe, cf_channel = ch_name ch, cf_market = ch_market ch, cf_since = None\<rparr>"

lemma resync_result:
  "resync online ch oldest order s =
     (map (\<lambda>sub. OutOfSync sub oldest) (filter (names_sub ch) order),
      s\<lparr>sb_cursors := (\<lambda>c. if c \<in> set order \<and> names_sub ch c then None else sb_cursors s c)\<rparr>,
      if online then map fresh_frame (filter (names_sub ch) order) else [])"
proof (induction order arbitrary: s)
  case (Cons sub order)
  show ?case
  proof (cases "names_sub ch sub")
    case True
    let ?s = "s\<lparr>sb_cursors := (sb_cursors s)(sub := None)\<rparr>"
    have c: "(\<lambda>c. if c \<in> set order \<and> names_sub ch c then None else sb_cursors ?s c) =
        (\<lambda>c. if c \<in> set (sub # order) \<and> names_sub ch c then None else sb_cursors s c)"
      using True by (auto simp: fun_eq_iff)
    have f: "sub_frame ?s OpSubscribe sub = fresh_frame sub" by (simp add: sub_frame_def fresh_frame_def)
    show ?thesis
      unfolding resync.simps Let_def Cons [of ?s] c f using True by simp
  next
    case False
    have "(\<lambda>c. if c \<in> set order \<and> names_sub ch c then None else sb_cursors s c) =
        (\<lambda>c. if c \<in> set (sub # order) \<and> names_sub ch c then None else sb_cursors s c)"
      using False by (auto simp: fun_eq_iff)
    then show ?thesis using False Cons [of s] by simp
  qed
qed simp

declare resync.simps [simp del]

lemma advance_fields [simp]: "sb_subs (advance s ch n) = sb_subs s"
  by (simp add: advance_def)

lemma advance_cursor:
  "sb_cursors (advance s ch n) c =
     (if c = ch \<and> ch \<in> set (sb_subs s)
      then (case sb_cursors s ch of None \<Rightarrow> Some n | Some k \<Rightarrow> Some (max k n)) else sb_cursors s c)"
  by (auto simp: advance_def max_def split: option.split)

definition frame_channel :: "server_frame \<Rightarrow> channel" where
  "frame_channel f = \<lparr>ch_name = f_channel f, ch_market = (case f_market f of None \<Rightarrow> [] | Some m \<Rightarrow> m)\<rparr>"

lemma sub_handle_cases:
  assumes "sub_handle online order data f s = (evs, s', fs)"
  obtains (quiet) ev where "evs = [ev]" "s' = s" "fs = []" "\<forall>ch n. ev \<noteq> OutOfSync ch n"
      "(\<exists>m. ev = ServerError m) \<or> ev = Unsubscribed (frame_channel f) \<or> ev = Unrecognized data None"
  | (ack) n where "evs = [Subscribed (frame_channel f) n]" "s' = advance s (frame_channel f) n" "fs = []"
      "f_op f = ''subscribed''" "f_seq_at_join f = Some n"
  | (event) n where "evs = [ChannelEvent (frame_channel f) n (f_envelope f) (f_payload f)]"
      "s' = advance s (frame_channel f) n" "fs = []" "f_op f = ''event''" "f_seq f = Some n"
  | (lost) n where "resync online (frame_channel f) n order s = (evs, s', fs)" "f_op f = ''out_of_sync''"
proof -
  let ?ch = "frame_channel f"
  note u = sub_handle_def [of online order data f s, folded frame_channel_def, unfolded Let_def]
  consider (a) "f_op f = ''error''" | (b) "f_op f \<noteq> ''error''" "map_of channelNames (ch_name ?ch) = None"
    | (c) n where "map_of channelNames (ch_name ?ch) \<noteq> None" "f_op f = ''subscribed''" "f_seq_at_join f = Some n"
    | (d) "map_of channelNames (ch_name ?ch) \<noteq> None" "f_op f = ''unsubscribed''"
    | (e) n where "map_of channelNames (ch_name ?ch) \<noteq> None" "f_op f = ''event''" "f_seq f = Some n"
    | (f) "map_of channelNames (ch_name ?ch) \<noteq> None" "f_op f = ''out_of_sync''"
    | (g) "map_of channelNames (ch_name ?ch) \<noteq> None" "f_op f \<notin> {''error'', ''unsubscribed'', ''out_of_sync''}"
        "f_op f = ''subscribed'' \<longrightarrow> f_seq_at_join f = None" "f_op f = ''event'' \<longrightarrow> f_seq f = None"
    by (cases "f_seq_at_join f"; cases "f_seq f") auto
  then show ?thesis
  proof cases
    case a then show ?thesis using quiet [of "ServerError (f_message f)"] assms u by simp
  next
    case b then show ?thesis using quiet [of "Unrecognized data None"] assms u by simp
  next
    case c then show ?thesis using ack [of n] assms u by (simp del: not_None_eq)
  next
    case d then show ?thesis using quiet [of "Unsubscribed ?ch"] assms u by (simp del: not_None_eq)
  next
    case e then show ?thesis using event [of n] assms u by (simp del: not_None_eq)
  next
    case f then show ?thesis using lost assms u by (simp del: not_None_eq)
  next
    case g then show ?thesis using quiet [of "Unrecognized data None"] assms u by (simp del: not_None_eq split: if_splits)
  qed
qed

text \<open>C17: the cursors a reconnect resumes from. Whatever bytes the server sends, handling them
  keeps the subscribed set, leaves a cursor only on a subscribed channel, and for every
  channel either the cursor does not go back, and moves only to the sequence the frame
  carries for it, or the caller is told OutOfSync for that very channel, its cursor is
  dropped, and, on a live connection, the channel is subscribed again from the live edge.\<close>

theorem cursors_track:
  assumes "sub_inv s" "key_order s order" "sub_decode online order data s = (evs, s', fs)"
  shows "sub_inv s' \<and> sb_subs s' = sb_subs s \<and>
    (\<forall>ch. (\<exists>n. OutOfSync ch n \<in> set evs \<and> sb_cursors s' ch = None \<and> (online \<longrightarrow> fresh_frame ch \<in> set fs)) \<or>
      sb_cursors s' ch = sb_cursors s ch \<or>
      (\<exists>n. sb_cursors s' ch = Some n \<and> (\<forall>k. sb_cursors s ch = Some k \<longrightarrow> k < n) \<and>
        (Subscribed ch n \<in> set evs \<or> (\<exists>e p. ChannelEvent ch n e p \<in> set evs))))"
proof (cases "Unmarshal dec_server_frame data")
  case (Inl e)
  then show ?thesis using assms by (simp add: sub_decode_def)
next
  case (Inr f)
  then have h: "sub_handle online order data f s = (evs, s', fs)" using assms(3) by (simp add: sub_decode_def)
  have adv: "sub_inv (advance s c n)" for c n
    using assms(1) by (auto simp: sub_inv_def advance_cursor)
  have mono: "sb_cursors (advance s c n) ch = sb_cursors s ch \<or>
      c = ch \<and> sb_cursors (advance s c n) ch = Some n \<and> (\<forall>k. sb_cursors s ch = Some k \<longrightarrow> k < n)" for c n ch
    by (auto simp: advance_def split: option.split)
  from h show ?thesis
  proof (cases rule: sub_handle_cases)
    case quiet
    then show ?thesis using assms(1) by simp
  next
    case (ack n)
    then show ?thesis using adv mono [of "frame_channel f" n] by auto
  next
    case (event n)
    then show ?thesis using adv mono [of "frame_channel f" n] by auto
  next
    case (lost n)
    note r = lost(1) [unfolded resync_result, THEN sym]
    have "sub_inv s'" using r assms(1) by (auto simp: sub_inv_def)
    moreover have "(\<exists>n. OutOfSync ch n \<in> set evs \<and> sb_cursors s' ch = None \<and> (online \<longrightarrow> fresh_frame ch \<in> set fs)) \<or>
        sb_cursors s' ch = sb_cursors s ch" for ch
      using r by (cases "ch \<in> set order \<and> names_sub (frame_channel f) ch") auto
    ultimately show ?thesis using r by auto
  qed
qed

definition fills_frame :: string where
  "fills_frame = ''{\"op\":\"event\",\"channel\":\"fills\",\"seq\":7,\"payload\":{}}''"

theorem cursors_track_witness:
  "\<exists>evs s' fs. sub_decode True [ChannelFills] fills_frame (add_sub ChannelFills empty_subscription) = (evs, s', fs) \<and>
     sub_inv s' \<and> sb_subs s' = [ChannelFills]"
proof -
  let ?s = "add_sub ChannelFills empty_subscription"
  obtain evs s' fs where d: "sub_decode True [ChannelFills] fills_frame ?s = (evs, s', fs)" by (rule prod_cases3)
  have "sub_inv ?s" "key_order ?s [ChannelFills]"
    by (simp_all add: sub_inv_def key_order_def add_sub_def empty_subscription_def)
  from cursors_track [OF this d] show ?thesis using d by (simp add: add_sub_def empty_subscription_def)
qed

end
