(* ===== verification/Resume.thy ===== *)
theory Resume
  imports Subscription
begin

section \<open>Resuming a channel across reconnects\<close>

text \<open>
  The account subscription (Subscription.thy) composed with the server it is written
  against, for one channel that stays subscribed while everything else happens: other
  channels come and go, the connection drops at any point, the server publishes, falls
  behind or no longer holds the history a resume asks for. The client's side is the code's
  functions; the server's side is what the documentation of ws.go says of it: it replays
  from since before it acknowledges, or answers out_of_sync and keeps no subscription.
\<close>

subsection \<open>What the caller sees\<close>

text \<open>The events of a history as the caller reads them for one channel: the sequence reached,
  None before the first acknowledgement and after an OutOfSync. An event more than one past
  it, or an acknowledgement anywhere else than at it, is a gap, and the result None.\<close>

definition track_event :: "channel \<Rightarrow> int option \<Rightarrow> sub_event \<Rightarrow> int option option" where
  "track_event ch l ev =
     (case ev of
        Subscribed c j \<Rightarrow> if c \<noteq> ch then Some l else if l = None \<or> l = Some j then Some (Some j) else None
      | ChannelEvent c n _ _ \<Rightarrow>
          if c \<noteq> ch then Some l
          else (case l of None \<Rightarrow> Some (Some n) | Some m \<Rightarrow> if n \<le> m + 1 then Some (Some (max m n)) else None)
      | OutOfSync c _ \<Rightarrow> if c = ch then Some None else Some l
      | _ \<Rightarrow> Some l)"

fun track :: "channel \<Rightarrow> int option \<Rightarrow> sub_event list \<Rightarrow> int option option" where
  "track ch l [] = Some l"
| "track ch l (ev # evs) = Option.bind (track_event ch l ev) (\<lambda>l. track ch l evs)"

lemma track_append: "track ch l (xs @ ys) = Option.bind (track ch l xs) (\<lambda>l. track ch l ys)"
  by (induction xs arbitrary: l) (auto split: bind_split)

lemma track_simps [simp]:
  "track_event ch l (Subscribed ch j) = (if l = None \<or> l = Some j then Some (Some j) else None)"
  "track_event ch None (ChannelEvent ch n e p) = Some (Some n)"
  "track_event ch (Some m) (ChannelEvent ch n e p) = (if n \<le> m + 1 then Some (Some (max m n)) else None)"
  "track_event ch l (OutOfSync ch old) = Some None"
  by (simp_all add: track_event_def)

text \<open>Events of other channels leave it alone.\<close>

fun event_channel :: "sub_event \<Rightarrow> channel option" where
  "event_channel (Subscribed c j) = Some c"
| "event_channel (ChannelEvent c n e p) = Some c"
| "event_channel (OutOfSync c n) = Some c"
| "event_channel _ = None"

lemma track_event_other: "event_channel ev \<noteq> Some ch \<Longrightarrow> track_event ch l ev = Some l"
  by (cases ev) (auto simp: track_event_def)

lemma track_other: "\<forall>ev\<in>set evs. event_channel ev \<noteq> Some ch \<Longrightarrow> track ch l evs = Some l"
  by (induction evs) (auto simp: track_event_other)

text \<open>After an acknowledgement at j with no OutOfSync since, every number up to the one
  reached has been seen.\<close>

lemma track_covers:
  assumes "track ch (Some j) evs = Some (Some l)" "\<forall>old. OutOfSync ch old \<notin> set evs"
  shows "j \<le> l \<and> (\<forall>n. j < n \<and> n \<le> l \<longrightarrow> (\<exists>e p. ChannelEvent ch n e p \<in> set evs))"
  using assms
proof (induction evs arbitrary: j)
  case (Cons ev evs)
  show ?case
  proof (cases "event_channel ev = Some ch")
    case False
    have "j \<le> l \<and> (\<forall>n. j < n \<and> n \<le> l \<longrightarrow> (\<exists>e p. ChannelEvent ch n e p \<in> set evs))"
      using Cons.IH [of j] Cons.prems False by (simp add: track_event_other)
    then show ?thesis by (meson list.set_intros(2))
  next
    case True
    then consider (ack) i where "ev = Subscribed ch i" | (event) n e p where "ev = ChannelEvent ch n e p"
      using Cons.prems(2) by (cases ev) auto
    then show ?thesis
    proof cases
      case ack
      then show ?thesis using Cons.IH [of j] Cons.prems by (auto split: if_splits)
    next
      case (event m)
      then have m: "m \<le> j + 1" "track ch (Some (max j m)) evs = Some (Some l)"
        using Cons.prems(1) by (auto split: if_splits)
      have IH: "max j m \<le> l" "max j m < n \<and> n \<le> l \<longrightarrow> (\<exists>e p. ChannelEvent ch n e p \<in> set evs)" for n
        using Cons.IH [OF m(2)] Cons.prems(2) by auto
      have "\<exists>e p. ChannelEvent ch n e p \<in> set (ev # evs)" if n: "j < n" "n \<le> l" for n
      proof (cases "n = m")
        case True then show ?thesis using event by auto
      next
        case False then show ?thesis using IH(2) [of n] n m(1) by auto
      qed
      then show ?thesis using IH(1) by auto
    qed
  qed
qed simp


text \<open>Without an OutOfSync the number reached is there, and no event is past it.\<close>

lemma track_reaches:
  assumes "track ch (Some j) evs = Some l" "\<forall>old. OutOfSync ch old \<notin> set evs"
  shows "\<exists>k. l = Some k \<and> j \<le> k \<and> (\<forall>n e p. ChannelEvent ch n e p \<in> set evs \<longrightarrow> n \<le> k)"
  using assms
proof (induction evs arbitrary: j)
  case (Cons ev evs)
  obtain i where i: "track_event ch (Some j) ev = Some (Some i)" "j \<le> i" "\<forall>n e p. ev = ChannelEvent ch n e p \<longrightarrow> n \<le> i"
    using Cons.prems by (cases ev) (auto simp: track_event_def split: if_splits)
  have "track ch (Some i) evs = Some l" using Cons.prems(1) i(1) by simp
  then obtain k where "l = Some k" "i \<le> k" "\<forall>n e p. ChannelEvent ch n e p \<in> set evs \<longrightarrow> n \<le> k"
    using Cons.IH [of i] Cons.prems(2) by auto
  then show ?case using i(2,3) by fastforce
qed auto

subsection \<open>The server and the wire\<close>

text \<open>The server's frames for the channel. An out_of_sync may name no market.\<close>

datatype down =
    DEvent int "engine_envelope option" "json option"
  | DAck int
  | DOos bool "int option"

definition blank_frame :: "channel \<Rightarrow> server_frame" where
  "blank_frame ch =
     \<lparr>f_op = [], f_channel = ch_name ch, f_market = (if ch_market ch = [] then None else Some (ch_market ch)),
      f_seq = None, f_seq_at_join = None, f_oldest = None, f_message = [], f_envelope = None, f_payload = None\<rparr>"

fun wire :: "channel \<Rightarrow> down \<Rightarrow> server_frame" where
  "wire ch (DEvent n e p) = (blank_frame ch)\<lparr>f_op := ''event'', f_seq := Some n, f_envelope := e, f_payload := p\<rparr>"
| "wire ch (DAck j) = (blank_frame ch)\<lparr>f_op := ''subscribed'', f_seq_at_join := Some j\<rparr>"
| "wire ch (DOos all old) =
     (if all then (blank_frame ch)\<lparr>f_op := ''out_of_sync'', f_market := None, f_oldest := old\<rparr>
      else (blank_frame ch)\<lparr>f_op := ''out_of_sync'', f_oldest := old\<rparr>)"

text \<open>What a frame will be to the caller, as far as this channel goes.\<close>

fun event_of :: "channel \<Rightarrow> down \<Rightarrow> sub_event" where
  "event_of ch (DEvent n e p) = ChannelEvent ch n e p"
| "event_of ch (DAck j) = Subscribed ch j"
| "event_of ch (DOos all old) = OutOfSync ch (case old of None \<Rightarrow> 0 | Some n \<Rightarrow> n)"

definition mine :: "channel \<Rightarrow> client_frame \<Rightarrow> bool" where
  "mine ch f = (cf_channel f = ch_name ch \<and> cf_market f = ch_market ch)"

record link =
  lk_sub :: subscription
  lk_online :: bool
  lk_up :: "client_frame list"
  lk_down :: "down list"
  lk_head :: int
  lk_feed :: bool
  lk_seen :: "sub_event list"

definition link_start :: "subscription \<Rightarrow> int \<Rightarrow> link" where
  "link_start s h = \<lparr>lk_sub = s, lk_online = False, lk_up = [], lk_down = [], lk_head = h, lk_feed = False, lk_seen = []\<rparr>"

text \<open>A frame that is not about the channel: another channel's, an error, or none the client knows.\<close>

definition foreign :: "channel \<Rightarrow> server_frame \<Rightarrow> bool" where
  "foreign ch f = (if f_op f = ''out_of_sync'' then \<not> names_sub (frame_channel f) ch else frame_channel f \<noteq> ch)"

definition replay :: "(int \<Rightarrow> engine_envelope option \<times> json option) \<Rightarrow> int \<Rightarrow> int \<Rightarrow> down list" where
  "replay g a h = map (\<lambda>n. DEvent n (fst (g n)) (snd (g n))) [a..h]"

inductive link_step :: "channel \<Rightarrow> link \<Rightarrow> link \<Rightarrow> bool" for ch where
  publish:
    "link_step ch L (L\<lparr>lk_head := lk_head L + 1,
       lk_down := lk_down L @ (if lk_feed L then [DEvent (lk_head L + 1) e p] else [])\<rparr>)"
| join:
    "lk_up L = f # up \<Longrightarrow> cf_op f = OpSubscribe \<Longrightarrow> cf_since f = None \<Longrightarrow>
     link_step ch L (L\<lparr>lk_up := up, lk_down := lk_down L @ [DAck (lk_head L)], lk_feed := True\<rparr>)"
| resume:
    "lk_up L = f # up \<Longrightarrow> cf_op f = OpSubscribe \<Longrightarrow> cf_since f = Some c \<Longrightarrow>
     link_step ch L (L\<lparr>lk_up := up, lk_down := lk_down L @ replay g (c + 1) (lk_head L) @ [DAck (lk_head L)], lk_feed := True\<rparr>)"
| refuse:
    "lk_up L = f # up \<Longrightarrow> cf_op f = OpSubscribe \<Longrightarrow> cf_since f = Some c \<Longrightarrow>
     link_step ch L (L\<lparr>lk_up := up, lk_down := lk_down L @ [DOos all old], lk_feed := False\<rparr>)"
| fall_behind:
    "lk_feed L \<Longrightarrow> link_step ch L (L\<lparr>lk_down := lk_down L @ [DOos all old], lk_feed := False\<rparr>)"
| deliver:
    "lk_online L \<Longrightarrow> lk_down L = d # down \<Longrightarrow> key_order (lk_sub L) order \<Longrightarrow>
     sub_handle True order data (wire ch d) (lk_sub L) = (evs, s, fs) \<Longrightarrow>
     link_step ch L (L\<lparr>lk_sub := s, lk_up := lk_up L @ filter (mine ch) fs, lk_down := down, lk_seen := lk_seen L @ evs\<rparr>)"
| other:
    "lk_online L \<Longrightarrow> foreign ch f \<Longrightarrow> key_order (lk_sub L) order \<Longrightarrow>
     sub_handle True order data f (lk_sub L) = (evs, s, fs) \<Longrightarrow>
     link_step ch L (L\<lparr>lk_sub := s, lk_up := lk_up L @ filter (mine ch) fs, lk_seen := lk_seen L @ evs\<rparr>)"
| lose:
    "link_step ch L (L\<lparr>lk_online := False, lk_up := [], lk_down := [], lk_feed := False\<rparr>)"
| connect:
    "\<not> lk_online L \<Longrightarrow> key_order (lk_sub L) order \<Longrightarrow>
     link_step ch L (L\<lparr>lk_online := True, lk_up := filter (mine ch) (sub_hello (lk_sub L) order), lk_down := [], lk_feed := False\<rparr>)"
| subscribe:
    "sub_Subscribe (lk_sub L) False (lk_online L) write_ok c = (r, s, fs) \<Longrightarrow>
     link_step ch L (L\<lparr>lk_sub := s, lk_up := lk_up L @ filter (mine ch) fs\<rparr>)"
| unsubscribe:
    "c \<noteq> ch \<Longrightarrow> sub_Unsubscribe (lk_sub L) False (lk_online L) write_ok c = (r, s, fs) \<Longrightarrow>
     link_step ch L (L\<lparr>lk_sub := s, lk_up := lk_up L @ filter (mine ch) fs\<rparr>)"

inductive linked :: "channel \<Rightarrow> link \<Rightarrow> bool" for ch where
  start: "sub_inv s \<Longrightarrow> ch \<in> set (sb_subs s) \<Longrightarrow> sb_cursors s ch = None \<Longrightarrow> linked ch (link_start s h)"
| step: "linked ch L \<Longrightarrow> link_step ch L L' \<Longrightarrow> linked ch L'"

subsection \<open>The client's steps\<close>

lemma frame_channel_blank [simp]:
  "frame_channel (blank_frame ch) = ch"
  "frame_channel (f\<lparr>f_op := x\<rparr>) = frame_channel f" "frame_channel (f\<lparr>f_seq := y\<rparr>) = frame_channel f"
  "frame_channel (f\<lparr>f_seq_at_join := y\<rparr>) = frame_channel f" "frame_channel (f\<lparr>f_oldest := y\<rparr>) = frame_channel f"
  "frame_channel (f\<lparr>f_envelope := e\<rparr>) = frame_channel f" "frame_channel (f\<lparr>f_payload := p\<rparr>) = frame_channel f"
  by (simp_all add: frame_channel_def blank_frame_def)

lemma mine_fresh [simp]: "mine ch (fresh_frame c) \<longleftrightarrow> c = ch"
  by (cases c; cases ch) (auto simp: mine_def fresh_frame_def)

lemma mine_frame [simp]: "mine ch (sub_frame s x c) \<longleftrightarrow> c = ch"
  by (cases c; cases ch) (auto simp: mine_def sub_frame_def)

text \<open>A delivered frame of the channel: the caller sees its event, the cursor becomes what the
  caller has reached, and an out_of_sync sends one fresh subscribe.\<close>

lemma deliver_wire:
  assumes h: "sub_handle True order data (wire ch d) s = (evs, s', fs)"
    and ch: "channel_validate ch = None" "ch \<in> set (sb_subs s)" "key_order s order" "sub_inv s"
    and t: "track_event ch (sb_cursors s ch) (event_of ch d) = Some l"
  shows "track ch (sb_cursors s ch) evs = Some l \<and> sb_cursors s' ch = l \<and> sb_subs s' = sb_subs s \<and> sub_inv s' \<and>
    filter (mine ch) fs = (case d of DOos all old \<Rightarrow> [fresh_frame ch] | _ \<Rightarrow> [])"
proof -
  have known: "map_of channelNames (ch_name ch) \<noteq> None"
    using ch(1) by (auto simp: channel_validate_def split: option.splits)
  have chan: "f_channel (blank_frame ch) = ch_name ch"
    "(case f_market (blank_frame ch) of None \<Rightarrow> [] | Some m \<Rightarrow> m) = ch_market ch"
    by (simp_all add: blank_frame_def)
  have eta: "\<lparr>ch_name = ch_name ch, ch_market = ch_market ch\<rparr> = ch" by simp
  have adv: "sub_inv (advance s ch n)" for n using ch(4) by (auto simp: sub_inv_def advance_cursor)
  show ?thesis
  proof (cases d)
    case (DEvent n e p)
    then have "evs = [ChannelEvent ch n e p] \<and> s' = advance s ch n \<and> fs = []"
      using h known chan by (simp add: sub_handle_def Let_def eta del: not_None_eq)
    then show ?thesis using DEvent t ch(2) adv
      by (cases "sb_cursors s ch") (auto simp: advance_cursor max.commute split: if_splits)
  next
    case (DAck j)
    then have "evs = [Subscribed ch j] \<and> s' = advance s ch j \<and> fs = []"
      using h known chan by (simp add: sub_handle_def Let_def eta del: not_None_eq)
    then show ?thesis using DAck t ch(2) adv by (auto simp: advance_cursor split: if_splits)
  next
    case (DOos all old)
    let ?f = "wire ch d" and ?old = "case old of None \<Rightarrow> 0 | Some n \<Rightarrow> n"
    let ?c = "frame_channel ?f"
    have "sub_handle True order data ?f s = resync True ?c ?old order s"
      using DOos known by (simp add: sub_handle_def frame_channel_def Let_def blank_frame_def del: not_None_eq)
    then have r: "evs = map (\<lambda>sub. OutOfSync sub ?old) (filter (names_sub ?c) order)"
        "s' = s\<lparr>sb_cursors := (\<lambda>c. if c \<in> set order \<and> names_sub ?c c then None else sb_cursors s c)\<rparr>"
        "fs = map fresh_frame (filter (names_sub ?c) order)"
      using h by (simp_all add: resync_result)
    have n: "names_sub ?c ch" using DOos by (simp add: names_sub_def frame_channel_def blank_frame_def)
    have o: "distinct order" "ch \<in> set order" using ch(2,3) by (auto simp: key_order_def)
    obtain xs ys where ord: "order = xs @ ch # ys" "ch \<notin> set xs" "ch \<notin> set ys"
      using o by (metis split_list distinct_append not_distinct_conv_prefix distinct.simps(2) split_list_first)
    have f: "filter (\<lambda>x. names_sub ?c x \<and> x = ch) zs = []" if "ch \<notin> set zs" for zs
      using that by (induction zs) auto
    have "filter (mine ch) fs = [fresh_frame ch]"
      unfolding r(3) ord(1) by (simp add: filter_map o_def f ord n)
    moreover have "track ch k evs = Some None" for k
    proof -
      have "track ch k (map (\<lambda>sub. OutOfSync sub ?old) (filter (names_sub ?c) zs)) = Some k" if "ch \<notin> set zs" for k zs
        using that by (intro track_other) auto
      then show ?thesis unfolding r(1) ord(1) using ord(2,3) n by (simp add: track_append)
    qed
    ultimately show ?thesis using r(2) DOos t o n ch(4) by (auto simp: sub_inv_def)
  qed
qed

lemma deliver_foreign:
  assumes h: "sub_handle True order data f s = (evs, s', fs)" and f: "foreign ch f" and s: "key_order s order" "sub_inv s"
  shows "track ch k evs = Some k \<and> sb_cursors s' ch = sb_cursors s ch \<and> sb_subs s' = sb_subs s \<and> sub_inv s' \<and>
    filter (mine ch) fs = []"
  using h
proof (cases rule: sub_handle_cases)
  case (quiet ev)
  then have "event_channel ev = None" by auto
  then show ?thesis using quiet s by (simp add: track_event_other)
next
  case (ack n)
  then show ?thesis using f s(2) by (auto simp: foreign_def advance_cursor sub_inv_def track_event_def)
next
  case (event n)
  then show ?thesis using f s(2) by (auto simp: foreign_def advance_cursor sub_inv_def track_event_def)
next
  case (lost n)
  have n: "\<not> names_sub (frame_channel f) ch" using f lost(2) by (simp add: foreign_def)
  have "track ch k evs = Some k" using lost(1) n by (intro track_other) (auto simp: resync_result)
  moreover have "filter (mine ch) fs = []" using lost(1) n by (auto simp: resync_result filter_empty_conv)
  ultimately show ?thesis using lost(1) n s(2) by (auto simp: resync_result sub_inv_def split: if_splits)
qed

subsection \<open>The invariant\<close>

text \<open>e is what the caller will have reached once everything on the wire is delivered.\<close>

fun number :: "down \<Rightarrow> int option" where
  "number (DEvent n e p) = Some n"
| "number (DAck j) = Some j"
| "number (DOos all old) = None"

definition up_ok :: "int option \<Rightarrow> bool \<Rightarrow> int \<Rightarrow> client_frame \<Rightarrow> bool" where
  "up_ok e feed head f =
     (case cf_since f of
        None \<Rightarrow> feed \<or> e = None
      | Some c \<Rightarrow> c \<le> head \<and> (\<forall>m. e = Some m \<longrightarrow> c \<le> m))"

definition link_inv :: "channel \<Rightarrow> int option \<Rightarrow> link \<Rightarrow> bool" where
  "link_inv ch e L =
     (sub_inv (lk_sub L) \<and> ch \<in> set (sb_subs (lk_sub L)) \<and>
      track ch None (lk_seen L) = Some (sb_cursors (lk_sub L) ch) \<and>
      track ch (sb_cursors (lk_sub L) ch) (map (event_of ch) (lk_down L)) = Some e \<and>
      (\<forall>m. e = Some m \<longrightarrow> m \<le> lk_head L) \<and>
      (\<forall>m. sb_cursors (lk_sub L) ch = Some m \<longrightarrow> m \<le> lk_head L) \<and>
      (\<forall>d\<in>set (lk_down L). \<forall>n. number d = Some n \<longrightarrow> n \<le> lk_head L) \<and>
      (lk_feed L \<longrightarrow> e = Some (lk_head L)) \<and>
      (\<not> lk_feed L \<and> e \<noteq> None \<longrightarrow> lk_down L = []) \<and>
      (\<forall>f\<in>set (lk_up L). up_ok e (lk_feed L) (lk_head L) f) \<and>
      (\<not> lk_online L \<longrightarrow> lk_up L = [] \<and> lk_down L = [] \<and> \<not> lk_feed L))"

lemma track_replay:
  assumes "\<forall>m. l = Some m \<longrightarrow> c \<le> m \<and> m \<le> h" "c \<le> h"
  shows "track ch l (map (event_of ch) (replay g (c + 1) h @ [DAck h])) = Some (Some h)"
proof -
  have r: "track ch (Some m) (map (event_of ch) (replay g a h)) = Some (Some (max m h))"
    if "a \<le> m + 1" "m \<le> h" for a m
    using that
  proof (induction "nat (h - a + 1)" arbitrary: a m)
    case 0
    then have "[a..h] = []" "max m h = m" by auto
    then show ?case by (simp add: replay_def)
  next
    case (Suc k)
    then have a: "[a..h] = a # [a + 1..h]" by (simp add: upto.simps)
    have "a \<le> h" using Suc.hyps(2) by auto
    have "track ch (Some (max m a)) (map (event_of ch) (replay g (a + 1) h)) = Some (Some (max (max m a) h))"
      using Suc.hyps(1) [of "a + 1" "max m a"] Suc.hyps(2) Suc.prems \<open>a \<le> h\<close> by simp
    then show ?case using Suc.prems \<open>a \<le> h\<close> a by (simp add: replay_def max_def)
  qed
  show ?thesis
  proof (cases l)
    case (Some m)
    then show ?thesis using r [of "c + 1" m] assms by (simp add: track_append)
  next
    case None
    show ?thesis
    proof (cases "c = h")
      case True then show ?thesis using None by (simp add: replay_def)
    next
      case False
      then have "c < h" using assms(2) by simp
      then have a: "[c + 1..h] = (c + 1) # [c + 1 + 1..h]" by (simp add: upto.simps [of "c + 1"])
      show ?thesis using r [of "c + 1 + 1" "c + 1"] \<open>c < h\<close> None a by (simp add: replay_def track_append del: add.assoc)
    qed
  qed
qed

lemma replay_numbers: "d \<in> set (replay g a h) \<Longrightarrow> number d = Some n \<Longrightarrow> n \<le> h"
  by (auto simp: replay_def)

lemma up_ok_simps [simp]:
  "up_ok None feed h f \<longleftrightarrow> (\<forall>c. cf_since f = Some c \<longrightarrow> c \<le> h)"
  "up_ok e True h f \<longleftrightarrow> (\<forall>c. cf_since f = Some c \<longrightarrow> c \<le> h \<and> (\<forall>m. e = Some m \<longrightarrow> c \<le> m))"
  by (auto simp: up_ok_def split: option.splits)

lemma up_ok_bound: "up_ok e feed h f \<Longrightarrow> cf_since f = Some c \<Longrightarrow> c \<le> h"
  by (simp add: up_ok_def)

lemma link_inv_publish:
  assumes "link_inv ch e L"
  shows "\<exists>e. link_inv ch e (L\<lparr>lk_head := lk_head L + 1,
    lk_down := lk_down L @ (if lk_feed L then [DEvent (lk_head L + 1) x p] else [])\<rparr>)"
proof (cases "lk_feed L")
  case True
  then show ?thesis using assms
    by (intro exI [of _ "Some (lk_head L + 1)"]) (fastforce simp: link_inv_def track_append)
next
  case False
  then show ?thesis using assms by (intro exI [of _ e]) (fastforce simp: link_inv_def up_ok_def split: option.splits)
qed

lemma link_inv_answer:
  assumes inv: "link_inv ch e L" and up: "lk_up L = f # up"
    and ds: "track ch e (map (event_of ch) ds) = Some (if feed then Some (lk_head L) else None)"
      "\<forall>d\<in>set ds. \<forall>n. number d = Some n \<longrightarrow> n \<le> lk_head L"
  shows "link_inv ch (if feed then Some (lk_head L) else None) (L\<lparr>lk_up := up, lk_down := lk_down L @ ds, lk_feed := feed\<rparr>)"
proof -
  have "\<forall>f\<in>set up. up_ok (if feed then Some (lk_head L) else None) feed (lk_head L) f"
    using inv up up_ok_bound by (fastforce simp: link_inv_def)
  moreover have "lk_online L" using inv up by (auto simp: link_inv_def)
  ultimately show ?thesis using inv up ds by (auto simp: link_inv_def track_append)
qed

lemma link_inv_deliver:
  assumes inv: "link_inv ch e L" and ch: "channel_validate ch = None" and on: "lk_online L" "lk_down L = d # down"
    and o: "key_order (lk_sub L) order" and h: "sub_handle True order data (wire ch d) (lk_sub L) = (evs, s, fs)"
  shows "link_inv ch e (L\<lparr>lk_sub := s, lk_up := lk_up L @ filter (mine ch) fs, lk_down := down, lk_seen := lk_seen L @ evs\<rparr>)"
proof -
  let ?l = "sb_cursors (lk_sub L) ch"
  obtain l where t: "track_event ch ?l (event_of ch d) = Some l" "track ch l (map (event_of ch) down) = Some e"
    using inv on(2) by (auto simp: link_inv_def split: bind_splits)
  have s: "track ch ?l evs = Some l" "sb_cursors s ch = l" "sb_subs s = sb_subs (lk_sub L)" "sub_inv s"
      "filter (mine ch) fs = (case d of DOos all old \<Rightarrow> [fresh_frame ch] | _ \<Rightarrow> [])"
    using deliver_wire [OF h ch _ o _ t(1)] inv by (auto simp: link_inv_def)
  have live: "lk_feed L \<or> e = None" using inv on(2) by (auto simp: link_inv_def)
  have "\<forall>m. l = Some m \<longrightarrow> m \<le> lk_head L"
    using inv on(2) t(1) by (cases d; cases ?l) (auto simp: link_inv_def split: if_splits)
  moreover have "\<forall>f\<in>set (filter (mine ch) fs). up_ok e (lk_feed L) (lk_head L) f"
    using live s(5) by (auto simp: up_ok_def fresh_frame_def split: down.splits)
  moreover have "\<not> lk_feed L \<and> e \<noteq> None \<longrightarrow> down = []" using live by auto
  ultimately show ?thesis using inv on s t(2) by (simp add: link_inv_def track_append ball_Un)
qed

lemma link_inv_other:
  assumes inv: "link_inv ch e L" and on: "lk_online L" and f: "foreign ch f"
    and o: "key_order (lk_sub L) order" and h: "sub_handle True order data f (lk_sub L) = (evs, s, fs)"
  shows "link_inv ch e (L\<lparr>lk_sub := s, lk_up := lk_up L @ filter (mine ch) fs, lk_seen := lk_seen L @ evs\<rparr>)"
proof -
  have "sub_inv (lk_sub L)" using inv by (simp add: link_inv_def)
  note d = deliver_foreign [OF h f o this]
  show ?thesis using inv on d by (simp add: link_inv_def track_append)
qed

lemma link_inv_lose:
  assumes "link_inv ch e L"
  shows "link_inv ch (sb_cursors (lk_sub L) ch) (L\<lparr>lk_online := False, lk_up := [], lk_down := [], lk_feed := False\<rparr>)"
  using assms by (simp add: link_inv_def)

text \<open>The subscribe frames a client writes carry its cursor.\<close>

lemma up_ok_own:
  assumes "link_inv ch e L" "sb_cursors s ch = sb_cursors (lk_sub L) ch"
  shows "up_ok e (lk_feed L) (lk_head L) (sub_frame s OpSubscribe ch)"
proof (cases "lk_feed L \<or> e = None")
  case True
  then show ?thesis using assms by (auto simp: up_ok_def sub_frame_def link_inv_def split: option.split)
next
  case False
  then have "lk_down L = []" using assms(1) by (simp add: link_inv_def)
  then have "e = sb_cursors (lk_sub L) ch" using assms(1) by (simp add: link_inv_def)
  then show ?thesis using assms by (auto simp: up_ok_def sub_frame_def link_inv_def split: option.split)
qed

lemma link_inv_connect:
  assumes "link_inv ch e L" "\<not> lk_online L"
  shows "link_inv ch e (L\<lparr>lk_online := True, lk_up := filter (mine ch) (sub_hello (lk_sub L) order), lk_down := [], lk_feed := False\<rparr>)"
proof -
  have "lk_down L = []" "\<not> lk_feed L" using assms by (simp_all add: link_inv_def)
  moreover have "\<forall>f\<in>set (filter (mine ch) (sub_hello (lk_sub L) order)). up_ok e (lk_feed L) (lk_head L) f"
    using up_ok_own [OF assms(1) refl] by (auto simp: sub_hello_def)
  ultimately show ?thesis using assms(1) by (simp add: link_inv_def)
qed

lemma link_inv_subscribe:
  assumes inv: "link_inv ch e L" and s: "sub_Subscribe (lk_sub L) False (lk_online L) write_ok c = (r, s, fs)"
  shows "link_inv ch e (L\<lparr>lk_sub := s, lk_up := lk_up L @ filter (mine ch) fs\<rparr>)"
proof -
  have same: "sb_cursors s = sb_cursors (lk_sub L)" "set (sb_subs (lk_sub L)) \<subseteq> set (sb_subs s)" "sub_inv s"
      "fs = [] \<or> fs = [sub_frame s OpSubscribe c] \<and> lk_online L"
    using s inv by (auto simp: sub_Subscribe_def sub_send_def add_sub_def link_inv_def sub_inv_def Let_def
        split: option.splits if_splits)
  have "\<forall>f\<in>set (filter (mine ch) fs). up_ok e (lk_feed L) (lk_head L) f"
    using same(1,4) up_ok_own [OF inv] by auto
  moreover have "\<not> lk_online L \<longrightarrow> fs = []" using same(4) by auto
  ultimately show ?thesis using inv same(1-3) by (simp add: link_inv_def ball_Un subset_iff)
qed

lemma link_inv_unsubscribe:
  assumes inv: "link_inv ch e L" and c: "c \<noteq> ch"
    and s: "sub_Unsubscribe (lk_sub L) False (lk_online L) write_ok c = (r, s, fs)"
  shows "link_inv ch e (L\<lparr>lk_sub := s, lk_up := lk_up L @ filter (mine ch) fs\<rparr>)"
proof -
  have same: "sb_cursors s ch = sb_cursors (lk_sub L) ch" "ch \<in> set (sb_subs s)" "sub_inv s"
      "filter (mine ch) fs = []"
    using s inv c by (auto simp: sub_Unsubscribe_def sub_send_def drop_sub_def link_inv_def sub_inv_def Let_def
        distinct_removeAll split: if_splits)
  then show ?thesis using inv by (simp add: link_inv_def)
qed

lemma link_inv_step:
  assumes "link_step ch L L'" "link_inv ch e L" "channel_validate ch = None"
  shows "\<exists>e. link_inv ch e L'"
  using assms(1)
proof cases
  case (join f up)
  have "lk_feed L \<or> e = None" using assms(2) join(2,4) by (simp add: link_inv_def up_ok_def)
  then have "track ch e (map (event_of ch) [DAck (lk_head L)]) = Some (Some (lk_head L))"
    using assms(2) by (auto simp: link_inv_def)
  then show ?thesis using link_inv_answer [OF assms(2) join(2), of "[DAck (lk_head L)]" True] join(1) by auto
next
  case (resume f up c g)
  have "up_ok e (lk_feed L) (lk_head L) f" "\<forall>m. e = Some m \<longrightarrow> m \<le> lk_head L"
    using assms(2) resume(2) by (simp_all add: link_inv_def)
  then have "track ch e (map (event_of ch) (replay g (c + 1) (lk_head L) @ [DAck (lk_head L)])) = Some (Some (lk_head L))"
    using resume(4) by (intro track_replay) (simp_all add: up_ok_def)
  then show ?thesis
    using link_inv_answer [OF assms(2) resume(2), of "replay g (c + 1) (lk_head L) @ [DAck (lk_head L)]" True]
      resume(1) replay_numbers by fastforce
next
  case (refuse f up c all old)
  then show ?thesis using link_inv_answer [OF assms(2) refuse(2), of "[DOos all old]" False] by auto
next
  case (fall_behind all old)
  have "link_inv ch None L'" using assms(2) fall_behind unfolding link_inv_def
    by (auto simp: track_append dest: up_ok_bound)
  then show ?thesis ..
next
  case publish then show ?thesis using link_inv_publish [OF assms(2)] by simp
next
  case deliver then show ?thesis using link_inv_deliver [OF assms(2,3)] by blast
next
  case other then show ?thesis using link_inv_other [OF assms(2)] by blast
next
  case lose then show ?thesis using link_inv_lose [OF assms(2)] by blast
next
  case connect then show ?thesis using link_inv_connect [OF assms(2)] by blast
next
  case subscribe then show ?thesis using link_inv_subscribe [OF assms(2)] by blast
next
  case unsubscribe then show ?thesis using link_inv_unsubscribe [OF assms(2)] by blast
qed

lemma linked_inv:
  assumes "linked ch L" "channel_validate ch = None"
  shows "\<exists>e. link_inv ch e L"
  using assms(1)
proof induction
  case (start s h)
  then have "link_inv ch None (link_start s h)" by (simp add: link_inv_def link_start_def)
  then show ?case ..
next
  case (step L L')
  then show ?case using link_inv_step assms(2) by blast
qed


definition fills_link :: "link" where
  "fills_link = link_start (add_sub ChannelFills empty_subscription) 3"

lemma linked_deliver:
  assumes "linked ch L" "lk_online L" "lk_down L = d # down" "key_order (lk_sub L) order"
    and "sub_handle True order data (wire ch d) (lk_sub L) = (evs, s, fs)"
  shows "linked ch (L\<lparr>lk_sub := s, lk_up := lk_up L @ filter (mine ch) fs, lk_down := down, lk_seen := lk_seen L @ evs\<rparr>)"
  using assms by (blast intro: linked.step link_step.deliver)


text \<open>
  The order the server answers in matters: were it to acknowledge a resume before the
  replay, the client would take the acknowledgement for the events it has not seen, and a
  connection lost in between would resume after them.
\<close>

lemma ack_before_replay_loses:
  assumes "channel_validate ch = None" "ch \<in> set (sb_subs s)" "sb_cursors s ch = Some k" "k < j"
    and "sub_handle True order data (wire ch (DAck j)) s = (evs, s', fs)"
  shows "cf_since (sub_frame s' OpSubscribe ch) = Some j \<and> evs = [Subscribed ch j]"
proof -
  have "sub_handle True order data (wire ch (DAck j)) s = ([Subscribed ch j], advance s ch j, [])"
    using assms(1) by (cases ch) (auto simp: sub_handle_def blank_frame_def channel_validate_def Let_def split: option.splits)
  then have "evs = [Subscribed ch j]" "s' = advance s ch j" using assms(5) by simp_all
  then show ?thesis using assms(2-4) by (simp add: sub_frame_def advance_cursor)
qed

end
