(* ===== verification/Stream.thy ===== *)
theory Stream
  imports Models Subscription
begin

section \<open>The public market-data stream (stream.go)\<close>

text \<open>
  The channels, the one message the client writes on each connection, the decoding of the
  server's frames and Next. The time a frame arrives is an argument.
\<close>

definition marketDataPath :: string where
  "marketDataPath = ''/stream''"

record stream_channel =
  st_kind :: string
  st_market :: string

definition StreamBook :: "string \<Rightarrow> stream_channel" where
  "StreamBook m = \<lparr>st_kind = ''book'', st_market = m\<rparr>"

definition StreamTrades :: "string \<Rightarrow> stream_channel" where
  "StreamTrades m = \<lparr>st_kind = ''trades'', st_market = m\<rparr>"

definition StreamMarketStatus :: "string \<Rightarrow> stream_channel" where
  "StreamMarketStatus m = \<lparr>st_kind = ''market_status'', st_market = m\<rparr>"

definition stream_String :: "stream_channel \<Rightarrow> string" where
  "stream_String c = st_kind c @ '':'' @ st_market c"

subsection \<open>The subscription message\<close>

fun stream_names :: "stream_channel list \<Rightarrow> stream_channel list \<Rightarrow> string list \<Rightarrow> go_error + string list" where
  "stream_names seen [] names = Inr names"
| "stream_names seen (ch # chs) names =
     (if st_kind ch = [] then Inl (EInvalid ''zero StreamChannel'')
      else if st_market ch = [] \<or> contains_space (st_market ch) then Inl (EInvalid ''invalid /stream market'')
      else if ch \<in> set seen then stream_names seen chs names
      else stream_names (ch # seen) chs (names @ [stream_String ch]))"

definition streamSubscribe :: "stream_channel list \<Rightarrow> go_error + json" where
  "streamSubscribe channels =
     (if channels = [] then Inl (EInvalid ''MarketStream needs at least one channel'')
      else bind_res (stream_names [] channels [])
             (\<lambda>names. Inr (JObj [(''subscribe'', JArr (map JStr names))])))"

text \<open>\<open>Client.MarketStream\<close> before any network I/O: the message every connection is greeted
  with, and the URL it is dialled at.\<close>

definition MarketStream_open :: "'s transport \<Rightarrow> stream_channel list \<Rightarrow> go_error + (json \<times> string)" where
  "MarketStream_open t channels =
     (case streamSubscribe channels of
        Inl e \<Rightarrow> Inl e
      | Inr msg \<Rightarrow> (case t_refuse t of Some e \<Rightarrow> Inl e | None \<Rightarrow> Inr (msg, WSURL t marketDataPath)))"

subsection \<open>Frames\<close>

definition BookLevel_t :: go_type where
  "BookLevel_t = TStruct [(''price'', False, TDecimal), (''quantity'', False, TDecimal), (''order_count'', False, TUint32)]"

definition book_t :: go_type where
  "book_t = TStruct [(''Bids'', False, TSlice BookLevel_t), (''Asks'', False, TSlice BookLevel_t), (''Sequence'', False, TUint64)]"

definition stream_frame_t :: go_type where
  "stream_frame_t = TStruct [
     (''type'', False, TString), (''market_id'', False, TString), (''Book'', False, TPtr book_t),
     (''Trade'', False, TPtr Trade_t), (''Reason'', False, TString), (''Timestamp'', False, TInt64),
     (''Missed'', False, TUint64), (''Code'', False, TString), (''Message'', False, TString)]"

text \<open>The events, the levels of a book and a trade as decoded values.\<close>

datatype stream_event =
    BookSnapshot string go_val go_val int int
  | TradePrint string go_val
  | MarketHalted string string int
  | MarketResumed string int
  | StreamGap int
  | StreamUnrecognized string "json_error option"

datatype stream_error = StreamRefused string string

record stream_frame =
  sf_Type :: string
  sf_MarketID :: string
  sf_Book :: "(go_val \<times> go_val \<times> int) option"
  sf_Trade :: "go_val option"
  sf_Reason :: string
  sf_Timestamp :: int
  sf_Missed :: int
  sf_Code :: string
  sf_Message :: string

text \<open>The decoded struct as a record; None on a value of another shape, which the decoder does
  not produce.\<close>

fun as_string :: "go_val \<Rightarrow> string" where
  "as_string (VString s) = s"
| "as_string _ = []"

fun as_int :: "go_val \<Rightarrow> int" where
  "as_int (VInt n) = n"
| "as_int _ = 0"

definition book_of :: "go_val \<Rightarrow> (go_val \<times> go_val \<times> int) option" where
  "book_of b = (case b of VPtr (VStruct [bids, asks, q]) \<Rightarrow> Some (bids, asks, as_int q) | _ \<Rightarrow> None)"

definition stream_frame_of :: "go_val \<Rightarrow> stream_frame option" where
  "stream_frame_of v =
     (case v of
        VStruct [ty, m, b, t, r, ts, n, c, msg] \<Rightarrow>
          Some \<lparr>sf_Type = as_string ty, sf_MarketID = as_string m, sf_Book = book_of b,
                sf_Trade = (case t of VPtr v \<Rightarrow> Some v | _ \<Rightarrow> None), sf_Reason = as_string r,
                sf_Timestamp = as_int ts, sf_Missed = as_int n, sf_Code = as_string c, sf_Message = as_string msg\<rparr>
      | _ \<Rightarrow> None)"

definition stream_event_of :: "string \<Rightarrow> int \<Rightarrow> stream_frame \<Rightarrow> stream_error + stream_event" where
  "stream_event_of data now f =
     (let other = Inr (StreamUnrecognized data None) in
      if sf_Type f = ''BookUpdate''
      then (case sf_Book f of
              Some (bids, asks, q) \<Rightarrow> Inr (BookSnapshot (sf_MarketID f) bids asks q now)
            | None \<Rightarrow> other)
      else if sf_Type f = ''Trade''
      then (case sf_Trade f of Some t \<Rightarrow> Inr (TradePrint (sf_MarketID f) t) | None \<Rightarrow> other)
      else if sf_Type f = ''MarketHalted'' then Inr (MarketHalted (sf_MarketID f) (sf_Reason f) (sf_Timestamp f))
      else if sf_Type f = ''MarketResumed'' then Inr (MarketResumed (sf_MarketID f) (sf_Timestamp f))
      else if sf_Type f = ''gap'' then Inr (StreamGap (sf_Missed f))
      else if sf_Type f = ''error'' then Inl (StreamRefused (sf_Code f) (sf_Message f))
      else other)"

definition decodeStream :: "nullable_lib \<Rightarrow> string \<Rightarrow> int \<Rightarrow> stream_error + stream_event" where
  "decodeStream N data now =
     (case UnmarshalNumbers (decode N stream_frame_t) data of
        Inl e \<Rightarrow> Inr (StreamUnrecognized data (Some e))
      | Inr v \<Rightarrow>
          (case stream_frame_of v of
             None \<Rightarrow> Inr (StreamUnrecognized data None)
           | Some f \<Rightarrow> stream_event_of data now f))"


text \<open>\<open>Next\<close>: what a read of the socket becomes, and whether the stream is closed on it.\<close>

datatype stream_read = StData string int | StSocket outcome

datatype stream_result = StEvent stream_event | StOutcome outcome | StError stream_error

definition stream_Next :: "nullable_lib \<Rightarrow> stream_read \<Rightarrow> stream_result \<times> bool" where
  "stream_Next N r =
     (case r of
        StSocket out \<Rightarrow> (StOutcome out, False)
      | StData data now \<Rightarrow>
          (case decodeStream N data now of
             Inl e \<Rightarrow> (StError e, True)
           | Inr ev \<Rightarrow> (StEvent ev, False)))"

subsection \<open>Properties\<close>

lemma stream_String_inj:
  assumes "c \<in> {StreamBook m, StreamTrades m, StreamMarketStatus m}" "d \<in> {StreamBook n, StreamTrades n, StreamMarketStatus n}"
    and "stream_String c = stream_String d"
  shows "c = d"
  using assms by (auto simp: stream_String_def StreamBook_def StreamTrades_def StreamMarketStatus_def)

lemma ascii_append: "ascii (s @ t) \<longleftrightarrow> ascii s \<and> ascii t"
  by (simp add: ascii_def)

lemma remdups_snoc: "remdups (xs @ [c]) = filter (\<lambda>d. d \<noteq> c) (remdups xs) @ [c]"
  by (induction xs) auto

definition bad_channel :: "stream_channel \<Rightarrow> bool" where
  "bad_channel c = (st_kind c = [] \<or> st_market c = [] \<or> contains_space (st_market c))"

text \<open>The first occurrence of each channel, in order.\<close>

definition firsts :: "'a list \<Rightarrow> 'a list" where
  "firsts xs = rev (remdups (rev xs))"

lemma firsts_simps [simp]: "firsts [] = []" "firsts (c # cs) = c # filter (\<lambda>d. d \<noteq> c) (firsts cs)"
  by (simp_all add: firsts_def remdups_snoc rev_filter)

lemma stream_names_result:
  "if list_ex bad_channel chs then \<exists>e. stream_names seen chs names = Inl (EInvalid e)
   else stream_names seen chs names = Inr (names @ map stream_String (filter (\<lambda>c. c \<notin> set seen) (firsts chs)))"
proof (induction chs arbitrary: seen names)
  case (Cons c chs)
  show ?case
  proof (cases "bad_channel c \<or> c \<in> set seen")
    case True
    then show ?thesis using Cons [of seen names] by (auto simp: bad_channel_def conj_commute intro!: arg_cong [where f = "map _"] filter_cong)
  next
    case False
    have "filter (\<lambda>d. d \<notin> set seen) (firsts (c # chs)) = c # filter (\<lambda>d. d \<notin> set (c # seen)) (firsts chs)"
      using False by (auto simp: conj_commute)
    then show ?thesis using False Cons [of "c # seen" "names @ [stream_String c]"] by (simp add: bad_channel_def)
  qed
qed simp

lemma ascii_stream_String:
  assumes "c \<in> {StreamBook m, StreamTrades m, StreamMarketStatus m}" "ascii m"
  shows "ascii (stream_String c)"
proof -
  have "ascii (st_kind c)" "st_market c = m" "ascii '':''"
    using assms(1) by (auto simp: StreamBook_def StreamTrades_def StreamMarketStatus_def ascii_def)
  then show ?thesis using assms(2) unfolding stream_String_def by (simp only: ascii_append)
qed



text \<open>The decoder gives a frame of the shape the record reads, whatever Nullable does; and a
  stream is closed by a frame exactly when it is the server's refusal. Any other frame the SDK does
  not know is handed over with its very bytes.\<close>

lemma frame_shape: "decode N stream_frame_t j = Inr v \<Longrightarrow> \<exists>f. stream_frame_of v = Some f"
  by (auto simp: stream_frame_t_def stream_frame_of_def map_err_def split: sum.splits)

lemma stream_Next_closes:
  "snd (stream_Next N r) \<longleftrightarrow> (\<exists>code msg. fst (stream_Next N r) = StError (StreamRefused code msg))"
  by (auto simp: stream_Next_def split: stream_read.split sum.split stream_error.split) (metis stream_error.exhaust)

lemma stream_unknown_kept:
  assumes "stream_event_of data now f = Inr ev"
    "sf_Type f \<notin> {''BookUpdate'', ''Trade'', ''MarketHalted'', ''MarketResumed'', ''gap''}"
  shows "ev = StreamUnrecognized data None"
  using assms by (auto simp: stream_event_of_def Let_def split: if_splits)

end
