(* ===== verification/Client.thy ===== *)
theory Client
  imports Rest
begin

section \<open>The client and its credentials (network.go, client.go, auth.go, session.go, wallet.go, agents.go, admin.go)\<close>

text \<open>
  A client is two transports to one network, one that signs with the client's credential and
  one, pub, that never does, and the credential. Both send through the same http.Client, so
  through the same environment and log; each paces itself on its own budgets. What the
  credential changes while the client lives (the bearer's session, the agent's nonce, the
  account an API key turned out to belong to) and the budgets of pub are the state
  \<open>client_state\<close> the world carries.

  Go installs a signer that points back at the client; here the client keeps the credential
  and \<open>client_transport\<close> puts its signer in place, so the signer sees the finished client.
  The client's clock is the environment's (the clock field exists for tests), its http.Client
  is the environment. A nil pointer is None, and a dereference of one is \<open>EPanic\<close>.
\<close>

subsection \<open>Networks (network.go)\<close>

definition Mainnet :: int where "Mainnet = 1"
definition Testnet :: int where "Testnet = 2"
definition Local :: int where "Local = 3"

definition edgePrefix :: string where
  "edgePrefix = ''/v1''"

definition restBases :: "int \<Rightarrow> string option" where
  "restBases n =
     (if n = Mainnet then Some (''https://api.nexus.xyz'' @ edgePrefix)
      else if n = Testnet then Some (''https://api.testnet.nexus.xyz'' @ edgePrefix)
      else if n = Local then Some ''http://localhost:9090''
      else None)"

definition Network_String :: "int \<Rightarrow> string" where
  "Network_String n =
     (if n = Mainnet then ''mainnet''
      else if n = Testnet then ''testnet''
      else if n = Local then ''local''
      else ''Network('' @ show_int n @ '')'')"

text \<open>\<open>APIVersion\<close> of the embedded file's text.\<close>

definition APIVersion :: "string \<Rightarrow> string" where
  "APIVersion file = trim_space file"

subsection \<open>Keys and secrets (wallet.go, auth.go)\<close>

record 'k private_key =
  pk_key :: 'k
  pk_addr :: string

definition newPrivateKey :: "'k eth_lib \<Rightarrow> 'k \<Rightarrow> 'k private_key" where
  "newPrivateKey E k = \<lparr>pk_key = k, pk_addr = Address E k\<rparr>"

definition NewPrivateKey :: "'k eth_lib \<Rightarrow> string \<Rightarrow> 'k private_key option" where
  "NewPrivateKey E s = map_option (newPrivateKey E) (ParseKey E s)"

text \<open>\<open>GeneratePrivateKey\<close>: drawn is what crypto.GenerateKey returned, None its error.\<close>

definition GeneratePrivateKey :: "'k eth_lib \<Rightarrow> 'k option \<Rightarrow> 'k private_key option" where
  "GeneratePrivateKey E drawn = map_option (newPrivateKey E) drawn"

definition pk_Hex :: "'k eth_lib \<Rightarrow> 'k private_key \<Rightarrow> string" where
  "pk_Hex E k = ''0x'' @ hex_encode (el_from_ecdsa E (pk_key k))"

definition pk_String :: "'k private_key \<Rightarrow> string" where
  "pk_String k = ''nexus.PrivateKey('' @ pk_addr k @ '')''"

definition pk_MarshalJSON :: "'k private_key \<Rightarrow> string" where
  "pk_MarshalJSON k = CHR 0x22 # pk_String k @ [CHR 0x22]"

definition redacted :: string where
  "redacted = ''nexus.APISecret(REDACTED)''"

text \<open>An APISecret is its bytes; the zero value, with no key, is None.\<close>

type_synonym api_secret = "string option"

definition NewAPISecret :: "string \<Rightarrow> go_error + api_secret" where
  "NewAPISecret secretHex =
     (case hex_decode (trim_prefix secretHex ''0x'') of
        None \<Rightarrow> Inl (EInvalid ''nexus: API secret is not hex; pass the secret exactly as issued'')
      | Some b \<Rightarrow>
          if length b \<noteq> 32
          then Inl (EInvalid (''nexus: API secret decodes to '' @ show_nat (length b) @ '' bytes, want 32''))
          else Inr (Some b))"

definition APISecret_String :: "api_secret \<Rightarrow> string" where
  "APISecret_String s = redacted"

definition APISecret_MarshalJSON :: "api_secret \<Rightarrow> string" where
  "APISecret_MarshalJSON s = CHR 0x22 # redacted @ [CHR 0x22]"

subsection \<open>Sessions (session.go)\<close>

record session =
  s_token :: string
  s_address :: string
  s_expiresAt :: int

definition Session_String :: "session \<Rightarrow> string" where
  "Session_String s = ''nexus.Session('' @ s_address s @ '')''"

definition Session_MarshalJSON :: "session \<Rightarrow> string" where
  "Session_MarshalJSON s = CHR 0x22 # Session_String s @ [CHR 0x22]"

definition signInMessage :: string where
  "signInMessage = ''Sign in to Nexus Exchange''"

definition sessionTTL :: int where
  "sessionTTL = 24 * hour"

definition sessionMargin :: int where
  "sessionMargin = minute"

record 'k client_state =
  cs_session :: "session option"
  cs_agent :: "'k agent option"
  cs_owner :: string
  cs_pub :: limiter

type_synonym 'k client_world = "'k client_state world"

text \<open>A call through pub uses pub's budgets; everything else of the world is shared.\<close>

definition swap_limits :: "'k client_world \<Rightarrow> 'k client_world" where
  "swap_limits w = w\<lparr>w_limits := cs_pub (w_sig w), w_sig := (w_sig w)\<lparr>cs_pub := w_limits w\<rparr>\<rparr>"

definition pub_Send ::
  "env \<Rightarrow> 'k client_state transport \<Rightarrow> 'k client_world \<Rightarrow> headers \<Rightarrow> string \<Rightarrow> string \<Rightarrow> json option option
     \<Rightarrow> (json \<Rightarrow> json_error + 'a) option \<Rightarrow> (go_error + 'a option) \<times> 'k client_world" where
  "pub_Send V pub w extra m path body out =
     (case Send V pub (swap_limits w) extra m path body out of (r, w) \<Rightarrow> (r, swap_limits w))"

definition login_call :: "nullable_lib \<Rightarrow> string \<Rightarrow> json option option" where
  "login_call N sig =
     Some (encode N LoginRequest_t (VStruct [VString signInMessage, VString (''0x'' @ hex_encode sig)]))"

text \<open>The session in a login response: a token that is not empty, and an address.\<close>

definition read_session :: "int \<Rightarrow> go_val option \<Rightarrow> go_error + session" where
  "read_session start out =
     (case out of
        Some (VStruct [VPtr (VString address), VPtr (VString token)]) \<Rightarrow>
          if token = [] then Inl (EInvalid ''nexus: POST /auth/login returned no token'')
          else Inr \<lparr>s_token = token, s_address = address, s_expiresAt = start + sessionTTL\<rparr>
      | _ \<Rightarrow> Inl (EInvalid ''nexus: POST /auth/login returned no token''))"

definition Login ::
  "'k eth_lib \<Rightarrow> nullable_lib \<Rightarrow> env \<Rightarrow> 'k client_state transport \<Rightarrow> 'k private_key option \<Rightarrow> 'k client_world
     \<Rightarrow> (go_error + session) \<times> 'k client_world" where
  "Login E N V pub wallet w =
     (case wallet of
        None \<Rightarrow> (Inl (EInvalid ''nexus: Login needs a wallet key''), w)
      | Some k \<Rightarrow>
          (case read_clock V w of
             (began, w) \<Rightarrow>
               (case SignHash E (pk_key k) (PersonalHash E signInMessage) of
                  None \<Rightarrow> (Inl EPanic, w)
                | Some sig \<Rightarrow>
                    (case pub_Send V pub w [] ''POST'' ''/auth/login'' (login_call N sig) (Some (decode N LoginResponse_t)) of
                       (Inl e, w) \<Rightarrow> (Inl e, w)
                     | (Inr out, w) \<Rightarrow> (read_session began out, w)))))"

text \<open>
  The bearer signer. Its lock is held from the check to the end of a sign-in, so this is one
  atomic step. signIn is None for a client built from a session.
\<close>

definition bearer_renew ::
  "('k client_world \<Rightarrow> (go_error + session) \<times> 'k client_world) option \<Rightarrow> 'k client_world
     \<Rightarrow> (go_error + session) \<times> 'k client_world" where
  "bearer_renew signIn w =
     (case signIn of
        None \<Rightarrow> (Inl (if cs_session (w_sig w) = None then EPanic else ESessionExpired), w)
      | Some f \<Rightarrow>
          (case f w of
             (Inl e, w) \<Rightarrow> (Inl (ERefresh e), w)
           | (Inr s, w) \<Rightarrow> (Inr s, w\<lparr>w_sig := (w_sig w)\<lparr>cs_session := Some s\<rparr>\<rparr>)))"

definition bearer_current ::
  "env \<Rightarrow> ('k client_world \<Rightarrow> (go_error + session) \<times> 'k client_world) option \<Rightarrow> 'k client_world
     \<Rightarrow> (go_error + session) \<times> 'k client_world" where
  "bearer_current V signIn w =
     (case cs_session (w_sig w) of
        None \<Rightarrow> bearer_renew signIn w
      | Some s \<Rightarrow>
          (case read_clock V w of
             (now, w) \<Rightarrow> if now + sessionMargin < s_expiresAt s then (Inr s, w) else bearer_renew signIn w))"

definition bearer_signer ::
  "(env \<Rightarrow> 'k client_world \<Rightarrow> (go_error + session) \<times> 'k client_world) option \<Rightarrow> 'k client_state signer" where
  "bearer_signer signIn =
     \<lparr>sg_sign = (\<lambda>V w h m p q b.
        case bearer_current V (map_option (\<lambda>f. f V) signIn) w of
          (Inl e, w) \<Rightarrow> (Inl e, w)
        | (Inr s, w) \<Rightarrow> (Inr (hset h ''Authorization'' (''Bearer '' @ s_token s)), w)),
      sg_clock = None\<rparr>"

text \<open>\<open>adminBearer\<close> of admin.go.\<close>

definition admin_signer :: "string \<Rightarrow> 'k client_state signer" where
  "admin_signer secret =
     \<lparr>sg_sign = (\<lambda>V w h m p q b. (Inr (hset h ''Authorization'' (''Bearer '' @ secret)), w)), sg_clock = None\<rparr>"

subsection \<open>Agents (agents.go)\<close>

record 'k Agent =
  ag_key :: "'k private_key"
  ag_owner :: string
  ag_expiresAt :: int
  ag_signer :: "'k agent"

definition NewAgent :: "'k eth_lib \<Rightarrow> 'k private_key option \<Rightarrow> string \<Rightarrow> go_error + 'k Agent" where
  "NewAgent E key owner =
     (case key of
        None \<Rightarrow> Inl (EInvalid ''nexus: NewAgent needs the agent key'')
      | Some k \<Rightarrow>
          (case ParseAddress owner of
             None \<Rightarrow> Inl (EInvalid ''nexus: address must be 0x followed by 40 hex digits'')
           | Some _ \<Rightarrow>
               Inr \<lparr>ag_key = k, ag_owner = to_lower owner, ag_expiresAt = zero_time,
                    ag_signer = NewSigningAgent E (pk_key k)\<rparr>))"

text \<open>The agent signer on the agent the client's state holds.\<close>

definition with_sig :: "'a \<Rightarrow> 'b world \<Rightarrow> 'a world" where
  "with_sig s w =
     \<lparr>w_tick = w_tick w, w_log = w_log w, w_slept = w_slept w, w_limits = w_limits w, w_sig = s\<rparr>"

definition held_agent_signer :: "'k eth_lib \<Rightarrow> 'k client_state signer" where
  "held_agent_signer E =
     \<lparr>sg_sign = (\<lambda>V w h m p q b.
        case cs_agent (w_sig w) of
          None \<Rightarrow> (Inl EPanic, w)
        | Some a \<Rightarrow>
            (case sg_sign (agent_signer E) V (with_sig a w) h m p q b of
               (r, u) \<Rightarrow> (r, with_sig ((w_sig w)\<lparr>cs_agent := Some (w_sig u)\<rparr>) u))),
      sg_clock = Some read_clock\<rparr>"

subsection \<open>The client (client.go)\<close>

datatype 'k credential =
    HMACKey hmac_key
  | SessionCred session
  | WalletCred "'k private_key"
  | AgentCred "'k Agent"
  | AdminCred string

record 'k client =
  c_t :: "'k client_state transport"
  c_pub :: "'k client_state transport"
  c_network :: int
  c_cred :: "'k credential option"
  c_pingEvery :: int
  c_pingWait :: int

record 'k config =
  cfg_creds :: "('k client \<Rightarrow> go_error + 'k client) list"
  cfg_pingEvery :: int
  cfg_pingWait :: int

type_synonym 'k client_option = "'k config \<Rightarrow> 'k config"

definition add_cred :: "('k client \<Rightarrow> go_error + 'k client) \<Rightarrow> 'k client_option" where
  "add_cred install cfg = cfg\<lparr>cfg_creds := cfg_creds cfg @ [install]\<rparr>"

definition WithKeepalive :: "int \<Rightarrow> int \<Rightarrow> 'k client_option" where
  "WithKeepalive interval timeout cfg =
     (let timeout = (if timeout \<le> 0 then interval else timeout)
      in cfg\<lparr>cfg_pingEvery := max interval 0, cfg_pingWait := timeout\<rparr>)"

definition WithHMACAuth :: "string \<Rightarrow> api_secret \<Rightarrow> 'k client_option" where
  "WithHMACAuth keyID secret =
     add_cred (\<lambda>c.
       case secret of
         None \<Rightarrow> Inl (EInvalid ''nexus: WithHMACAuth needs a key id and a secret from NewAPISecret'')
       | Some b \<Rightarrow>
           if keyID = [] then Inl (EInvalid ''nexus: WithHMACAuth needs a key id and a secret from NewAPISecret'')
           else Inr (c\<lparr>c_cred := Some (HMACKey \<lparr>KeyID = keyID, Secret = b\<rparr>)\<rparr>))"

definition WithSession :: "session option \<Rightarrow> 'k client_option" where
  "WithSession s =
     add_cred (\<lambda>c.
       case s of
         None \<Rightarrow> Inl (EInvalid ''nexus: WithSession needs a session from Client.Login'')
       | Some s \<Rightarrow> Inr (c\<lparr>c_cred := Some (SessionCred s)\<rparr>))"

definition WithWallet :: "'k private_key option \<Rightarrow> 'k client_option" where
  "WithWallet wallet =
     add_cred (\<lambda>c.
       case wallet of
         None \<Rightarrow> Inl (EInvalid ''nexus: WithWallet needs a key from NewPrivateKey'')
       | Some k \<Rightarrow> Inr (c\<lparr>c_cred := Some (WalletCred k)\<rparr>))"

definition WithAgent :: "'k Agent option \<Rightarrow> 'k client_option" where
  "WithAgent a =
     add_cred (\<lambda>c.
       case a of
         None \<Rightarrow> Inl (EInvalid ''nexus: WithAgent needs an agent from RegisterAgent or NewAgent'')
       | Some a \<Rightarrow> Inr (c\<lparr>c_cred := Some (AgentCred a)\<rparr>))"

definition WithAdminSecret :: "string \<Rightarrow> 'k client_option" where
  "WithAdminSecret secret =
     add_cred (\<lambda>c.
       if secret = [] then Inl (EInvalid ''nexus: WithAdminSecret needs the admin secret'')
       else Inr (c\<lparr>c_cred := Some (AdminCred secret)\<rparr>))"

definition defaultPingEvery :: int where "defaultPingEvery = 15 * second"
definition defaultPingWait :: int where "defaultPingWait = 15 * second"

fun install_all :: "('k client \<Rightarrow> go_error + 'k client) list \<Rightarrow> 'k client \<Rightarrow> go_error + 'k client" where
  "install_all [] c = Inr c"
| "install_all (f # fs) c = (case f c of Inl e \<Rightarrow> Inl e | Inr c \<Rightarrow> install_all fs c)"

text \<open>The text of the version file, the build information and the obsolete date formats are the
  three last arguments of \<open>transport.New\<close>.\<close>

definition NewClient ::
  "string \<Rightarrow> (string \<times> string) list \<Rightarrow> (string \<Rightarrow> int option) \<Rightarrow> int \<Rightarrow> 'k client_option list
     \<Rightarrow> go_error + 'k client" where
  "NewClient file mods obsolete network opts =
     (case restBases network of
        None \<Rightarrow>
          Inl (EInvalid (''nexus: network '' @ Network_String network @
            '' is not set; choose Mainnet, Testnet or Local explicitly''))
      | Some b \<Rightarrow>
          (let cfg = fold (\<lambda>opt. opt) opts
                 \<lparr>cfg_creds = [], cfg_pingEvery = defaultPingEvery, cfg_pingWait = defaultPingWait\<rparr>
           in if length (cfg_creds cfg) > 1 then
                Inl (EInvalid ''nexus: choose one credential: WithHMACAuth, WithSession, WithWallet, WithAgent or WithAdminSecret'')
              else
                (case install_all (cfg_creds cfg)
                        \<lparr>c_t = New b (APIVersion file) mods obsolete, c_pub = New b (APIVersion file) mods obsolete,
                         c_network = network, c_cred = None,
                         c_pingEvery = cfg_pingEvery cfg, c_pingWait = cfg_pingWait cfg\<rparr> of
                   Inl e \<Rightarrow> Inl e
                 | Inr c \<Rightarrow>
                     if network = Mainnet
                     then Inr (c\<lparr>c_t := (c_t c)\<lparr>t_refuse := Some EMainnet\<rparr>, c_pub := (c_pub c)\<lparr>t_refuse := Some EMainnet\<rparr>\<rparr>)
                     else Inr c)))"

text \<open>The credential's signer, and the state it starts in.\<close>

definition cred_signer :: "'k eth_lib \<Rightarrow> nullable_lib \<Rightarrow> 'k client_state transport \<Rightarrow> 'k credential \<Rightarrow> 'k client_state signer" where
  "cred_signer E N pub cr =
     (case cr of
        HMACKey K \<Rightarrow> hmac_signer K
      | SessionCred s \<Rightarrow> bearer_signer None
      | WalletCred k \<Rightarrow> bearer_signer (Some (\<lambda>V. Login E N V pub (Some k)))
      | AgentCred a \<Rightarrow> held_agent_signer E
      | AdminCred s \<Rightarrow> admin_signer s)"

definition client_transport :: "'k eth_lib \<Rightarrow> nullable_lib \<Rightarrow> 'k client \<Rightarrow> 'k client_state transport" where
  "client_transport E N c = (c_t c)\<lparr>t_signer := map_option (cred_signer E N (c_pub c)) (c_cred c)\<rparr>"

definition start_state :: "'k client \<Rightarrow> 'k client_state" where
  "start_state c =
     \<lparr>cs_session = (case c_cred c of Some (SessionCred s) \<Rightarrow> Some s | _ \<Rightarrow> None),
      cs_agent = (case c_cred c of Some (AgentCred a) \<Rightarrow> Some (ag_signer a) | _ \<Rightarrow> None),
      cs_owner = [], cs_pub = new_limiter\<rparr>"

subsection \<open>Which account (client.go, auth.go)\<close>

definition deposit_target :: "nullable_lib \<Rightarrow> env \<Rightarrow> 's transport \<Rightarrow> 's world \<Rightarrow> (go_error + go_val option) \<times> 's world" where
  "deposit_target N V t w =
     Get V t w ''/account/deposit-target'' [] (Some (decode N (TStruct [(''account'', False, TString)])))"

definition read_owner :: "go_val option \<Rightarrow> string" where
  "read_owner out = (case out of Some (VStruct [VString a]) \<Rightarrow> a | _ \<Rightarrow> [])"

definition ownerFromServer ::
  "nullable_lib \<Rightarrow> env \<Rightarrow> 'k client_state transport \<Rightarrow> 'k client_world \<Rightarrow> (go_error + string) \<times> 'k client_world" where
  "ownerFromServer N V t w =
     (if cs_owner (w_sig w) \<noteq> [] then (Inr (cs_owner (w_sig w)), w)
      else
        (case deposit_target N V t w of
           (Inl err, w) \<Rightarrow>
             (case as_api err of
                Some e \<Rightarrow>
                  if StatusCode e = 403 \<or> StatusCode e = 503 then (Inl (EAccountUnresolved (Some e)), w) else (Inl err, w)
              | None \<Rightarrow> (Inl err, w))
         | (Inr out, w) \<Rightarrow>
             (case ParseAddress (read_owner out) of
                None \<Rightarrow> (Inl (EAccountUnresolved None), w)
              | Some _ \<Rightarrow>
                  (Inr (to_lower (read_owner out)), w\<lparr>w_sig := (w_sig w)\<lparr>cs_owner := to_lower (read_owner out)\<rparr>\<rparr>))))"

definition AccountAddress ::
  "'k eth_lib \<Rightarrow> nullable_lib \<Rightarrow> env \<Rightarrow> 'k client \<Rightarrow> 'k client_world \<Rightarrow> (go_error + string) \<times> 'k client_world" where
  "AccountAddress E N V c w =
     (case c_cred c of
        None \<Rightarrow> (Inl ENoCredential, w)
      | Some (AdminCred _) \<Rightarrow> (Inl ENoCredential, w)
      | Some (HMACKey _) \<Rightarrow> ownerFromServer N V (client_transport E N c) w
      | Some (SessionCred s) \<Rightarrow> (Inr (s_address s), w)
      | Some (WalletCred k) \<Rightarrow> (Inr (pk_addr k), w)
      | Some (AgentCred a) \<Rightarrow> (Inr (ag_owner a), w))"

subsection \<open>Keys of an account (session.go)\<close>

definition APIKeyInfo_t :: go_type where
  "APIKeyInfo_t = TStruct [(''key_id'', False, TString), (''tier'', False, TString)]"

record api_key =
  ak_KeyID :: string
  ak_Secret :: api_secret

definition minted_key_t :: go_type where
  "minted_key_t = TStruct [(''key_id'', False, TString), (''secret'', False, TString)]"

text \<open>The secret reaches the caller as its bytes; a response without one is refused.\<close>

definition CreateAPIKey ::
  "nullable_lib \<Rightarrow> env \<Rightarrow> 's transport \<Rightarrow> 's world \<Rightarrow> (go_error + api_key) \<times> 's world" where
  "CreateAPIKey N V t w =
     (case Send V t w [] ''POST'' ''/keys'' None (Some (decode N minted_key_t)) of
        (Inl e, w) \<Rightarrow> (Inl e, w)
      | (Inr out, w) \<Rightarrow>
          (case (case out of Some (VStruct [VString i, VString s]) \<Rightarrow> (i, s) | _ \<Rightarrow> ([], [])) of
             (keyID, secret) \<Rightarrow>
               (case NewAPISecret secret of
                  Inl e \<Rightarrow> (Inl e, w)
                | Inr s \<Rightarrow> (Inr \<lparr>ak_KeyID = keyID, ak_Secret = s\<rparr>, w))))"

definition FetchAPIKeys :: "nullable_lib \<Rightarrow> call" where
  "FetchAPIKeys N = get_call N (TSlice APIKeyInfo_t) ''/keys'' []"

definition DeleteAPIKey :: "nullable_lib \<Rightarrow> string \<Rightarrow> call" where
  "DeleteAPIKey N keyID =
     (send_call N ''DELETE'' (''/keys/'' @ PathEscape keyID) None TAny)\<lparr>k_out := None\<rparr>"

subsection \<open>Registering and revoking agents (agents.go)\<close>

definition registerChainID :: nat where
  "registerChainID = 20056"

definition defaultAgentTTL :: int where
  "defaultAgentTTL = 30 * 24 * hour"

record register_options =
  ro_ExpiresAt :: int
  ro_Label :: string
  ro_TermsVersion :: "nat option"

definition zero_options :: register_options where
  "zero_options = \<lparr>ro_ExpiresAt = zero_time, ro_Label = [], ro_TermsVersion = None\<rparr>"

text \<open>An address whose error is dropped is 20 zero bytes.\<close>

definition address_or_zero :: "string \<Rightarrow> string" where
  "address_or_zero s = (case ParseAddress s of None \<Rightarrow> replicate 20 (CHR 0x00) | Some a \<Rightarrow> a)"

definition registration_digest ::
  "'k eth_lib \<Rightarrow> int \<Rightarrow> string \<Rightarrow> int \<Rightarrow> int \<Rightarrow> nat option \<Rightarrow> string option" where
  "registration_digest E network agentAddr expMs nonce terms =
     (let salt = Some (NetworkSalt E (Network_String network))
      in case terms of
           None \<Rightarrow> RegisterAgentDigest E registerChainID salt agentAddr (uint64 expMs) (uint64 nonce)
         | Some v \<Rightarrow> RegisterAgentWithTermsDigest E registerChainID salt agentAddr (uint64 expMs) (uint64 nonce) v)"

text \<open>The request model with the terms version beside it.\<close>

definition registration_t :: go_type where
  "registration_t =
     (case AgentRegistrationRequest_t of
        TStruct fs \<Rightarrow> TStruct (fs @ [(''terms_version'', True, TPtr TUint32)])
      | T \<Rightarrow> T)"

definition registration_body ::
  "string \<Rightarrow> int \<Rightarrow> string \<Rightarrow> int \<Rightarrow> string \<Rightarrow> string \<Rightarrow> nat option \<Rightarrow> go_val" where
  "registration_body agent expMs label nonce sig wallet terms =
     VStruct [VString agent, VPtr (VInt expMs), if label \<noteq> [] then VPtr (VString label) else VNil,
       VInt nonce, VString (''0x'' @ hex_encode sig), VString wallet,
       case terms of None \<Rightarrow> VNil | Some v \<Rightarrow> VPtr (VInt (int v))]"

definition registered_expiry :: "int \<Rightarrow> go_val option \<Rightarrow> int" where
  "registered_expiry expMs out =
     (case out of
        Some (VStruct [VInt e]) \<Rightarrow> if e \<noteq> 0 then e * 1000000 else expMs * 1000000
      | _ \<Rightarrow> expMs * 1000000)"

definition RegisterAgent ::
  "'k eth_lib \<Rightarrow> nullable_lib \<Rightarrow> env \<Rightarrow> 'k client \<Rightarrow> 'k private_key option \<Rightarrow> 'k private_key option \<Rightarrow> register_options
     \<Rightarrow> 'k client_world \<Rightarrow> (go_error + 'k Agent) \<times> 'k client_world" where
  "RegisterAgent E N V c wallet agent opts w =
     (case (wallet, agent) of
        (Some wal, Some ag) \<Rightarrow>
          (case read_clock V w of
             (now, w) \<Rightarrow>
               (let expires = (if ro_ExpiresAt opts = zero_time then now + defaultAgentTTL else ro_ExpiresAt opts);
                    expMs = unix_milli expires; nonce = unix_milli now
                in case registration_digest E (c_network c) (address_or_zero (pk_addr ag)) expMs nonce (ro_TermsVersion opts) of
                     None \<Rightarrow> (Inl (EInvalid ''nexus: RegisterAgent typed data''), w)
                   | Some digest \<Rightarrow>
                       (case SignHash E (pk_key wal) digest of
                          None \<Rightarrow> (Inl EPanic, w)
                        | Some sig \<Rightarrow>
                            (case pub_Send V (c_pub c) w [] ''POST'' ''/agents/register''
                                    (Some (encode N registration_t (registration_body (pk_addr ag) expMs (ro_Label opts) nonce sig
                                       (pk_addr wal) (ro_TermsVersion opts))))
                                    (Some (decode N (TStruct [(''expires_at'', False, TInt64)]))) of
                               (Inl e, w) \<Rightarrow> (Inl e, w)
                             | (Inr out, w) \<Rightarrow>
                                 (case NewAgent E agent (pk_addr wal) of
                                    Inl _ \<Rightarrow> (Inl EPanic, w)
                                  | Inr a \<Rightarrow> (Inr (a\<lparr>ag_expiresAt := registered_expiry expMs out\<rparr>), w))))))
      | _ \<Rightarrow> (Inl (EInvalid ''nexus: RegisterAgent needs a wallet key and an agent key''), w))"

definition FetchAgents :: "nullable_lib \<Rightarrow> call" where
  "FetchAgents N = get_call N (TSlice AgentInfo_t) ''/agents'' []"

definition wallet_headers :: "string \<Rightarrow> nat \<Rightarrow> string \<Rightarrow> headers" where
  "wallet_headers account nonce sig =
     hset (hset (hset (hset [] ''X-Wallet-Account'' account) ''X-Wallet-Nonce'' (show_nat nonce))
       ''X-Wallet-Signature'' (''0x'' @ hex_encode sig)) ''X-Wallet-Chain-Id'' (show_nat registerChainID)"

definition RevokeAgent ::
  "'k eth_lib \<Rightarrow> env \<Rightarrow> 'k client \<Rightarrow> 'k private_key option \<Rightarrow> string \<Rightarrow> 'k client_world
     \<Rightarrow> (go_error + unit) \<times> 'k client_world" where
  "RevokeAgent E V c wallet address w =
     (case wallet of
        None \<Rightarrow> (Inl (EInvalid ''nexus: RevokeAgent needs the wallet key the agent was registered to''), w)
      | Some wal \<Rightarrow>
          (case ParseAddress address of
             None \<Rightarrow> (Inl (EInvalid ''nexus: address must be 0x followed by 40 hex digits''), w)
           | Some agent \<Rightarrow>
               (case read_clock V w of
                  (now, w) \<Rightarrow>
                    (let nonce = uint64 (unix_milli now)
                     in case RevokeAgentKeyDigest E registerChainID (Some (NetworkSalt E (Network_String (c_network c))))
                               (address_or_zero (pk_addr wal)) agent nonce of
                          None \<Rightarrow> (Inl (EInvalid ''nexus: RevokeAgent typed data''), w)
                        | Some digest \<Rightarrow>
                            (case SignHash E (pk_key wal) digest of
                               None \<Rightarrow> (Inl EPanic, w)
                             | Some sig \<Rightarrow>
                                 (case pub_Send V (c_pub c) w (wallet_headers (pk_addr wal) nonce sig) ''DELETE''
                                         (''/agents/'' @ PathEscape address) None (None :: (json \<Rightarrow> json_error + go_val) option) of
                                    (r, w) \<Rightarrow> (map_sum (\<lambda>e. e) (\<lambda>_. ()) r, w)))))))"

subsection \<open>Building a client\<close>

text \<open>The options of the package as data, for statements about NewClient, and the credential
  each one asks for: none, or one that is None when its arguments are unusable.\<close>

datatype 'k sdk_option =
    OKeepalive int int
  | OHMAC string api_secret
  | OSession "session option"
  | OWallet "'k private_key option"
  | OAgent "'k Agent option"
  | OAdmin string

fun as_option :: "'k sdk_option \<Rightarrow> 'k client_option" where
  "as_option (OKeepalive i t) = WithKeepalive i t"
| "as_option (OHMAC i s) = WithHMACAuth i s"
| "as_option (OSession s) = WithSession s"
| "as_option (OWallet k) = WithWallet k"
| "as_option (OAgent a) = WithAgent a"
| "as_option (OAdmin s) = WithAdminSecret s"

fun asked :: "'k sdk_option \<Rightarrow> 'k credential option list" where
  "asked (OKeepalive i t) = []"
| "asked (OHMAC i s) =
     [case s of Some b \<Rightarrow> if i = [] then None else Some (HMACKey \<lparr>KeyID = i, Secret = b\<rparr>) | None \<Rightarrow> None]"
| "asked (OSession s) = [map_option SessionCred s]"
| "asked (OWallet k) = [map_option WalletCred k]"
| "asked (OAgent a) = [map_option AgentCred a]"
| "asked (OAdmin s) = [if s = [] then None else Some (AdminCred s)]"

definition asked_all :: "'k sdk_option list \<Rightarrow> 'k credential option list" where
  "asked_all os = concat (map asked os)"

definition installs :: "('k client \<Rightarrow> go_error + 'k client) \<Rightarrow> 'k credential option \<Rightarrow> bool" where
  "installs f x = (\<forall>c. case x of None \<Rightarrow> \<exists>e. f c = Inl e | Some cr \<Rightarrow> f c = Inr (c\<lparr>c_cred := Some cr\<rparr>))"

lemma as_option_creds:
  "\<exists>fs. cfg_creds (as_option opt cfg) = cfg_creds cfg @ fs \<and> list_all2 installs fs (asked opt)"
  by (cases opt)
    (auto simp: WithKeepalive_def WithHMACAuth_def WithSession_def WithWallet_def WithAgent_def WithAdminSecret_def
      add_cred_def installs_def Let_def split: option.split)

lemma options_creds:
  "\<exists>fs. cfg_creds (fold (\<lambda>opt. opt) (map as_option os) cfg) = cfg_creds cfg @ fs \<and> list_all2 installs fs (asked_all os)"
proof (induction os arbitrary: cfg)
  case (Cons opt os)
  obtain fs where f: "cfg_creds (as_option opt cfg) = cfg_creds cfg @ fs" "list_all2 installs fs (asked opt)"
    using as_option_creds by blast
  obtain gs where g: "cfg_creds (fold (\<lambda>opt. opt) (map as_option os) (as_option opt cfg)) = cfg_creds (as_option opt cfg) @ gs"
      "list_all2 installs gs (asked_all os)"
    using Cons.IH by blast
  show ?case
    using f g by (intro exI [of _ "fs @ gs"]) (simp add: asked_all_def list_all2_appendI)
qed (simp add: asked_all_def)

definition fresh_client :: "string \<Rightarrow> (string \<times> string) list \<Rightarrow> (string \<Rightarrow> int option) \<Rightarrow> int \<Rightarrow> string \<Rightarrow> 'k config \<Rightarrow> 'k client" where
  "fresh_client file mods obsolete network b cfg =
     \<lparr>c_t = New b (APIVersion file) mods obsolete, c_pub = New b (APIVersion file) mods obsolete,
      c_network = network, c_cred = None, c_pingEvery = cfg_pingEvery cfg, c_pingWait = cfg_pingWait cfg\<rparr>"

definition refuse_on_mainnet :: "'k client \<Rightarrow> 'k client" where
  "refuse_on_mainnet c =
     (if c_network c = Mainnet
      then c\<lparr>c_t := (c_t c)\<lparr>t_refuse := Some EMainnet\<rparr>, c_pub := (c_pub c)\<lparr>t_refuse := Some EMainnet\<rparr>\<rparr> else c)"

lemma asked_cases:
  obtains (none) "asked_all os = []" | (one) cr where "asked_all os = [Some cr]"
    | (bad) "length (asked_all os) > 1 \<or> asked_all os = [None]"
proof (cases "asked_all os")
  case (Cons x xs)
  then show ?thesis by (cases x; cases xs) (auto intro: that)
qed (rule that(1))

text \<open>What the options leave of a client: its transports are fresh, and refuse on Mainnet; its
  credential is the one option's that asks for one.\<close>

lemma NewClient_builds:
  assumes "restBases n = Some b" "asked_all os = map Some crs" "length crs \<le> 1"
  shows "\<exists>cfg. NewClient file mods obsolete n (map as_option os) =
    Inr (refuse_on_mainnet ((fresh_client file mods obsolete n b cfg)\<lparr>c_cred := (case crs of [] \<Rightarrow> None | cr # _ \<Rightarrow> Some cr)\<rparr>))"
proof -
  let ?cfg = "fold (\<lambda>opt. opt) (map as_option os)
    \<lparr>cfg_creds = [], cfg_pingEvery = defaultPingEvery, cfg_pingWait = defaultPingWait\<rparr>"
  obtain fs where f: "cfg_creds ?cfg = fs" "list_all2 installs fs (asked_all os)"
    using options_creds [of os "\<lparr>cfg_creds = [], cfg_pingEvery = defaultPingEvery, cfg_pingWait = defaultPingWait\<rparr>"] by auto
  show ?thesis
  proof (cases crs)
    case Nil
    then show ?thesis
      using f assms by (intro exI [of _ ?cfg]) (simp add: NewClient_def Let_def fresh_client_def refuse_on_mainnet_def)
  next
    case (Cons cr rest)
    then obtain g where g: "fs = [g]" "installs g (Some cr)" using f(2) assms by (auto simp: list_all2_Cons2)
    have "g (fresh_client file mods obsolete n b ?cfg) = Inr ((fresh_client file mods obsolete n b ?cfg)\<lparr>c_cred := Some cr\<rparr>)"
      using g(2) by (simp add: installs_def)
    then show ?thesis
      using f(1) g(1) assms(1) Cons
      by (intro exI [of _ ?cfg]) (simp add: NewClient_def Let_def fresh_client_def refuse_on_mainnet_def)
  qed
qed

lemma NewClient_fails:
  assumes "length (asked_all os) > 1 \<or> asked_all os = [None]"
  shows "\<exists>e. NewClient file mods obsolete n (map as_option os) = Inl e"
proof (cases "restBases n")
  case None
  then show ?thesis by (simp add: NewClient_def)
next
  case (Some b)
  let ?cfg = "fold (\<lambda>opt. opt) (map as_option os)
    \<lparr>cfg_creds = [], cfg_pingEvery = defaultPingEvery, cfg_pingWait = defaultPingWait\<rparr>"
  obtain fs where f: "cfg_creds ?cfg = fs" "list_all2 installs fs (asked_all os)"
    using options_creds [of os "\<lparr>cfg_creds = [], cfg_pingEvery = defaultPingEvery, cfg_pingWait = defaultPingWait\<rparr>"] by auto
  have len: "length fs = length (asked_all os)" using f(2) by (rule list_all2_lengthD)
  show ?thesis
  proof (cases "length (asked_all os) > 1")
    case True
    then show ?thesis using Some f(1) len by (simp add: NewClient_def Let_def)
  next
    case False
    then obtain g where g: "fs = [g]" "installs g None" using assms f(2) by (auto simp: list_all2_Cons2)
    obtain e where "g (fresh_client file mods obsolete n b ?cfg) = Inl e" using g(2) by (auto simp: installs_def)
    then show ?thesis using Some f(1) g(1) by (simp add: NewClient_def Let_def fresh_client_def)
  qed
qed

text \<open>NewClient builds a client exactly for a known network and at most one credential, its
  arguments usable; the client is bound to that network's base, holds that credential and
  no other, and refuses to send exactly when the network is Mainnet.\<close>

lemma NewClient_cases:
  "(case NewClient file mods obsolete n (map as_option os) of
      Inl e \<Rightarrow> n \<notin> {Mainnet, Testnet, Local} \<or> length (asked_all os) > 1 \<or> asked_all os = [None]
    | Inr c \<Rightarrow>
        n \<in> {Mainnet, Testnet, Local} \<and> length (asked_all os) \<le> 1 \<and> asked_all os \<noteq> [None] \<and>
        c_cred c = (case asked_all os of [] \<Rightarrow> None | x # _ \<Rightarrow> x) \<and> c_network c = n \<and>
        Some (t_base (c_t c)) = restBases n \<and> c_pub c = c_t c \<and> t_signer (c_t c) = None \<and>
        t_refuse (c_t c) = (if n = Mainnet then Some EMainnet else None))"
proof -
  have b: "restBases n = None \<longleftrightarrow> n \<notin> {Mainnet, Testnet, Local}"
    by (auto simp: restBases_def Mainnet_def Testnet_def Local_def)
  have base: "trim_right_char (CHR ''/'') b = b" if "restBases n = Some b" for b
    using that by (auto simp: restBases_def edgePrefix_def trim_right_char_def split: if_splits)
  have built: ?thesis if crs: "asked_all os = map Some crs" "length crs \<le> 1" for crs
  proof (cases "restBases n")
    case None
    then show ?thesis using b by (simp add: NewClient_def)
  next
    case (Some x)
    have "n \<in> {Mainnet, Testnet, Local}" using b Some by auto
    moreover obtain cfg where "NewClient file mods obsolete n (map as_option os) = Inr (refuse_on_mainnet
        ((fresh_client file mods obsolete n x cfg)\<lparr>c_cred := (case crs of [] \<Rightarrow> None | cr # _ \<Rightarrow> Some cr)\<rparr>))"
      using NewClient_builds [OF Some crs] by blast
    ultimately show ?thesis
      using crs base [OF Some] Some
      by (auto simp: refuse_on_mainnet_def fresh_client_def New_def Let_def split: list.split)
  qed
  show ?thesis
  proof (cases os rule: asked_cases)
    case none
    then show ?thesis using built [of "[]"] by simp
  next
    case (one cr)
    then show ?thesis using built [of "[cr]"] by simp
  next
    case bad
    then show ?thesis using NewClient_fails [OF bad, of "file" "mods" "obsolete" "n"] by auto
  qed
qed

text \<open>C34: NewClient builds a client exactly for a known network and at most one credential, its
  arguments usable; the client is bound to that network's base, holds that credential and
  no other, and refuses to send exactly when the network is Mainnet.\<close>

theorem NewClient_one_credential:
  "(case NewClient file mods obsolete n (map as_option os) of
      Inl e \<Rightarrow> \<not> (n \<in> {Mainnet, Testnet, Local} \<and> length (asked_all os) \<le> 1 \<and> asked_all os \<noteq> [None])
    | Inr c \<Rightarrow>
        n \<in> {Mainnet, Testnet, Local} \<and> length (asked_all os) \<le> 1 \<and> asked_all os \<noteq> [None] \<and>
        c_cred c = (case asked_all os of [] \<Rightarrow> None | x # _ \<Rightarrow> x) \<and> c_network c = n \<and>
        Some (t_base (c_t c)) = restBases n \<and> c_pub c = c_t c \<and>
        t_refuse (c_t c) = (if n = Mainnet then Some EMainnet else None))"
  using NewClient_cases [of n os "file" "mods" "obsolete"]
  by (cases "NewClient file mods obsolete n (map as_option os)") auto

subsection \<open>Mainnet\<close>

lemma swap_swap [simp]: "swap_limits (swap_limits w) = w"
  by (simp add: swap_limits_def)

lemma swap_io [simp]: "w_log (swap_limits w) = w_log w" "w_slept (swap_limits w) = w_slept w" "w_tick (swap_limits w) = w_tick w"
  by (simp_all add: swap_limits_def)

lemma client_transport_simps [simp]:
  "t_refuse (client_transport E N c) = t_refuse (c_t c)" "t_base (client_transport E N c) = t_base (c_t c)"
  "t_basePath (client_transport E N c) = t_basePath (c_t c)"
  "t_signer (client_transport E N c) = map_option (cred_signer E N (c_pub c)) (c_cred c)"
  by (simp_all add: client_transport_def)

lemma refused_calls:
  assumes "t_refuse t = Some e"
  shows "Get V t w path q out = (Inl e, w)" "GetPage V t w path q out = (Inl e, w)"
    "Send V t w extra m path body out = (Inl e, w)" "Dial t dial url = Inl (WsRefused e)"
  using refusal_is_silent [OF assms] by blast+

lemma refused_pub:
  assumes "t_refuse pub = Some e"
  shows "pub_Send V pub w extra m path body out = (Inl e, w)"
  by (simp add: pub_Send_def refused_calls(3) [OF assms])

lemma refused_perform: "t_refuse t = Some e \<Longrightarrow> perform V t w k = (Inl e, w)"
  by (simp add: perform_def Let_def refused_calls split: verb.split)

text \<open>What a method may do to the network before it fails: nothing.\<close>

definition sends_nothing :: "'s world \<Rightarrow> (go_error + 'a) \<times> 's world \<Rightarrow> bool" where
  "sends_nothing w res = (w_log (snd res) = w_log w \<and> w_slept (snd res) = w_slept w \<and> (\<exists>e. fst res = Inl e))"

lemma read_clock_io [simp]:
  "w_log (snd (read_clock V w)) = w_log w" "w_slept (snd (read_clock V w)) = w_slept w" "w_sig (snd (read_clock V w)) = w_sig w"
  "w_limits (snd (read_clock V w)) = w_limits w"
  by (simp_all add: read_clock_def tick_def)

lemma refused_login:
  assumes "t_refuse pub = Some e"
  shows "sends_nothing w (Login E N V pub wallet w)"
  by (auto simp: Login_def refused_pub [OF assms] sends_nothing_def read_clock_def tick_def split: option.split prod.split)

lemma refused_register:
  assumes "t_refuse (c_pub c) = Some e"
  shows "sends_nothing w (RegisterAgent E N V c wallet agent opts w)"
  by (auto simp: RegisterAgent_def refused_pub [OF assms] sends_nothing_def read_clock_def tick_def Let_def split: option.split prod.split)

lemma refused_revoke:
  assumes "t_refuse (c_pub c) = Some e"
  shows "sends_nothing w (RevokeAgent E V c wallet address w)"
  by (auto simp: RevokeAgent_def refused_pub [OF assms] sends_nothing_def read_clock_def tick_def Let_def split: option.split prod.split)

text \<open>C8: no operation of a Mainnet client reaches the network: whatever its credential, each REST
  method returns the Mainnet refusal and leaves the world as it was, sign-in, agent
  registration and revocation fail without sending, and no WebSocket is dialled.\<close>

theorem mainnet_client_is_silent:
  assumes "NewClient file mods obsolete Mainnet (map as_option os) = Inr c"
  shows "perform V (client_transport E N c) w k = (Inl EMainnet, w)
    \<and> CreateAPIKey N V (client_transport E N c) w = (Inl EMainnet, w)
    \<and> sends_nothing w (Login E N V (c_pub c) wallet w)
    \<and> sends_nothing w (RegisterAgent E N V c wallet agent opts w)
    \<and> sends_nothing w (RevokeAgent E V c wallet address w)
    \<and> w_log (snd (AccountAddress E N V c w)) = w_log w
    \<and> Dial (client_transport E N c) dial url = Inl (WsRefused EMainnet)"
proof -
  have r: "t_refuse (c_t c) = Some EMainnet" "t_refuse (c_pub c) = Some EMainnet"
    using NewClient_cases [of Mainnet os "file" "mods" "obsolete"] by (simp_all add: assms)
  then have t: "t_refuse (client_transport E N c) = Some EMainnet" by simp
  have "w_log (snd (AccountAddress E N V c w)) = w_log w"
    by (simp add: refused_calls [OF t] AccountAddress_def ownerFromServer_def deposit_target_def split: option.split credential.split)
  then show ?thesis
    using refused_perform [OF t] refused_login [OF r(2)] refused_register [OF r(2)] refused_revoke [OF r(2)]
    by (simp add: CreateAPIKey_def refused_calls [OF t])
qed

theorem mainnet_client_is_silent_witness:
  "\<exists>c. NewClient ''v0.8.1'' [] (\<lambda>_. None) Mainnet (map as_option [OAdmin ''s'']) = Inr (c :: string client) \<and>
     perform (steady_env NetFail) (client_transport sample_lib sample_nullable c) (start_world (start_state c))
       (CreateOrder sample_nullable VNil) = (Inl EMainnet, start_world (start_state c))"
proof -
  have "\<exists>c. NewClient ''v0.8.1'' [] (\<lambda>_. None) Mainnet (map as_option [OAdmin ''s'']) = Inr (c :: string client)"
    by (simp add: NewClient_def restBases_def WithAdminSecret_def add_cred_def Let_def)
  then obtain c where c: "NewClient ''v0.8.1'' [] (\<lambda>_. None) Mainnet (map as_option [OAdmin ''s'']) = Inr (c :: string client)"
    by blast
  show ?thesis
    by (intro exI [of _ c] conjI c mainnet_client_is_silent [OF c, THEN conjunct1])
qed

end
