(* ===== verification/Credentials.thy ===== *)
theory Credentials
  imports Client
begin

section \<open>What a client's credential does to its requests\<close>

text \<open>
  The bearer signer may sign in while a request is being sent, so it is not quiet in the
  sense of the transport. This theory follows one attempt step by step for any signer, and
  from that what a session, a wallet and an API key put on the wire.
\<close>

subsection \<open>One attempt, for any signer\<close>

lemma pace_tick: "w_tick w \<le> w_tick (snd (pace V w c n))"
  by (auto simp: pace_def Let_def read_clock_def tick_def sleep_def ctx_done_def
      split: option.split prod.split bool.split)

definition clockless :: "'s transport \<Rightarrow> bool" where
  "clockless t = (\<forall>s. t_signer t = Some s \<longrightarrow> sg_clock s = None)"

lemma read_answer_clockless:
  assumes "clockless t" "read_answer V t w c out a = (r, w')"
  shows "w_log w' = w_log w \<and> w_sig w' = w_sig w \<and> w_tick w \<le> w_tick w'"
proof -
  have k: "with_skew V t u s rh e = (e, u)" for u :: "'a world" and s rh e
    using assms(1) by (simp add: clockless_def with_skew_def split: option.split)
  then show ?thesis
    using assms(2)
    by (auto simp: read_answer_def failed_response_def Let_def read_clock_def tick_def
        split: net_result.splits option.splits if_splits sum.splits)
qed

text \<open>
  An attempt stops before its signer, is refused by it, or is sent with the headers it
  returned.
\<close>

lemma do_request_steps:
  assumes "clockless t" "do_request V t w extra m path body out = (r, w')"
  obtains (unsigned) "w_log w' = w_log w" "w_sig w' = w_sig w" "w_tick w \<le> w_tick w'" "\<exists>e. r = Inl e"
  | (refused) w1 h0 wire q e where "w_log w1 = w_log w" "w_sig w1 = w_sig w" "w_tick w \<le> w_tick w1"
      "sign_request V t w1 h0 m wire q body = (Inl e, w')" "r = Inl e"
  | (sent) w1 w2 wire q h a where "w_log w1 = w_log w" "w_sig w1 = w_sig w" "w_tick w \<le> w_tick w1"
      "parse_target (after_scheme (t_base t) @ path) = Some (wire, q)"
      "sign_request V t w1 (base_headers t body extra) m wire q body = (Inr h, w2)"
      "w_log w' = w_log w2 @ [(\<lparr>r_method = m, r_path = wire, r_query = q, r_headers = h, r_body = body\<rparr>, a)]"
      "w_sig w' = w_sig w2" "w_tick w2 \<le> w_tick w'"
proof -
  obtain c n where c: "costOf m path body = (c, n)" by fastforce
  obtain ok w1 where p: "pace V w c n = (ok, w1)" by fastforce
  have l1: "w_log w1 = w_log w" "w_sig w1 = w_sig w" "w_tick w \<le> w_tick w1"
    using pace_log [of V w c n] pace_sig [of V w c n] pace_tick [of w V c n] p by simp_all
  show ?thesis
  proof (cases "ok \<and> parse_target (after_scheme (t_base t) @ path) \<noteq> None")
    case False
    then have "w' = w1 \<and> r \<in> {Inl EContext, Inl EBuild}"
      using assms(2) c p
      by (cases "parse_target (after_scheme (t_base t) @ path)") (auto simp: do_request_def split: bool.splits)
    then show ?thesis using l1 by (intro unsigned) auto
  next
    case True
    then obtain wire q where u: "parse_target (after_scheme (t_base t) @ path) = Some (wire, q)" by auto
    obtain s w2 where s: "sign_request V t w1 (base_headers t body extra) m wire q body = (s, w2)" by fastforce
    show ?thesis
    proof (cases s)
      case (Inl e)
      then have "w' = w2 \<and> r = Inl e" using assms(2) True by (simp add: do_request_def c p u s)
      then show ?thesis using l1 s Inl by (intro refused) auto
    next
      case (Inr h)
      let ?q = "\<lparr>r_method = m, r_path = wire, r_query = q, r_headers = h, r_body = body\<rparr>"
      obtain a w3 where a: "send_http V w2 ?q = (a, w3)" by fastforce
      have w3: "w_log w3 = w_log w2 @ [(?q, a)]" "w_sig w3 = w_sig w2" "w_tick w2 \<le> w_tick w3"
        using a by (auto simp: send_http_def Let_def tick_def)
      have "read_answer V t w3 c out a = (r, w')"
        using assms(2) True Inr a by (simp add: do_request_def c p u s)
      from read_answer_clockless [OF assms(1) this]
      show ?thesis using l1 s Inr w3 by (intro sent [OF l1 u]) auto
    qed
  qed
qed

subsection \<open>Calls through pub\<close>

definition pub_sent :: "'s transport \<Rightarrow> headers \<Rightarrow> string \<Rightarrow> string \<Rightarrow> string option \<Rightarrow> request \<Rightarrow> bool" where
  "pub_sent pub extra m path body r =
     (r_method r = m \<and> r_body r = body \<and> r_headers r = base_headers pub body extra \<and>
      parse_target (after_scheme (t_base pub) @ path) = Some (r_path r, r_query r))"

lemma no_signer_request:
  assumes "t_signer t = None" "do_request V t w extra m path body out = (r, w')"
  shows "w_sig w' = w_sig w \<and> w_tick w \<le> w_tick w' \<and>
    (\<exists>xs. w_log w' = w_log w @ xs \<and> length xs \<le> 1 \<and> (\<forall>x \<in> set xs. pub_sent t extra m path body (fst x)))"
proof -
  have k: "clockless t" using assms(1) by (simp add: clockless_def)
  show ?thesis
    using k assms(2)
  proof (cases rule: do_request_steps)
    case unsigned
    then show ?thesis by simp
  next
    case (refused w1 h0 wire q e)
    then show ?thesis using assms(1) by (simp add: sign_request_def)
  next
    case (sent w1 w2 wire q h a)
    then have "h = base_headers t body extra" "w2 = w1" using assms(1) by (simp_all add: sign_request_def)
    then show ?thesis using sent by (simp add: pub_sent_def)
  qed
qed

lemma pub_Send_effect:
  assumes "t_signer pub = None" "pub_Send V pub w extra m path body out = (r, w')"
  shows "(\<exists>l. w_sig w' = (w_sig w)\<lparr>cs_pub := l\<rparr>) \<and> w_tick w \<le> w_tick w' \<and>
    (\<exists>xs. w_log w' = w_log w @ xs \<and> length xs \<le> 1 \<and>
      (\<forall>x \<in> set xs. pub_sent pub extra m path (case body of Some (Some j) \<Rightarrow> Some (json_print j) | _ \<Rightarrow> None) (fst x)))"
proof (cases "t_refuse pub = None \<and> m \<noteq> ''GET'' \<and> body \<noteq> Some None")
  case False
  then have "w' = w" using assms(2) by (auto simp: pub_Send_def Send_def split: option.splits if_splits)
  then show ?thesis by (intro conjI exI [of _ "cs_pub (w_sig w)"] exI [of _ "[]"]) simp_all
next
  case True
  obtain r1 u where d: "do_request V pub (swap_limits w) extra m path
      (case body of Some (Some j) \<Rightarrow> Some (json_print j) | _ \<Rightarrow> None) out = (r1, u)" by fastforce
  have "w' = swap_limits u" using assms(2) True d by (simp add: pub_Send_def Send_def)
  then show ?thesis using no_signer_request [OF assms(1) d] by (auto simp: swap_limits_def)
qed

subsection \<open>Sessions\<close>

text \<open>A sign-in on the wire: the login operation, through pub, without a credential.\<close>

definition is_login :: "'k client_state transport \<Rightarrow> request \<Rightarrow> bool" where
  "is_login pub r =
     (r_method r = ''POST'' \<and> hget (r_headers r) ''Authorization'' = [] \<and>
      parse_target (after_scheme (t_base pub) @ ''/auth/login'') = Some (r_path r, r_query r))"

lemma base_no_authorization: "hget (base_headers t body []) ''Authorization'' = []"
  by (simp add: base_headers_def Let_def hget_def [of "[]"] split: option.split)

lemma pub_sent_login: "pub_sent pub [] ''POST'' ''/auth/login'' b r \<Longrightarrow> is_login pub r"
  by (simp add: pub_sent_def is_login_def base_no_authorization)

lemma read_session_expiry: "read_session began out = Inr s \<Longrightarrow> s_expiresAt s = began + sessionTTL"
  by (auto simp: read_session_def split: option.splits go_val.splits list.splits if_splits)

lemma Login_effect:
  assumes "t_signer pub = None" "Login E N V pub wallet w = (r, w')"
  shows "cs_session (w_sig w') = cs_session (w_sig w) \<and> w_tick w \<le> w_tick w' \<and>
    (\<exists>xs. w_log w' = w_log w @ xs \<and> length xs \<le> 1 \<and> (\<forall>x \<in> set xs. is_login pub (fst x))) \<and>
    (\<forall>s. r = Inr s \<longrightarrow> w_tick w < w_tick w' \<and> s_expiresAt s = e_clock V (w_tick w) + sessionTTL)"
proof (cases "\<exists>k sig. wallet = Some k \<and> SignHash E (pk_key k) (PersonalHash E signInMessage) = Some sig")
  case False
  then have "(\<exists>e. r = Inl e) \<and> (w' = w \<or> w' = tick w)"
    using assms(2) by (auto simp: Login_def read_clock_def split: option.splits)
  then show ?thesis by (auto simp: tick_def)
next
  case True
  then obtain k sig where k: "wallet = Some k" "SignHash E (pk_key k) (PersonalHash E signInMessage) = Some sig" by blast
  obtain x u where p: "pub_Send V pub (tick w) [] ''POST'' ''/auth/login'' (login_call N sig) (Some (decode N LoginResponse_t)) = (x, u)"
    by fastforce
  have "w' = u \<and> (case x of Inl e \<Rightarrow> r = Inl e | Inr out \<Rightarrow> r = read_session (e_clock V (w_tick w)) out)"
    using assms(2) k p by (auto simp: Login_def read_clock_def split: sum.splits)
  moreover obtain l xs where e: "w_sig u = (w_sig w)\<lparr>cs_pub := l\<rparr>" "w_log u = w_log w @ xs" "length xs \<le> 1"
      "\<forall>x \<in> set xs. is_login pub (fst x)" "Suc (w_tick w) \<le> w_tick u"
    using pub_Send_effect [OF assms(1) p] pub_sent_login by (fastforce simp: tick_def)
  ultimately show ?thesis using read_session_expiry by (auto split: sum.splits)
qed

text \<open>What a bearer's attempt to get a session does: at most one sign-in, and the session it
  returns is the one kept, with more than its margin left at a clock reading of the attempt.\<close>

definition fresh_within :: "env \<Rightarrow> nat \<Rightarrow> nat \<Rightarrow> session \<Rightarrow> bool" where
  "fresh_within V m n s = (\<exists>i. m \<le> i \<and> i < n \<and> e_clock V i + sessionMargin < s_expiresAt s)"

lemma fresh_within_mono: "m \<le> m' \<Longrightarrow> n' \<le> n \<Longrightarrow> fresh_within V m' n' s \<Longrightarrow> fresh_within V m n s"
  unfolding fresh_within_def by (metis le_trans less_le_trans)

lemma bearer_current_effect:
  assumes "t_signer pub = None" "signIn \<in> {None, Some (Login E N V pub wallet)}" "bearer_current V signIn w = (r, w')"
  shows "w_tick w \<le> w_tick w' \<and>
    (\<exists>xs. w_log w' = w_log w @ xs \<and> length xs \<le> 1 \<and> (\<forall>x \<in> set xs. is_login pub (fst x)) \<and> (signIn = None \<longrightarrow> xs = [])) \<and>
    (\<forall>s. r = Inr s \<longrightarrow> cs_session (w_sig w') = Some s \<and> fresh_within V (w_tick w) (w_tick w') s) \<and>
    (signIn = None \<longrightarrow> cs_session (w_sig w') = cs_session (w_sig w))"
proof -
  have renew: "w_tick u \<le> w_tick w' \<and>
    (\<exists>xs. w_log w' = w_log u @ xs \<and> length xs \<le> 1 \<and> (\<forall>x \<in> set xs. is_login pub (fst x)) \<and> (signIn = None \<longrightarrow> xs = [])) \<and>
    (\<forall>s. r = Inr s \<longrightarrow> cs_session (w_sig w') = Some s \<and> fresh_within V (w_tick u) (w_tick w') s) \<and>
    (signIn = None \<longrightarrow> cs_session (w_sig w') = cs_session (w_sig u))"
    if b: "bearer_renew signIn u = (r, w')" for u
  proof (cases signIn)
    case None
    then show ?thesis using b by (auto simp: bearer_renew_def)
  next
    case (Some f)
    obtain x v where l: "Login E N V pub wallet u = (x, v)" by fastforce
    have f: "f = Login E N V pub wallet" using Some assms(2) by simp
    have ttl: "sessionMargin < sessionTTL" by (simp add: sessionMargin_def sessionTTL_def minute_def hour_def second_def)
    note e = Login_effect [OF assms(1) l]
    show ?thesis
    proof (cases x)
      case (Inl y)
      then have "r = Inl (ERefresh y) \<and> w' = v" using b Some f l by (auto simp: bearer_renew_def)
      then show ?thesis using e Some by simp
    next
      case (Inr s)
      then have rs: "r = Inr s" "w' = v\<lparr>w_sig := (w_sig v)\<lparr>cs_session := Some s\<rparr>\<rparr>"
        using b Some f l by (auto simp: bearer_renew_def)
      have "fresh_within V (w_tick u) (w_tick v) s"
        unfolding fresh_within_def using e Inr ttl by (intro exI [of _ "w_tick u"]) simp
      then show ?thesis using e Some rs by simp
    qed
  qed
  show ?thesis
  proof (cases "cs_session (w_sig w)")
    case None
    then show ?thesis using renew [of w] assms(3) by (simp add: bearer_current_def)
  next
    case (Some s)
    show ?thesis
    proof (cases "e_clock V (w_tick w) + sessionMargin < s_expiresAt s")
      case True
      then have "r = Inr s" "w' = tick w" using assms(3) Some by (auto simp: bearer_current_def read_clock_def)
      then show ?thesis using True Some by (auto simp: tick_def fresh_within_def)
    next
      case False
      then have "bearer_renew signIn (tick w) = (r, w')" using assms(3) Some by (simp add: bearer_current_def read_clock_def)
      from renew [OF this] show ?thesis using fresh_within_mono [of "w_tick w" "Suc (w_tick w)" "w_tick w'" "w_tick w'"] by (auto simp: tick_def)
    qed
  qed
qed


lemma bearer_sign:
  assumes "t_signer t = Some (bearer_signer signIn)" "sign_request V t w h m p q b = (x, w')"
  obtains r where "bearer_current V (map_option (\<lambda>f. f V) signIn) w = (r, w')"
    "x = (case r of Inl e \<Rightarrow> Inl (ELocal e) | Inr s \<Rightarrow> Inr (hset h ''Authorization'' (''Bearer '' @ s_token s)))"
proof -
  obtain r u where r: "bearer_current V (map_option (\<lambda>f. f V) signIn) w = (r, u)" by fastforce
  then have "u = w' \<and> x = (case r of Inl e \<Rightarrow> Inl (ELocal e) | Inr s \<Rightarrow> Inr (hset h ''Authorization'' (''Bearer '' @ s_token s)))"
    using assms by (auto simp: sign_request_def bearer_signer_def split: sum.splits)
  then show ?thesis using that r by blast
qed

lemma bearer_request:
  assumes pub: "t_signer pub = None"
    and t: "t_signer t = Some (bearer_signer signIn)" "signIn \<in> {None, Some (\<lambda>V. Login E N V pub wallet)}"
    and d: "do_request V t w extra m path body out = (r, w')"
  shows "\<exists>logins reqs. w_log w' = w_log w @ logins @ reqs \<and> length logins \<le> 1 \<and> length reqs \<le> 1 \<and>
    (\<forall>x \<in> set logins. is_login pub (fst x)) \<and> (signIn = None \<longrightarrow> logins = []) \<and>
    (\<forall>x \<in> set reqs. \<exists>s. cs_session (w_sig w') = Some s \<and> fresh_within V (w_tick w) (w_tick w') s \<and>
       hget (r_headers (fst x)) ''Authorization'' = ''Bearer '' @ s_token s \<and>
       r_method (fst x) = m \<and> r_body (fst x) = body)"
proof -
  have k: "clockless t" using t(1) by (simp add: clockless_def bearer_signer_def)
  have sI: "map_option (\<lambda>f. f V) signIn \<in> {None, Some (Login E N V pub wallet)}" using t(2) by auto
  show ?thesis
    using k d
  proof (cases rule: do_request_steps)
    case unsigned
    then show ?thesis by (intro exI [of _ "[]"]) simp
  next
    case (refused w1 h0 wire q e)
    obtain x where x: "bearer_current V (map_option (\<lambda>f. f V) signIn) w1 = (x, w')"
      using refused(4) t(1) by (elim bearer_sign)
    obtain xs where "w_log w' = w_log w1 @ xs" "length xs \<le> 1" "\<forall>x \<in> set xs. is_login pub (fst x)" "signIn = None \<longrightarrow> xs = []"
      using bearer_current_effect [OF pub sI x] by (auto split: option.splits)
    then show ?thesis using refused(1) by (intro exI [of _ xs] exI [of _ "[]"]) simp
  next
    case (sent w1 w2 wire q h a)
    obtain x where x: "bearer_current V (map_option (\<lambda>f. f V) signIn) w1 = (x, w2)"
      and h: "Inr h = (case x of Inl e \<Rightarrow> Inl (ELocal e)
        | Inr s \<Rightarrow> Inr (hset (base_headers t body extra) ''Authorization'' (''Bearer '' @ s_token s)))"
      using sent(5) t(1) by (elim bearer_sign)
    obtain s where s: "x = Inr s" "hget h ''Authorization'' = ''Bearer '' @ s_token s"
      using h by (cases x) simp_all
    note e = bearer_current_effect [OF pub sI x]
    obtain xs where xs: "w_log w2 = w_log w1 @ xs" "length xs \<le> 1" "\<forall>x \<in> set xs. is_login pub (fst x)" "signIn = None \<longrightarrow> xs = []"
      using e by (auto split: option.splits)
    have "cs_session (w_sig w') = Some s \<and> fresh_within V (w_tick w) (w_tick w') s"
      using e s(1) sent(3,7,8) fresh_within_mono by simp
    then show ?thesis
      using xs sent(1,6) s(2)
      by (intro exI [of _ xs] exI [of _ "[(\<lparr>r_method = m, r_path = wire, r_query = q, r_headers = h, r_body = body\<rparr>, a)]"]) simp
  qed
qed

text \<open>C2: of a client with a session or a wallet, one attempt at any operation sends at most one
  sign-in and then at most one request. The request, with the method and body asked for,
  carries the client's session, which at a clock reading of this very attempt had more than
  a minute left, so an expired session is never presented; the sign-in is only a wallet's
  and carries no credential.\<close>

theorem session_never_stale:
  assumes "NewClient file mods obsolete n (map as_option os) = Inr c"
    and "c_cred c = Some (SessionCred s0) \<or> c_cred c = Some (WalletCred k)"
    and "do_request V (client_transport E N c) w extra m path body out = (r, w')"
  shows "\<exists>logins reqs. w_log w' = w_log w @ logins @ reqs \<and> length logins \<le> 1 \<and> length reqs \<le> 1 \<and>
    (\<forall>x \<in> set logins. is_login (c_pub c) (fst x) \<and> c_cred c = Some (WalletCred k)) \<and>
    (\<forall>x \<in> set reqs. \<exists>s. cs_session (w_sig w') = Some s \<and> fresh_within V (w_tick w) (w_tick w') s \<and>
       hget (r_headers (fst x)) ''Authorization'' = ''Bearer '' @ s_token s \<and>
       r_method (fst x) = m \<and> r_body (fst x) = body)"
proof -
  have pub: "t_signer (c_pub c) = None"
    using NewClient_cases [of n os "file" "mods" "obsolete"] assms(1) by simp
  let ?t = "client_transport E N c"
  show ?thesis
    using assms(2)
  proof
    assume "c_cred c = Some (SessionCred s0)"
    then have t: "t_signer ?t = Some (bearer_signer None)" by (simp add: cred_signer_def)
    from bearer_request [OF pub t insertI1 assms(3)] show ?thesis by (elim ex_forward) simp
  next
    assume k: "c_cred c = Some (WalletCred k)"
    then have t: "t_signer ?t = Some (bearer_signer (Some (\<lambda>V. Login E N V (c_pub c) (Some k))))" by (simp add: cred_signer_def)
    from bearer_request [OF pub t insertI2 [OF insertI1] assms(3)] show ?thesis by (elim ex_forward) (simp add: k)
  qed
qed

theorem session_never_stale_witness:
  "\<exists>c. NewClient ''v0.8.1'' [] (\<lambda>_. None) Local (map as_option [OWallet (Some (newPrivateKey sample_lib ''k''))]) = Inr c \<and>
     length (w_log (snd (do_request (steady_env NetFail) (client_transport sample_lib sample_nullable c)
       (start_world (start_state c)) [] ''POST'' ''/orders'' None (None :: (json \<Rightarrow> json_error + unit) option)))) \<le> 2"
proof -
  let ?os = "[OWallet (Some (newPrivateKey sample_lib ''k''))]"
  have "\<exists>c. NewClient ''v0.8.1'' [] (\<lambda>_. None) Local (map as_option ?os) = Inr c \<and>
      c_cred c = Some (WalletCred (newPrivateKey sample_lib ''k''))"
    by (simp add: NewClient_def restBases_def Mainnet_def Testnet_def Local_def WithWallet_def add_cred_def Let_def)
  then obtain c where c: "NewClient ''v0.8.1'' [] (\<lambda>_. None) Local (map as_option ?os) = Inr c"
      "c_cred c = Some (WalletCred (newPrivateKey sample_lib ''k''))" by blast
  obtain r w' where d: "do_request (steady_env NetFail) (client_transport sample_lib sample_nullable c)
      (start_world (start_state c)) [] ''POST'' ''/orders'' None (None :: (json \<Rightarrow> json_error + unit) option) = (r, w')" by fastforce
  from session_never_stale [OF c(1) disjI2 [OF c(2)] d]
  obtain logins reqs where "w_log w' = logins @ reqs" "length logins \<le> 1" "length reqs \<le> 1" by (auto simp: start_world_def)
  then have "length (w_log w') \<le> 2" by simp
  then show ?thesis using c(1) d by (intro exI [of _ c]) simp
qed

subsection \<open>The account of an API key\<close>

text \<open>A transport whose signer leaves the signer's state alone.\<close>

definition keeps_sig :: "'s transport \<Rightarrow> bool" where
  "keeps_sig t =
     ((\<forall>V w h m p q b. w_sig (snd (sign_request V t w h m p q b)) = w_sig w) \<and>
      (\<forall>s clk V w. t_signer t = Some s \<longrightarrow> sg_clock s = Some clk \<longrightarrow> w_sig (snd (clk V w)) = w_sig w))"

lemma keeps_sig_hmac: "t_signer t = Some (hmac_signer K) \<Longrightarrow> keeps_sig t"
  by (auto simp: keeps_sig_def sign_request_def hmac_signer_def read_clock_def tick_def)

lemma with_skew_sig: "keeps_sig t \<Longrightarrow> w_sig (snd (with_skew V t w s rh e)) = w_sig w"
  by (auto simp: with_skew_def keeps_sig_def split: option.split prod.split) (metis snd_conv)

lemma read_answer_sig:
  assumes "keeps_sig t"
  shows "w_sig (snd (read_answer V t w c out a)) = w_sig w"
proof (cases "\<exists>s rh b. a = Resp s rh (Some b) \<and> (s < 200 \<or> s > 299)")
  case True
  then obtain s rh b where a: "a = Resp s rh (Some b)" "s < 200 \<or> s > 299" by blast
  let ?e = "decodeError s rh (limit_read b)"
  let ?u = "(tick w)\<lparr>w_limits := observe (w_limits w) c rh (Some ?e) (e_clock V (w_tick w))\<rparr>"
  obtain e v where k: "with_skew V t ?u s rh ?e = (e, v)" by fastforce
  have "w_sig v = w_sig w" using with_skew_sig [OF assms, of V ?u s rh ?e] k by (simp add: tick_def)
  then have "w_sig (snd (failed_response V t w c s rh (limit_read b))) = w_sig w"
    using k by (simp add: failed_response_def Let_def read_clock_def tick_def)
  then show ?thesis using a by (auto simp: read_answer_def Let_def split: prod.splits)
next
  case False
  then show ?thesis
    by (auto simp: read_answer_def Let_def read_clock_def tick_def split: net_result.split option.split sum.split)
qed

lemma do_request_sig:
  assumes "keeps_sig t"
  shows "w_sig (snd (do_request V t w extra m path body out)) = w_sig w"
proof -
  obtain c n where c: "costOf m path body = (c, n)" by fastforce
  obtain ok w1 where p: "pace V w c n = (ok, w1)" by fastforce
  have w1: "w_sig w1 = w_sig w" using pace_sig [of V w c n] p by simp
  show ?thesis
  proof (cases "ok \<and> parse_target (after_scheme (t_base t) @ path) \<noteq> None")
    case False
    then show ?thesis using w1
      by (cases "parse_target (after_scheme (t_base t) @ path)") (auto simp: do_request_def c p split: bool.splits)
  next
    case True
    then obtain wire q where u: "parse_target (after_scheme (t_base t) @ path) = Some (wire, q)" by auto
    obtain s w2 where s: "sign_request V t w1 (base_headers t body extra) m wire q body = (s, w2)" by fastforce
    have w2: "w_sig w2 = w_sig w" using assms w1 s unfolding keeps_sig_def by (metis snd_conv)
    show ?thesis
    proof (cases s)
      case (Inl e)
      then show ?thesis using True w2 by (simp add: do_request_def c p u s)
    next
      case (Inr h)
      obtain a w3 where a: "send_http V w2 \<lparr>r_method = m, r_path = wire, r_query = q, r_headers = h, r_body = body\<rparr> = (a, w3)"
        by fastforce
      then have "w_sig w3 = w_sig w" using w2 by (auto simp: send_http_def Let_def tick_def)
      then show ?thesis using True Inr a by (simp add: do_request_def c p u s read_answer_sig [OF assms])
    qed
  qed
qed

lemma get_loop_sig:
  assumes "keeps_sig t"
  shows "w_sig (snd (get_loop V t n d w extra path out)) = w_sig w"
proof (induction n arbitrary: d w)
  case 0
  then show ?case using do_request_sig [OF assms, of V w extra "''GET''" path None out]
    by (subst get_loop.simps) (auto split: prod.split sum.split)
next
  case (Suc n)
  obtain x u where d: "do_request V t w extra ''GET'' path None out = (x, u)" by fastforce
  have u: "w_sig u = w_sig w" using do_request_sig [OF assms, of V w extra "''GET''" path None out] d by simp
  show ?case
    using u Suc.IH
    by (subst get_loop.simps)
      (auto simp: d Let_def ctx_done_def draw_def tick_def sleep_def split: prod.split sum.split option.split bool.split)
qed

lemma perform_sig:
  assumes "keeps_sig t"
  shows "w_sig (snd (perform V t w k)) = w_sig w"
  by (simp add: perform_def Let_def Get_def GetPage_def Send_def Get_raw_def split_beta
      get_loop_sig [OF assms] do_request_sig [OF assms] split: verb.split option.split)

lemma Get_sig:
  assumes "keeps_sig t"
  shows "w_sig (snd (Get V t w path q out)) = w_sig w"
  by (simp add: Get_def Get_raw_def split_beta get_loop_sig [OF assms] split: option.split)


definition sample_client :: "'k credential option \<Rightarrow> 'k client" where
  "sample_client cr =
     \<lparr>c_t = local_transport, c_pub = local_transport, c_network = Local, c_cred = cr,
      c_pingEvery = defaultPingEvery, c_pingWait = defaultPingWait\<rparr>"


subsection \<open>What a wallet signs\<close>

text \<open>The curve library as documented: a signature is r, s and a recovery id of 0 or 1, from which
  SigToPub recovers the key.\<close>

definition eth_laws :: "'k eth_lib \<Rightarrow> bool" where
  "eth_laws E = (\<forall>d k sig. el_sign E d k = Some sig \<longrightarrow>
     length sig = 65 \<and> (of_char (sig ! 64) :: nat) < 2 \<and> el_sig_to_hex E d sig = Some (el_pub_hex E k))"

lemma signed_recovers:
  assumes "eth_laws E" "SignHash E k d = Some sig"
  shows "Recover E d sig = Some (Address E k)"
proof -
  obtain s where s: "el_sign E d k = Some s" "sig = add_to_last s 27" using assms(2) by (auto simp: SignHash_def)
  have l: "length s = 65" "(of_char (s ! 64) :: nat) < 2" "el_sig_to_hex E d s = Some (el_pub_hex E k)"
    using assms(1) s(1) unfolding eth_laws_def by blast+
  have v: "(of_char (s ! 64) :: nat) = 0 \<or> (of_char (s ! 64) :: nat) = 1" using l(2) by linarith
  have "sig ! 64 = char_of (27 :: nat) \<or> sig ! 64 = char_of (28 :: nat)" "length sig = 65"
    using v l(1) by (auto simp: s(2) add_to_last_def)
  then show ?thesis
    using l add_to_last_undo [OF l(1,2)] by (simp add: Recover_def Address_def s(2))
qed

text \<open>
  The server's side of a registration, from the body it receives: it rebuilds the digest from
  the fields under its own network's salt, and the signature must recover to the wallet named.
\<close>

definition registration_verifies :: "'k eth_lib \<Rightarrow> nullable_lib \<Rightarrow> int \<Rightarrow> json \<Rightarrow> bool" where
  "registration_verifies E N network body =
     (case decode N registration_t body of
        Inr (VStruct [VString agent, VPtr (VInt expires), label, VInt nonce, VString sig, VString wallet, terms]) \<Rightarrow>
          (case (hex_decode (trim_prefix sig ''0x''),
                 registration_digest E network (address_or_zero agent) expires nonce
                   (case terms of VPtr (VInt v) \<Rightarrow> Some (nat v) | _ \<Rightarrow> None)) of
             (Some s, Some d) \<Rightarrow> Recover E d s = Some wallet
           | _ \<Rightarrow> False)
      | _ \<Rightarrow> False)"

text \<open>And of a revocation, from the headers.\<close>

definition revocation_verifies :: "'k eth_lib \<Rightarrow> int \<Rightarrow> string \<Rightarrow> request \<Rightarrow> bool" where
  "revocation_verifies E network address r =
     (hget (r_headers r) ''X-Wallet-Chain-Id'' = show_nat registerChainID \<and>
      all_digits (hget (r_headers r) ''X-Wallet-Nonce'') \<and>
      (case (hex_decode (trim_prefix (hget (r_headers r) ''X-Wallet-Signature'') ''0x''),
             RevokeAgentKeyDigest E registerChainID (Some (NetworkSalt E (Network_String network)))
               (address_or_zero (hget (r_headers r) ''X-Wallet-Account'')) (address_or_zero address)
               (digits_val (hget (r_headers r) ''X-Wallet-Nonce''))) of
         (Some s, Some d) \<Rightarrow> Recover E d s = Some (hget (r_headers r) ''X-Wallet-Account'')
       | _ \<Rightarrow> False))"

lemma registration_wf: "wf_type registration_t"
  by (rule wf_fast) code_simp

lemma registration_carried:
  assumes "nullable_laws N" "in_int64 expMs" "in_int64 nonce" "\<forall>v. terms = Some v \<longrightarrow> int v \<le> max_uint32"
  shows "carries N registration_t (registration_body agent expMs label nonce sig wallet terms)"
proof (rule typed_carries [OF assms(1) registration_wf])
  show "typed N registration_t (registration_body agent expMs label nonce sig wallet terms)"
    using assms(2-4)
    by (auto simp: registration_t_def AgentRegistrationRequest_t_def registration_body_def empty_val_def encode_number_def
        split: option.split)
qed

lemma hex_of_sig: "hex_decode (trim_prefix (''0x'' @ hex_encode s) ''0x'') = Some s"
  by (rule PathHex)

lemma registration_body_verifies:
  assumes "nullable_laws N" "eth_laws E" "in_int64 expMs" "in_int64 nonce" "\<forall>v. terms = Some v \<longrightarrow> int v \<le> max_uint32"
    and "registration_digest E network (address_or_zero agent) expMs nonce terms = Some d" "SignHash E k d = Some sig"
    and "encode N registration_t (registration_body agent expMs label nonce sig (Address E k) terms) = Some j"
  shows "registration_verifies E N network j"
proof -
  have "decode N registration_t j = Inr (registration_body agent expMs label nonce sig (Address E k) terms)"
    using registration_carried [OF assms(1,3,4,5)] assms(8) unfolding carries_def by (metis option.inject)
  moreover have "(case case terms of None \<Rightarrow> VNil | Some v \<Rightarrow> VPtr (VInt (int v)) of VPtr (VInt v) \<Rightarrow> Some (nat v) | _ \<Rightarrow> None) = terms"
    by (cases terms) simp_all
  ultimately show ?thesis
    using signed_recovers [OF assms(2,7)] assms(6) hex_of_sig [of sig]
    by (simp only: registration_verifies_def registration_body_def sum.case go_val.case list.case) simp
qed

lemma NewAgent_owner:
  "NewAgent E (Some k) owner = Inr a \<Longrightarrow> ag_key a = k \<and> ag_owner a = to_lower owner \<and> ag_signer a = NewSigningAgent E (pk_key k)"
  by (auto simp: NewAgent_def split: option.splits)

lemma to_lower_idem [simp]: "to_lower (to_lower s) = to_lower s"
proof -
  have "lower_char (lower_char c) = lower_char c" for c
  proof (cases "65 \<le> (of_char c :: nat) \<and> (of_char c :: nat) \<le> 90")
    case True
    then have "(of_char (lower_char c) :: nat) = of_char c + 32" by (simp add: lower_char_def Let_def)
    then show ?thesis using True by (simp add: lower_char_def [of "lower_char c"] Let_def)
  qed (auto simp: lower_char_def Let_def)
  then show ?thesis by (simp add: to_lower_def)
qed

text \<open>C25: what RegisterAgent puts on the wire verifies at the server of the client's network: at most
  one request is sent, and from the body it receives, the server recovers the very wallet
  the body names; an agent that is returned trades for that wallet with the given key.
  (The curve library and Nullable behave as documented, terms versions are 32 bits wide.)\<close>

theorem registration_accepted:
  assumes "eth_laws E" "nullable_laws N" "t_signer (c_pub c) = None"
    and "\<forall>v. ro_TermsVersion opts = Some v \<longrightarrow> int v \<le> max_uint32"
    and "RegisterAgent E N V c (Some (newPrivateKey E k)) (Some ag) opts w = (res, w')"
  shows "(\<exists>xs. w_log w' = w_log w @ xs \<and> length xs \<le> 1 \<and>
      (\<forall>(r, a) \<in> set xs. r_method r = ''POST'' \<and>
         (\<exists>j. r_body r = Some (json_print j) \<and> registration_verifies E N (c_network c) j)))
    \<and> (case res of Inl _ \<Rightarrow> True | Inr a \<Rightarrow>
         ag_owner a = Address E k \<and> ag_key a = ag \<and> ag_signer a = NewSigningAgent E (pk_key ag))"
proof -
  let ?now = "e_clock V (w_tick w)"
  let ?exp = "unix_milli (if ro_ExpiresAt opts = zero_time then ?now + defaultAgentTTL else ro_ExpiresAt opts)"
  let ?digest = "registration_digest E (c_network c) (address_or_zero (pk_addr ag)) ?exp (unix_milli ?now) (ro_TermsVersion opts)"
  show ?thesis
  proof (cases "\<exists>d sig. ?digest = Some d \<and> SignHash E k d = Some sig")
    case False
    then have "(\<exists>e. res = Inl e) \<and> w' = tick w"
      using assms(5) by (auto simp: RegisterAgent_def newPrivateKey_def read_clock_def Let_def split: option.splits)
    then show ?thesis by (auto simp: tick_def)
  next
    case True
    then obtain d sig where d: "?digest = Some d" "SignHash E k d = Some sig" by blast
    let ?body = "registration_body (pk_addr ag) ?exp (ro_Label opts) (unix_milli ?now) sig (Address E k) (ro_TermsVersion opts)"
    obtain x u where p: "pub_Send V (c_pub c) (tick w) [] ''POST'' ''/agents/register'' (Some (encode N registration_t ?body))
        (Some (decode N (TStruct [(''expires_at'', False, TInt64)]))) = (x, u)" by fastforce
    have r: "w' = u \<and> (case res of Inl _ \<Rightarrow> True | Inr a \<Rightarrow> (\<exists>e a0. NewAgent E (Some ag) (Address E k) = Inr a0 \<and> a = a0\<lparr>ag_expiresAt := e\<rparr>))"
      using assms(5) d p by (auto simp: RegisterAgent_def newPrivateKey_def read_clock_def Let_def split: sum.splits)
    obtain j where j: "encode N registration_t ?body = Some j"
      using registration_carried [OF assms(2) unix_milli_range unix_milli_range assms(4)] unfolding carries_def by blast
    have "registration_verifies E N (c_network c) j"
      by (rule registration_body_verifies [OF assms(2,1) unix_milli_range unix_milli_range assms(4) d j])
    then have "\<exists>xs. w_log w' = w_log w @ xs \<and> length xs \<le> 1 \<and>
      (\<forall>(r, a) \<in> set xs. r_method r = ''POST'' \<and>
         (\<exists>j. r_body r = Some (json_print j) \<and> registration_verifies E N (c_network c) j))"
      using pub_Send_effect [OF assms(3) p] r j by (fastforce simp: pub_sent_def tick_def)
    moreover have "case res of Inl _ \<Rightarrow> True | Inr a \<Rightarrow>
         ag_owner a = Address E k \<and> ag_key a = ag \<and> ag_signer a = NewSigningAgent E (pk_key ag)"
      using r NewAgent_owner [of E ag "Address E k"] by (auto simp: Address_def split: sum.splits)
    ultimately show ?thesis by blast
  qed
qed

text \<open>A library with one key, which keeps the laws.\<close>

definition one_key_lib :: "unit eth_lib" where
  "one_key_lib =
     \<lparr>el_keccak = sha256, el_to_ecdsa = (\<lambda>_. Some ()), el_from_ecdsa = (\<lambda>_. replicate 32 (CHR ''k'')),
      el_pub_hex = (\<lambda>_. ''0xab''), el_sign = (\<lambda>_ _. Some (replicate 65 (CHR 0x00))),
      el_sig_to_hex = (\<lambda>_ _. Some ''0xab''), el_text_hash = sha256, el_address_hex = (\<lambda>a. a),
      el_hex = (\<lambda>b. b), el_typed_data_hash = (\<lambda>t. Some (sha256 (td_primary t)))\<rparr>"

lemma one_key_laws: "eth_laws one_key_lib"
  by (simp add: eth_laws_def one_key_lib_def)

definition keyless_client :: "unit client" where
  "keyless_client = sample_client None"

lemma keyless_pub: "t_signer (c_pub keyless_client) = None"
  by (simp add: keyless_client_def sample_client_def)

theorem registration_accepted_witness:
  "\<exists>xs. w_log (snd (RegisterAgent one_key_lib sample_nullable (steady_env NetFail) keyless_client
       (Some (newPrivateKey one_key_lib ())) (Some (newPrivateKey one_key_lib ())) zero_options
       (start_world (start_state keyless_client)))) = xs \<and> length xs \<le> 1"
proof -
  let ?w = "start_world (start_state keyless_client)"
  obtain res w' where r: "RegisterAgent one_key_lib sample_nullable (steady_env NetFail) keyless_client
       (Some (newPrivateKey one_key_lib ())) (Some (newPrivateKey one_key_lib ())) zero_options ?w = (res, w')" by fastforce
  have "\<forall>v. ro_TermsVersion zero_options = Some v \<longrightarrow> int v \<le> max_uint32" by (simp add: zero_options_def)
  from registration_accepted [OF one_key_laws sample_nullable_laws keyless_pub this r]
  show ?thesis unfolding r by (auto simp: start_world_def)
qed

text \<open>A revocation's headers verify at the server of the client's network: from them and the
  address in the path, the server recovers the wallet they name.\<close>

lemma revocation_accepted:
  assumes "eth_laws E" "t_signer (c_pub c) = None"
    and "RevokeAgent E V c (Some (newPrivateKey E k)) address w = (res, w')"
  shows "\<exists>xs. w_log w' = w_log w @ xs \<and> length xs \<le> 1 \<and>
    (\<forall>(r, a) \<in> set xs. r_method r = ''DELETE'' \<and> hget (r_headers r) ''X-Wallet-Account'' = Address E k \<and>
       revocation_verifies E (c_network c) address r)"
proof -
  let ?nonce = "uint64 (unix_milli (e_clock V (w_tick w)))"
  let ?digest = "RevokeAgentKeyDigest E registerChainID (Some (NetworkSalt E (Network_String (c_network c))))
      (address_or_zero (Address E k)) (address_or_zero address) ?nonce"
  show ?thesis
  proof (cases "\<exists>d sig. ?digest = Some d \<and> SignHash E k d = Some sig \<and> ParseAddress address \<noteq> None")
    case False
    then have "w' = w \<or> w' = tick w"
      using assms(3)
      by (auto simp: RevokeAgent_def newPrivateKey_def read_clock_def Let_def address_or_zero_def [of address] split: option.splits)
    then show ?thesis by (auto simp: tick_def)
  next
    case True
    then obtain d sig where d: "?digest = Some d" "SignHash E k d = Some sig" "ParseAddress address \<noteq> None" by blast
    let ?h = "wallet_headers (Address E k) ?nonce sig"
    obtain x u where p: "pub_Send V (c_pub c) (tick w) ?h ''DELETE'' (''/agents/'' @ PathEscape address) None
        (None :: (json \<Rightarrow> json_error + go_val) option) = (x, u)" by fastforce
    have r: "w' = u"
      using assms(3) d p by (auto simp: RevokeAgent_def newPrivateKey_def read_clock_def Let_def address_or_zero_def [of address])
    have v: "hget (base_headers (c_pub c) b ?h) ''X-Wallet-Account'' = Address E k"
      "hget (base_headers (c_pub c) b ?h) ''X-Wallet-Nonce'' = show_nat ?nonce"
      "hget (base_headers (c_pub c) b ?h) ''X-Wallet-Signature'' = ''0x'' @ hex_encode sig"
      "hget (base_headers (c_pub c) b ?h) ''X-Wallet-Chain-Id'' = show_nat registerChainID" for b
      by (simp_all add: base_headers_def wallet_headers_def Let_def hset_def hget_def split: option.split)
    have "revocation_verifies E (c_network c) address q" if "r_headers q = base_headers (c_pub c) None ?h" for q
      using d signed_recovers [OF assms(1) d(2)] hex_of_sig [of sig] by (simp add: revocation_verifies_def that v)
    then show ?thesis
      using pub_Send_effect [OF assms(2) p] r v(1) by (fastforce simp: pub_sent_def tick_def)
  qed
qed

end
