(* ===== verification/Conformance.thy ===== *)
theory Conformance
  imports Rest
begin

section \<open>The conformance checker (internal/conformance/check.go)\<close>

text \<open>
  The lane calls SDK methods against a live API and judges each answer against the schema the
  pinned spec declares. A Go map is an association list without duplicate keys, in any order;
  \<open>go_value\<close> is what decoding into an empty interface makes of a JSON value. The checker
  threads its list of findings through every step. A schema may refer to itself through oneOf
  or anyOf, where the code recurses without a bound, so the walk has fuel: None is a run that
  has not returned.
\<close>

fun go_value :: "json \<Rightarrow> json" where
  "go_value (JArr js) = JArr (map go_value js)"
| "go_value (JObj ms) = JObj (fold (\<lambda>(k, v). AList.update k v) (map (\<lambda>(k, v). (k, go_value v)) ms) [])"
| "go_value j = j"

type_synonym go_map = "(string \<times> json) list"

subsection \<open>Findings (check.go)\<close>

datatype severity = Info | Warn | Error

fun severity_rank :: "severity \<Rightarrow> int" where
  "severity_rank Info = 0"
| "severity_rank Warn = 1"
| "severity_rank Error = 2"

fun Severity_String :: "severity \<Rightarrow> string" where
  "Severity_String Info = ''info''"
| "Severity_String Warn = ''warn''"
| "Severity_String Error = ''error''"

record finding =
  fi_Severity :: severity
  fi_Path :: string
  fi_Msg :: string
  fi_N :: nat

fun add_finding :: "severity \<Rightarrow> string \<Rightarrow> string \<Rightarrow> finding list \<Rightarrow> finding list" where
  "add_finding sev path msg [] = [\<lparr>fi_Severity = sev, fi_Path = path, fi_Msg = msg, fi_N = 1\<rparr>]"
| "add_finding sev path msg (f # fs) =
     (if fi_Severity f = sev \<and> fi_Path f = path \<and> fi_Msg f = msg
      then f\<lparr>fi_N := fi_N f + 1\<rparr> # fs else f # add_finding sev path msg fs)"

definition count_sev :: "severity \<Rightarrow> finding list \<Rightarrow> nat" where
  "count_sev sev fs = sum_list (map fi_N (filter (\<lambda>f. fi_Severity f = sev) fs))"

subsection \<open>Schemas (check.go)\<close>

definition maxDepth :: nat where
  "maxDepth = 16"

definition tooDeep :: go_map where
  "tooDeep = [(''x-conformance-too-deep'', JBool True)]"

definition key_map :: "go_map \<Rightarrow> string \<Rightarrow> go_map option" where
  "key_map m k = (case map_of m k of Some (JObj p) \<Rightarrow> Some p | _ \<Rightarrow> None)"

definition key_list :: "go_map \<Rightarrow> string \<Rightarrow> json list option" where
  "key_list m k = (case map_of m k of Some (JArr p) \<Rightarrow> Some p | _ \<Rightarrow> None)"

text \<open>Comparing m[k] with nil.\<close>

definition key_nil :: "go_map \<Rightarrow> string \<Rightarrow> bool" where
  "key_nil m k = (map_of m k = None \<or> map_of m k = Some JNull)"

text \<open>The merge of the parts of an allOf: of other keys the first part counts, properties are
  united with the last counting, and required names add up.\<close>

definition merge_parts :: "go_map list \<Rightarrow> go_map" where
  "merge_parts parts =
     (let out = fold (fold (\<lambda>(k, v) out. if map_of out k = None \<and> k \<noteq> ''allOf'' then out @ [(k, v)] else out)) parts [];
          props = fold (\<lambda>f props. case key_map f ''properties'' of
                      Some p \<Rightarrow> fold (\<lambda>(k, v). AList.update k v) p props | None \<Rightarrow> props) parts [];
          required = concat (map (\<lambda>f. case key_list f ''required'' of Some r \<Rightarrow> r | None \<Rightarrow> []) parts);
          out = (if props \<noteq> [] then AList.update ''properties'' (JObj props) out else out)
      in if required \<noteq> [] then AList.update ''required'' (JArr required) out else out)"

text \<open>None is the nil map.\<close>

function flatten :: "go_map \<Rightarrow> json \<Rightarrow> nat \<Rightarrow> go_map option" where
  "flatten S s depth =
     (case s of
        JObj m \<Rightarrow>
          if depth > maxDepth then Some tooDeep
          else
            (case map_of m ''$ref'' of
               Some (JStr ref) \<Rightarrow>
                 (case map_of S (trim_prefix ref ''#/components/schemas/'') of
                    None \<Rightarrow> None
                  | Some t \<Rightarrow> flatten S t (Suc depth))
             | _ \<Rightarrow>
                 (case key_list m ''allOf'' of
                    None \<Rightarrow> Some m
                  | Some bs \<Rightarrow>
                      Some (merge_parts (m # map (\<lambda>b. case flatten S b (Suc depth) of None \<Rightarrow> [] | Some f \<Rightarrow> f) bs))))
      | _ \<Rightarrow> None)"
  by pat_completeness auto

termination
  by (relation "measure (\<lambda>(S, s, depth). Suc maxDepth - depth)") auto

declare flatten.simps [simp del]

definition schema_types :: "go_map \<Rightarrow> string list" where
  "schema_types m =
     (case map_of m ''type'' of
        Some (JStr t) \<Rightarrow> [t]
      | Some (JArr ts) \<Rightarrow> remdups (List.map_filter (\<lambda>t. case t of JStr s \<Rightarrow> Some s | _ \<Rightarrow> None) ts)
      | _ \<Rightarrow> [])"

definition branches :: "go_map \<Rightarrow> json list" where
  "branches m =
     (case key_list m ''oneOf'' of
        Some b \<Rightarrow> b
      | None \<Rightarrow> (case key_list m ''anyOf'' of Some b \<Rightarrow> b | None \<Rightarrow> []))"

fun any_opt :: "('a \<Rightarrow> bool option) \<Rightarrow> 'a list \<Rightarrow> bool option" where
  "any_opt f [] = Some False"
| "any_opt f (x # xs) = (case f x of None \<Rightarrow> None | Some b \<Rightarrow> if b then Some True else any_opt f xs)"

fun nullable :: "nat \<Rightarrow> go_map \<Rightarrow> go_map \<Rightarrow> bool option" where
  "nullable 0 S m = None"
| "nullable (Suc n) S m =
     (if ''null'' \<in> set (schema_types m) then Some True
      else any_opt (\<lambda>b. case flatten S b 0 of None \<Rightarrow> Some False | Some f \<Rightarrow> nullable n S f) (branches m))"

fun kind :: "json \<Rightarrow> string" where
  "kind (JStr s) = ''string''"
| "kind (JNum s) = (if set s \<inter> {CHR ''.'', CHR ''e'', CHR ''E''} \<noteq> {} then ''number'' else ''integer'')"
| "kind (JBool b) = ''boolean''"
| "kind (JObj m) = ''object''"
| "kind (JArr a) = ''array''"
| "kind JNull = ''null''"

definition join_path :: "string \<Rightarrow> string \<Rightarrow> string" where
  "join_path path key = (if path = [] \<or> key = ''[]'' then path @ key else path @ CHR ''.'' # key)"

subsection \<open>The walk (check.go)\<close>

fun fold_opt :: "('a \<Rightarrow> 's \<Rightarrow> 's option) \<Rightarrow> 'a list \<Rightarrow> 's \<Rightarrow> 's option" where
  "fold_opt f [] s = Some s"
| "fold_opt f (x # xs) s = (case f x s of None \<Rightarrow> None | Some s \<Rightarrow> fold_opt f xs s)"

type_synonym walker = "string \<Rightarrow> json \<Rightarrow> json \<Rightarrow> finding list \<Rightarrow> finding list option"

text \<open>The schema a member of an object is checked against, and the path it is reported at.\<close>

definition member_schema :: "go_map \<Rightarrow> string \<Rightarrow> (string \<times> json) option" where
  "member_schema m k =
     (case map_of (case key_map m ''properties'' of Some p \<Rightarrow> p | None \<Rightarrow> []) k of
        Some p \<Rightarrow> Some (k, p)
      | None \<Rightarrow> map_option (\<lambda>extra. (''{}'', JObj extra)) (key_map m ''additionalProperties''))"

definition undeclared :: "go_map \<Rightarrow> bool" where
  "undeclared m = (key_map m ''properties'' \<noteq> None \<and> key_nil m ''additionalProperties'')"

definition required_names :: "go_map \<Rightarrow> string list" where
  "required_names m =
     (case key_list m ''required'' of
        None \<Rightarrow> []
      | Some rs \<Rightarrow> List.map_filter (\<lambda>r. case r of JStr s \<Rightarrow> if s \<noteq> [] then Some s else None | _ \<Rightarrow> None) rs)"

definition walk_object :: "walker \<Rightarrow> string \<Rightarrow> go_map \<Rightarrow> go_map \<Rightarrow> finding list \<Rightarrow> finding list option" where
  "walk_object walk path m v c =
     (let c = fold (\<lambda>name c. if map_of v name = None
                then add_finding Error (join_path path name) ''absent, but the contract requires it'' c else c)
              (required_names m) c
      in fold_opt (\<lambda>k c.
           case member_schema m k of
             Some (at_key, p) \<Rightarrow> walk (join_path path at_key) p (the (map_of v k)) c
           | None \<Rightarrow>
               Some (if undeclared m then add_finding Warn (join_path path k) ''served, but the contract does not declare it'' c
                     else c))
           (sort (map fst v)) c)"

definition walk_array :: "walker \<Rightarrow> string \<Rightarrow> go_map \<Rightarrow> json list \<Rightarrow> finding list \<Rightarrow> finding list option" where
  "walk_array walk path m v c =
     (let c = (if v = [] \<and> path \<noteq> [] then add_finding Info path ''empty array, so its items were not measured'' c else c)
      in case key_list m ''prefixItems'' of
           Some prefix \<Rightarrow>
             fold_opt (\<lambda>(i, e) c.
               if i < length prefix then walk (path @ ''['' @ show_nat i @ '']'') (prefix ! i) e c else Some c)
               (enumerate 0 v) c
         | None \<Rightarrow>
             fold_opt (\<lambda>e c. walk (join_path path ''[]'') (case map_of m ''items'' of None \<Rightarrow> JNull | Some s \<Rightarrow> s) e c) v c)"

definition null_only :: "go_map \<Rightarrow> json \<Rightarrow> bool" where
  "null_only S b = (case flatten S b 0 of None \<Rightarrow> False | Some f \<Rightarrow> schema_types f = [''null''])"

definition better :: "finding list \<Rightarrow> finding list \<Rightarrow> bool" where
  "better try best =
     (count_sev Error try < count_sev Error best \<or>
      count_sev Error try = count_sev Error best \<and> count_sev Warn try < count_sev Warn best)"

definition walk_branches :: "walker \<Rightarrow> go_map \<Rightarrow> string \<Rightarrow> json list \<Rightarrow> json \<Rightarrow> finding list \<Rightarrow> finding list option" where
  "walk_branches walk S path bs v c =
     (case fold_opt (\<lambda>b best.
             if null_only S b then Some best
             else (case walk path b v [] of
                     None \<Rightarrow> None
                   | Some try \<Rightarrow>
                       Some (case best of None \<Rightarrow> Some try | Some x \<Rightarrow> Some (if better try x then try else x)))) bs None of
        None \<Rightarrow> None
      | Some None \<Rightarrow> Some (add_finding Error path ''a value, but the contract declares only null'' c)
      | Some (Some best) \<Rightarrow>
          Some (fold (\<lambda>f. (add_finding (fi_Severity f) (fi_Path f) (fi_Msg f)) ^^ fi_N f) best c))"

definition type_ok :: "go_map \<Rightarrow> json \<Rightarrow> bool" where
  "type_ok m v =
     (schema_types m = [] \<or> kind v \<in> set (schema_types m) \<or> kind v = ''integer'' \<and> ''number'' \<in> set (schema_types m))"

fun join_or :: "string list \<Rightarrow> string" where
  "join_or [] = []"
| "join_or [s] = s"
| "join_or (s # ss) = s @ '' or '' @ join_or ss"

definition type_message :: "go_map \<Rightarrow> json \<Rightarrow> string" where
  "type_message m v =
     ''is '' @ kind v @ ''; the contract declares '' @
     join_or (sort (filter (\<lambda>t. t \<noteq> ''null'') (schema_types m)))"

fun walk :: "nat \<Rightarrow> go_map \<Rightarrow> walker" where
  "walk 0 S path s v c = None"
| "walk (Suc n) S path s v c =
     (case flatten S s 0 of
        None \<Rightarrow> Some c
      | Some m \<Rightarrow>
          if m = [] then Some c
          else if \<not> key_nil m ''x-conformance-too-deep'' then
            Some (add_finding Warn path
              (''schema nests deeper than '' @ show_nat maxDepth @ '' levels, so this part was not checked'') c)
          else if v = JNull then
            map_option (\<lambda>b.
              if b then add_finding Info path ''null, which the contract permits'' c
              else add_finding Error path ''null, but the contract declares it non-nullable'' c) (nullable n S m)
          else if branches m \<noteq> [] then walk_branches (walk n S) S path (branches m) v c
          else if \<not> type_ok m v then Some (add_finding Error path (type_message m v) c)
          else
            (case v of
               JObj o' \<Rightarrow> walk_object (walk n S) path m o' c
             | JArr a \<Rightarrow> walk_array (walk n S) path m a c
             | _ \<Rightarrow> Some c))"

text \<open>How many items there were to measure.\<close>

definition count_items :: "go_map \<Rightarrow> json \<Rightarrow> json \<Rightarrow> nat" where
  "count_items S schema v =
     (case v of
        JArr a \<Rightarrow> length a
      | JObj ms \<Rightarrow>
          (case flatten S schema 0 of
             Some m \<Rightarrow> if \<not> key_nil m ''properties'' \<and> ms \<noteq> [] then 1 else length ms
           | None \<Rightarrow> length ms)
      | JNull \<Rightarrow> 0
      | _ \<Rightarrow> 1)"

definition Check :: "nat \<Rightarrow> go_map \<Rightarrow> json \<Rightarrow> string \<Rightarrow> (nat \<times> finding list) option" where
  "Check n S schema body =
     (case decode_first body of
        Inl e \<Rightarrow> Some (0, add_finding Error [] ''response is not JSON'' [])
      | Inr (j, rest) \<Rightarrow>
          map_option (\<lambda>out. (count_items S schema (go_value j),
            sort_key (\<lambda>f. - severity_rank (fi_Severity f)) (sort_key fi_Path out)))
            (walk n S [] schema (go_value j) []))"

subsection \<open>What the walk decides\<close>

text \<open>
  The contract, without findings or order: which values a schema admits. A schema that is
  empty, unresolved or nested too deep promises nothing; null needs a nullable schema; a
  value of a oneOf or anyOf needs one branch that admits it; any other value needs a
  declared type, and its members or elements the schema declared for them.
\<close>

inductive nullable_schema :: "go_map \<Rightarrow> go_map \<Rightarrow> bool" for S where
  here: "''null'' \<in> set (schema_types m) \<Longrightarrow> nullable_schema S m"
| branch: "b \<in> set (branches m) \<Longrightarrow> flatten S b 0 = Some f \<Longrightarrow> nullable_schema S f \<Longrightarrow> nullable_schema S m"

definition promises :: "go_map \<Rightarrow> json \<Rightarrow> go_map option" where
  "promises S s =
     (case flatten S s 0 of
        None \<Rightarrow> None
      | Some m \<Rightarrow> if m = [] \<or> \<not> key_nil m ''x-conformance-too-deep'' then None else Some m)"

text \<open>The schema of the element at position i.\<close>

definition element_schema :: "go_map \<Rightarrow> nat \<Rightarrow> json option" where
  "element_schema m i =
     (case key_list m ''prefixItems'' of
        Some prefix \<Rightarrow> if i < length prefix then Some (prefix ! i) else None
      | None \<Rightarrow> Some (case map_of m ''items'' of None \<Rightarrow> JNull | Some s \<Rightarrow> s))"

inductive conforms :: "go_map \<Rightarrow> json \<Rightarrow> json \<Rightarrow> bool" for S where
  free: "promises S s = None \<Longrightarrow> conforms S s v"
| null: "promises S s = Some m \<Longrightarrow> nullable_schema S m \<Longrightarrow> conforms S s JNull"
| one: "promises S s = Some m \<Longrightarrow> v \<noteq> JNull \<Longrightarrow> b \<in> set (branches m) \<Longrightarrow> \<not> null_only S b \<Longrightarrow> conforms S b v
    \<Longrightarrow> conforms S s v"
| scalar: "promises S s = Some m \<Longrightarrow> branches m = [] \<Longrightarrow> type_ok m v \<Longrightarrow> kind v \<notin> {''null'', ''object'', ''array''}
    \<Longrightarrow> conforms S s v"
| object: "promises S s = Some m \<Longrightarrow> branches m = [] \<Longrightarrow> type_ok m (JObj ms) \<Longrightarrow>
    \<forall>name \<in> set (required_names m). map_of ms name \<noteq> None \<Longrightarrow>
    \<forall>k \<in> fst ` set ms. \<forall>q p. member_schema m k = Some (q, p) \<longrightarrow> conforms S p (the (map_of ms k))
    \<Longrightarrow> conforms S s (JObj ms)"
| elements: "promises S s = Some m \<Longrightarrow> branches m = [] \<Longrightarrow> type_ok m (JArr vs) \<Longrightarrow>
    \<forall>i < length vs. \<forall>p. element_schema m i = Some p \<longrightarrow> conforms S p (vs ! i)
    \<Longrightarrow> conforms S s (JArr vs)"

inductive_simps nullable_schema_iff: "nullable_schema S m"
inductive_cases conformsE: "conforms S s v"

abbreviation errs :: "finding list \<Rightarrow> nat" where
  "errs c \<equiv> count_sev Error c"

lemma errs_simps [simp]: "errs [] = 0" "errs (f # fs) = (if fi_Severity f = Error then fi_N f else 0) + errs fs"
  by (simp_all add: count_sev_def)

lemma errs_add [simp]: "errs (add_finding sev path msg c) = errs c + (if sev = Error then 1 else 0)"
  by (induction sev path msg c rule: add_finding.induct) auto

lemma errs_add_pow [simp]: "errs ((add_finding sev path msg ^^ n) c) = errs c + (if sev = Error then n else 0)"
  by (induction n) auto

lemma errs_merge:
  "errs (fold (\<lambda>f. (add_finding (fi_Severity f) (fi_Path f) (fi_Msg f)) ^^ fi_N f) best c) = errs c + errs best"
  by (induction best arbitrary: c) auto

lemma any_opt_true:
  assumes "any_opt f xs = Some b" "\<And>x y. x \<in> set xs \<Longrightarrow> f x = Some y \<Longrightarrow> y = P x"
  shows "b \<longleftrightarrow> (\<exists>x \<in> set xs. P x)"
  using assms
proof (induction xs)
  case (Cons x xs)
  then obtain y where y: "f x = Some y" by (auto split: option.splits)
  then have "y = P x" using Cons.prems(2) by simp
  then show ?case using Cons y by (cases y) auto
qed simp

lemma nullable_exact: "nullable n S m = Some b \<Longrightarrow> b \<longleftrightarrow> nullable_schema S m"
proof (induction n arbitrary: m b)
  case (Suc n)
  show ?case
  proof (cases "''null'' \<in> set (schema_types m)")
    case True
    then show ?thesis using Suc.prems by (auto intro: nullable_schema.here)
  next
    case False
    let ?P = "\<lambda>b. \<exists>f. flatten S b 0 = Some f \<and> nullable_schema S f"
    have a: "any_opt (\<lambda>b. case flatten S b 0 of None \<Rightarrow> Some False | Some f \<Rightarrow> nullable n S f) (branches m) = Some b"
      using False Suc.prems by simp
    have "b \<longleftrightarrow> (\<exists>x \<in> set (branches m). ?P x)"
      by (rule any_opt_true [OF a]) (auto split: option.splits simp: Suc.IH)
    then show ?thesis using False by (subst nullable_schema_iff) auto
  qed
qed simp

lemma fold_opt_errs:
  assumes "\<And>x c c'. x \<in> set xs \<Longrightarrow> f x c = Some c' \<Longrightarrow> errs c \<le> errs c' \<and> (errs c' = errs c \<longleftrightarrow> P x)"
    and "fold_opt f xs c = Some c'"
  shows "errs c \<le> errs c' \<and> (errs c' = errs c \<longleftrightarrow> (\<forall>x \<in> set xs. P x))"
  using assms
proof (induction xs arbitrary: c)
  case (Cons x xs)
  then obtain d where d: "f x c = Some d" "fold_opt f xs d = Some c'" by (auto split: option.splits)
  have "errs c \<le> errs d \<and> (errs d = errs c \<longleftrightarrow> P x)" using Cons.prems(1) [OF _ d(1)] by simp
  moreover have "errs d \<le> errs c' \<and> (errs c' = errs d \<longleftrightarrow> (\<forall>x \<in> set xs. P x))"
    by (rule Cons.IH [OF _ d(2)]) (rule Cons.prems(1), simp_all)
  ultimately show ?case by auto
qed simp

lemma required_errs:
  "errs (fold (\<lambda>name c. if map_of v name = None then add_finding Error (p name) msg c else c) names c)
     = errs c + length (filter (\<lambda>name. map_of v name = None) names)"
  by (induction names arbitrary: c) auto

text \<open>A walker that is right about the parts makes the walk right about the whole.\<close>

definition right_walker :: "go_map \<Rightarrow> walker \<Rightarrow> bool" where
  "right_walker S wk = (\<forall>path s v c c'. wk path s v c = Some c' \<longrightarrow>
     errs c \<le> errs c' \<and> (errs c' = errs c \<longleftrightarrow> conforms S s v))"

lemma walk_object_errs:
  assumes "right_walker S wk" "walk_object wk path m v c = Some c'"
  shows "errs c \<le> errs c' \<and> (errs c' = errs c \<longleftrightarrow>
    (\<forall>name \<in> set (required_names m). map_of v name \<noteq> None) \<and>
    (\<forall>k \<in> fst ` set v. \<forall>q p. member_schema m k = Some (q, p) \<longrightarrow> conforms S p (the (map_of v k))))"
proof -
  let ?c = "fold (\<lambda>name c. if map_of v name = None
      then add_finding Error (join_path path name) ''absent, but the contract requires it'' c else c) (required_names m) c"
  let ?P = "\<lambda>k. \<forall>q p. member_schema m k = Some (q, p) \<longrightarrow> conforms S p (the (map_of v k))"
  have "errs ?c \<le> errs c' \<and> (errs c' = errs ?c \<longleftrightarrow> (\<forall>k \<in> set (sort (map fst v)). ?P k))"
    using assms(2) unfolding walk_object_def Let_def
    by (rule fold_opt_errs [rotated]) (use assms(1) in \<open>auto simp: right_walker_def split: option.splits\<close>)
  moreover have "errs ?c = errs c \<longleftrightarrow> (\<forall>name \<in> set (required_names m). map_of v name \<noteq> None)" "errs c \<le> errs ?c"
    by (auto simp: required_errs filter_empty_conv)
  ultimately show ?thesis by auto
qed

lemma walk_array_errs:
  assumes "right_walker S wk" "walk_array wk path m v c = Some c'"
  shows "errs c \<le> errs c' \<and> (errs c' = errs c \<longleftrightarrow>
    (\<forall>i < length v. \<forall>p. element_schema m i = Some p \<longrightarrow> conforms S p (v ! i)))"
proof -
  let ?c = "if v = [] \<and> path \<noteq> [] then add_finding Info path ''empty array, so its items were not measured'' c else c"
  have c: "errs ?c = errs c" by simp
  show ?thesis
  proof (cases "key_list m ''prefixItems''")
    case None
    let ?s = "case map_of m ''items'' of None \<Rightarrow> JNull | Some s \<Rightarrow> s"
    have "fold_opt (\<lambda>e c. wk (join_path path ''[]'') ?s e c) v ?c = Some c'"
      using assms(2) None by (simp add: walk_array_def)
    then have "errs ?c \<le> errs c' \<and> (errs c' = errs ?c \<longleftrightarrow> (\<forall>e \<in> set v. conforms S ?s e))"
      by (rule fold_opt_errs [rotated]) (use assms(1) in \<open>auto simp: right_walker_def\<close>)
    then show ?thesis unfolding c by (simp add: element_schema_def None all_set_conv_all_nth)
  next
    case (Some prefix)
    let ?P = "\<lambda>(i, e). i < length prefix \<longrightarrow> conforms S (prefix ! i) e"
    have "fold_opt (\<lambda>(i, e) c. if i < length prefix then wk (path @ ''['' @ show_nat i @ '']'') (prefix ! i) e c else Some c)
        (enumerate 0 v) ?c = Some c'"
      using assms(2) Some by (simp add: walk_array_def)
    then have "errs ?c \<le> errs c' \<and> (errs c' = errs ?c \<longleftrightarrow> (\<forall>x \<in> set (enumerate 0 v). ?P x))"
      by (rule fold_opt_errs [rotated]) (use assms(1) in \<open>auto simp: right_walker_def split: if_splits\<close>)
    moreover have "(\<forall>x \<in> set (enumerate 0 v). ?P x) \<longleftrightarrow> (\<forall>i < length v. i < length prefix \<longrightarrow> conforms S (prefix ! i) (v ! i))"
      by (auto simp: in_set_enumerate_eq)
    ultimately show ?thesis unfolding c by (auto simp: element_schema_def Some)
  qed
qed

lemma best_errs:
  assumes "right_walker S wk"
    and "fold_opt (\<lambda>b best. if null_only S b then Some best
           else (case wk path b v [] of None \<Rightarrow> None
                 | Some try \<Rightarrow> Some (case best of None \<Rightarrow> Some try | Some x \<Rightarrow> Some (if better try x then try else x)))) bs best = Some res"
  shows "(\<exists>x. res = Some x \<and> errs x = 0) \<longleftrightarrow>
    (\<exists>x. best = Some x \<and> errs x = 0) \<or> (\<exists>b \<in> set bs. \<not> null_only S b \<and> conforms S b v)"
  using assms(2)
proof (induction bs arbitrary: best)
  case (Cons b bs)
  show ?case
  proof (cases "null_only S b")
    case True
    then show ?thesis using Cons by simp
  next
    case False
    then obtain t where t: "wk path b v [] = Some t" using Cons.prems by (auto split: option.splits)
    let ?n = "case best of None \<Rightarrow> Some t | Some x \<Rightarrow> Some (if better t x then t else x)"
    have f: "fold_opt (\<lambda>b best. if null_only S b then Some best
           else (case wk path b v [] of None \<Rightarrow> None
                 | Some try \<Rightarrow> Some (case best of None \<Rightarrow> Some try | Some x \<Rightarrow> Some (if better try x then try else x)))) bs ?n = Some res"
      using Cons.prems False t by simp
    have "errs t = errs [] \<longleftrightarrow> conforms S b v" using assms(1) t unfolding right_walker_def by blast
    then have "(\<exists>x. ?n = Some x \<and> errs x = 0) \<longleftrightarrow> (\<exists>x. best = Some x \<and> errs x = 0) \<or> conforms S b v"
      by (auto simp: better_def split: option.split)
    then show ?thesis using Cons.IH [OF f] False by simp
  qed
qed simp

lemma walk_branches_errs:
  assumes "right_walker S wk" "walk_branches wk S path bs v c = Some c'"
  shows "errs c \<le> errs c' \<and> (errs c' = errs c \<longleftrightarrow> (\<exists>b \<in> set bs. \<not> null_only S b \<and> conforms S b v))"
proof -
  let ?f = "\<lambda>b best. if null_only S b then Some best
           else (case wk path b v [] of None \<Rightarrow> None
                 | Some try \<Rightarrow> Some (case best of None \<Rightarrow> Some try | Some x \<Rightarrow> Some (if better try x then try else x)))"
  obtain res where r: "fold_opt ?f bs None = Some res" using assms(2) by (auto simp: walk_branches_def split: option.splits)
  have e: "(\<exists>x. res = Some x \<and> errs x = 0) \<longleftrightarrow> (\<exists>b \<in> set bs. \<not> null_only S b \<and> conforms S b v)"
    using best_errs [OF assms(1) r] by simp
  show ?thesis
  proof (cases res)
    case None
    then have "c' = add_finding Error path ''a value, but the contract declares only null'' c"
      using assms(2) r by (simp add: walk_branches_def)
    then show ?thesis using e None by simp
  next
    case (Some best)
    then have "errs c' = errs c + errs best" using assms(2) r errs_merge by (auto simp: walk_branches_def)
    then show ?thesis using e Some by simp
  qed
qed

lemma kind_num: "kind (JNum s) = ''number'' \<or> kind (JNum s) = ''integer''"
  by simp

lemma walk_right: "right_walker S (walk n S)"
proof (induction n)
  case 0
  show ?case by (simp add: right_walker_def)
next
  case (Suc n)
  have "errs c \<le> errs c' \<and> (errs c' = errs c \<longleftrightarrow> conforms S s v)" if w: "walk (Suc n) S path s v c = Some c'" for path s v c c'
  proof (cases "promises S s")
    case None
    then have "errs c' = errs c" using w by (auto simp: promises_def split: option.splits if_splits)
    then show ?thesis using conforms.free [OF None] by simp
  next
    case (Some m)
    then have m: "flatten S s 0 = Some m" "m \<noteq> []" "key_nil m ''x-conformance-too-deep''"
      by (auto simp: promises_def split: option.splits if_splits)
    consider "v = JNull" | "v \<noteq> JNull" "branches m \<noteq> []" | "v \<noteq> JNull" "branches m = []" "\<not> type_ok m v"
      | "v \<noteq> JNull" "branches m = []" "type_ok m v" by blast
    then show ?thesis
    proof cases
      case 1
      then obtain b where b: "nullable n S m = Some b"
        "c' = (if b then add_finding Info path ''null, which the contract permits'' c
               else add_finding Error path ''null, but the contract declares it non-nullable'' c)"
        using w m by auto
      have "conforms S s JNull \<longleftrightarrow> nullable_schema S m"
        using Some by (subst conforms.simps) auto
      then show ?thesis using 1 b nullable_exact [OF b(1)] by simp
    next
      case 2
      have "conforms S s v \<longleftrightarrow> (\<exists>b \<in> set (branches m). \<not> null_only S b \<and> conforms S b v)"
        using Some 2 by (subst conforms.simps) auto
      then show ?thesis using walk_branches_errs [OF Suc.IH] w m 2 by simp
    next
      case 3
      have "\<not> conforms S s v" using Some 3 by (subst conforms.simps) auto
      then show ?thesis using w m 3 by auto
    next
      case 4
      show ?thesis
      proof (cases v)
        case (JObj ms)
        have "conforms S s v \<longleftrightarrow> (\<forall>name \<in> set (required_names m). map_of ms name \<noteq> None) \<and>
            (\<forall>k \<in> fst ` set ms. \<forall>q p. member_schema m k = Some (q, p) \<longrightarrow> conforms S p (the (map_of ms k)))"
          unfolding JObj using Some 4 JObj by (subst conforms.simps) auto
        then show ?thesis using walk_object_errs [OF Suc.IH] w m 4 JObj by simp
      next
        case (JArr vs)
        have "conforms S s v \<longleftrightarrow> (\<forall>i < length vs. \<forall>p. element_schema m i = Some p \<longrightarrow> conforms S p (vs ! i))"
          unfolding JArr using Some 4 JArr by (subst conforms.simps) auto
        then show ?thesis using walk_array_errs [OF Suc.IH] w m 4 JArr by simp
      next
        case (JNum x)
        have "kind (JNum x) \<notin> {''null'', ''object'', ''array''}" using kind_num [of x] by auto
        then have "conforms S s v" using conforms.scalar [OF Some] 4 JNum by blast
        then show ?thesis using w m 4 JNum by auto
      qed (use Some 4 w m in \<open>auto intro!: conforms.scalar [OF Some]\<close>)
    qed
  qed
  then show ?case unfolding right_walker_def by blast
qed

text \<open>C12: whatever the answer and the spec, a Check that returns reports an error exactly when the
  body is no JSON or its value does not conform to the declared schema; errors come first
  in what it returns.\<close>

theorem Check_decides_conformance:
  assumes "Check n S schema body = Some (items, out)"
  shows "((\<exists>f \<in> set out. fi_Severity f = Error \<and> fi_N f > 0) \<longleftrightarrow>
      (case decode_first body of Inl e \<Rightarrow> True | Inr (j, rest) \<Rightarrow> \<not> conforms S schema (go_value j)))
    \<and> sorted_wrt (\<lambda>f g. severity_rank (fi_Severity g) \<le> severity_rank (fi_Severity f)) out"
proof (cases "decode_first body")
  case (Inl e)
  then show ?thesis using assms by (auto simp: Check_def)
next
  case (Inr p)
  obtain j rest where p: "decode_first body = Inr (j, rest)" using Inr by (cases p) auto
  obtain c where w: "walk n S [] schema (go_value j) [] = Some c"
    and out: "out = sort_key (\<lambda>f. - severity_rank (fi_Severity f)) (sort_key fi_Path c)"
    using assms p by (auto simp: Check_def)
  have "errs c = 0 \<longleftrightarrow> conforms S schema (go_value j)"
    using walk_right [of S n] w unfolding right_walker_def by fastforce
  moreover have "errs c = 0 \<longleftrightarrow> \<not> (\<exists>f \<in> set out. fi_Severity f = Error \<and> fi_N f > 0)"
    by (auto simp: out count_sev_def sum_list_eq_0_iff)
  moreover have "sorted (map (\<lambda>f. - severity_rank (fi_Severity f)) out)" by (simp add: out)
  then have "sorted_wrt (\<lambda>f g. severity_rank (fi_Severity g) \<le> severity_rank (fi_Severity f)) out"
    by (simp add: sorted_wrt_map)
  ultimately show ?thesis using p by auto
qed

theorem Check_decides_conformance_witness:
  "\<not> conforms [] (JObj [(''type'', JStr ''string'')]) (JNum ''3'')"
proof -
  have c: "Check 1 [] (JObj [(''type'', JStr ''string'')]) ''3'' =
      Some (1, [\<lparr>fi_Severity = Error, fi_Path = [], fi_Msg = ''is integer; the contract declares string'', fi_N = 1\<rparr>])"
    by code_simp
  have d: "decode_first ''3'' = Inr (JNum ''3'', [TEnd])" by code_simp
  from Check_decides_conformance [OF c] show ?thesis by (simp add: d)
qed

subsection \<open>Returning\<close>

text \<open>A schema whose oneOf and anyOf branches, followed through references, come to an end.\<close>

inductive ends :: "go_map \<Rightarrow> json \<Rightarrow> bool" for S where
  "(\<And>m b. flatten S s 0 = Some m \<Longrightarrow> b \<in> set (branches m) \<Longrightarrow> ends S b) \<Longrightarrow> ends S s"

inductive_cases endsE: "ends S s"

text \<open>The schemas the parts of a value are checked against.\<close>

definition part_schemas :: "go_map \<Rightarrow> json set" where
  "part_schemas m = set (branches m) \<union> {p. \<exists>k q. member_schema m k = Some (q, p)} \<union> {p. \<exists>i. element_schema m i = Some p}"

definition walkable :: "go_map \<Rightarrow> json set \<Rightarrow> bool" where
  "walkable S G = (\<forall>s \<in> G. ends S s \<and> (\<forall>m. flatten S s 0 = Some m \<longrightarrow> part_schemas m \<subseteq> G))"

definition finishes :: "'a option \<Rightarrow> bool" where
  "finishes x = (x \<noteq> None)"

lemma finishes_simps [simp]: "finishes (Some x)" "\<not> finishes None" "finishes (map_option f z) = finishes z"
  by (simp_all add: finishes_def)

lemma finishesE: "finishes x \<Longrightarrow> (\<And>y. x = Some y \<Longrightarrow> P) \<Longrightarrow> P"
  by (auto simp: finishes_def)

lemma any_opt_finishes: "(\<And>x. x \<in> set xs \<Longrightarrow> finishes (f x)) \<Longrightarrow> finishes (any_opt f xs)"
proof (induction xs)
  case (Cons x xs)
  have "finishes (f x)" by (rule Cons.prems) simp
  then obtain y where "f x = Some y" by (rule finishesE)
  then show ?case using Cons by simp
qed simp

lemma fold_opt_finishes: "(\<And>x c. x \<in> set xs \<Longrightarrow> finishes (f x c)) \<Longrightarrow> finishes (fold_opt f xs c)"
proof (induction xs arbitrary: c)
  case (Cons x xs)
  have "finishes (f x c)" by (rule Cons.prems) simp
  then obtain d where "f x c = Some d" by (rule finishesE)
  then show ?case using Cons by simp
qed simp

lemma uniform_fuel:
  assumes "finite X" "\<And>x. x \<in> X \<Longrightarrow> \<exists>n :: nat. \<forall>k \<ge> n. P x k"
  shows "\<exists>n. \<forall>k \<ge> n. \<forall>x \<in> X. P x k"
  using assms
proof (induction X)
  case (insert x X)
  obtain a where "\<forall>k \<ge> a. P x k" using insert.prems [of x] by auto
  moreover obtain b where "\<forall>k \<ge> b. \<forall>x \<in> X. P x k" using insert by auto
  ultimately show ?case by (intro exI [of _ "max a b"]) auto
qed simp

lemma nullable_returns:
  assumes "ends S s" "flatten S s 0 = Some m"
  shows "\<exists>n. \<forall>k \<ge> n. finishes (nullable k S m)"
  using assms
proof (induction arbitrary: m)
  case (1 s)
  have "\<exists>n. \<forall>k \<ge> n. finishes (case flatten S b 0 of None \<Rightarrow> Some False | Some f \<Rightarrow> nullable k S f)"
    if "b \<in> set (branches m)" for b
    using 1 that by (cases "flatten S b 0") auto
  then obtain n where n: "\<forall>k \<ge> n. \<forall>b \<in> set (branches m).
      finishes (case flatten S b 0 of None \<Rightarrow> Some False | Some f \<Rightarrow> nullable k S f)"
    using uniform_fuel [of "set (branches m)" "\<lambda>b k. finishes (case flatten S b 0 of None \<Rightarrow> Some False | Some f \<Rightarrow> nullable k S f)"]
    by auto
  have "finishes (nullable k S m)" if k: "k \<ge> Suc n" for k
  proof -
    obtain k' where k': "k = Suc k'" "k' \<ge> n" using k by (cases k) auto
    have "finishes (any_opt (\<lambda>b. case flatten S b 0 of None \<Rightarrow> Some False | Some f \<Rightarrow> nullable k' S f) (branches m))"
      by (rule any_opt_finishes) (use n k'(2) in blast)
    then show ?thesis by (simp add: k'(1))
  qed
  then show ?case by blast
qed

text \<open>The walk of v against s returns with fuel k, wherever it is reported.\<close>

definition returns :: "walker \<Rightarrow> json \<Rightarrow> json \<Rightarrow> bool" where
  "returns wk s v = (\<forall>path c. finishes (wk path s v c))"

lemma branches_return:
  assumes "\<And>b. b \<in> set bs \<Longrightarrow> returns wk b v"
  shows "finishes (walk_branches wk S path bs v c)"
proof -
  let ?f = "\<lambda>b best. if null_only S b then Some best
           else (case wk path b v [] of None \<Rightarrow> None
                 | Some try \<Rightarrow> Some (case best of None \<Rightarrow> Some try | Some x \<Rightarrow> Some (if better try x then try else x)))"
  have "finishes (fold_opt ?f bs None)"
  proof (rule fold_opt_finishes)
    fix b best assume "b \<in> set bs"
    then have "finishes (wk path b v [])" using assms by (simp add: returns_def)
    then obtain t where "wk path b v [] = Some t" by (rule finishesE)
    then show "finishes (?f b best)" by simp
  qed
  then obtain res where "fold_opt ?f bs None = Some res" by (rule finishesE)
  then show ?thesis by (cases res) (simp_all add: walk_branches_def)
qed

lemma members_return:
  assumes "\<And>k q p. k \<in> fst ` set ms \<Longrightarrow> member_schema m k = Some (q, p) \<Longrightarrow> returns wk p (the (map_of ms k))"
  shows "finishes (walk_object wk path m ms c)"
  unfolding walk_object_def Let_def
proof (rule fold_opt_finishes)
  fix k c assume k: "k \<in> set (sort (map fst ms))"
  show "finishes (case member_schema m k of Some (at_key, p) \<Rightarrow> wk (join_path path at_key) p (the (map_of ms k)) c
      | None \<Rightarrow> Some (if undeclared m then add_finding Warn (join_path path k) ''served, but the contract does not declare it'' c
                     else c))"
  proof (cases "member_schema m k")
    case (Some qp)
    obtain q p where qp: "qp = (q, p)" by (cases qp)
    then show ?thesis using assms [of k q p] Some k by (simp add: returns_def)
  qed simp
qed

lemma elements_return:
  assumes "\<And>i p. i < length vs \<Longrightarrow> element_schema m i = Some p \<Longrightarrow> returns wk p (vs ! i)"
  shows "finishes (walk_array wk path m vs c)"
proof (cases "key_list m ''prefixItems''")
  case None
  let ?s = "case map_of m ''items'' of None \<Rightarrow> JNull | Some s \<Rightarrow> s"
  have "returns wk ?s e" if "e \<in> set vs" for e
    using that assms None by (auto simp: in_set_conv_nth element_schema_def)
  then have "finishes (fold_opt (\<lambda>e c. wk (join_path path ''[]'') ?s e c) vs d)" for d
    by (intro fold_opt_finishes) (simp add: returns_def)
  then show ?thesis using None by (simp add: walk_array_def)
next
  case (Some prefix)
  have "finishes (fold_opt (\<lambda>(i, e) c. if i < length prefix then wk (path @ ''['' @ show_nat i @ '']'') (prefix ! i) e c else Some c)
      (enumerate 0 vs) d)" for d
  proof (rule fold_opt_finishes)
    fix x c assume "x \<in> set (enumerate 0 vs)"
    moreover obtain i e where x: "x = (i, e)" by (cases x)
    ultimately have "i < length vs" "e = vs ! i" by (simp_all add: in_set_enumerate_eq)
    then show "finishes ((case x of (i, e) \<Rightarrow> (\<lambda>c. if i < length prefix then wk (path @ ''['' @ show_nat i @ '']'') (prefix ! i) e c else Some c)) c)"
      using assms [of i "prefix ! i"] Some by (simp add: returns_def element_schema_def x)
  qed
  then show ?thesis using Some by (simp add: walk_array_def)
qed

lemma size_member:
  assumes "k \<in> fst ` set ms"
  shows "size (the (map_of ms k)) < size (JObj ms)"
proof -
  have "(k, w) \<in> set ms \<Longrightarrow> size w < size (JObj ms)" for w by (induction ms) auto
  moreover obtain w where "map_of ms k = Some w" using assms by (metis map_of_eq_None_iff not_None_eq)
  ultimately show ?thesis using map_of_SomeD [of ms k] by simp
qed

lemma size_element:
  assumes "i < length vs"
  shows "size (vs ! i) < size (JArr vs)"
proof -
  have "w \<in> set vs \<Longrightarrow> size w < size (JArr vs)" for w by (induction vs) auto
  then show ?thesis using assms by simp
qed

lemma walk_one:
  assumes "promises S s = Some m" "finishes (nullable k S m)"
    and "v \<noteq> JNull \<Longrightarrow> branches m \<noteq> [] \<Longrightarrow> finishes (walk_branches (walk k S) S path (branches m) v c)"
    and "\<And>ms. v = JObj ms \<Longrightarrow> finishes (walk_object (walk k S) path m ms c)"
    and "\<And>vs. v = JArr vs \<Longrightarrow> finishes (walk_array (walk k S) path m vs c)"
  shows "finishes (walk (Suc k) S path s v c)"
proof -
  have m: "flatten S s 0 = Some m" "m \<noteq> []" "key_nil m ''x-conformance-too-deep''"
    using assms(1) by (auto simp: promises_def split: option.splits if_splits)
  consider "v = JNull" | "v \<noteq> JNull" "branches m \<noteq> []" | "v \<noteq> JNull" "branches m = []" "\<not> type_ok m v"
    | "v \<noteq> JNull" "branches m = []" "type_ok m v" by blast
  then show ?thesis
  proof cases
    case 4
    then show ?thesis using m assms(4,5) by (cases v) simp_all
  qed (use m assms(2,3) in simp_all)
qed

text \<open>Enough fuel for every part is enough for the whole.\<close>

definition walk_ends :: "go_map \<Rightarrow> json \<Rightarrow> json \<Rightarrow> bool" where
  "walk_ends S s v = (\<exists>n. \<forall>k \<ge> n. returns (walk k S) s v)"

lemma branches_fuel:
  assumes "\<forall>b \<in> set bs. walk_ends S b v"
  shows "\<exists>n. \<forall>k \<ge> n. \<forall>path c. finishes (walk_branches (walk k S) S path bs v c)"
proof -
  obtain n where "\<forall>k \<ge> n. \<forall>b \<in> set bs. returns (walk k S) b v"
    using uniform_fuel [of "set bs" "\<lambda>b k. returns (walk k S) b v"] assms by (auto simp: walk_ends_def)
  then show ?thesis using branches_return by blast
qed

lemma members_fuel:
  assumes "\<And>x q p. x \<in> fst ` set ms \<Longrightarrow> member_schema m x = Some (q, p) \<Longrightarrow> walk_ends S p (the (map_of ms x))"
  shows "\<exists>n. \<forall>k \<ge> n. \<forall>path c. finishes (walk_object (walk k S) path m ms c)"
proof -
  let ?P = "\<lambda>x k. \<forall>q p. member_schema m x = Some (q, p) \<longrightarrow> returns (walk k S) p (the (map_of ms x))"
  have "\<exists>n. \<forall>k \<ge> n. ?P x k" if "x \<in> fst ` set ms" for x
    using assms [OF that] by (cases "member_schema m x") (auto simp: walk_ends_def)
  then obtain n where "\<forall>k \<ge> n. \<forall>x \<in> fst ` set ms. ?P x k" using uniform_fuel [of "fst ` set ms" ?P] by auto
  then show ?thesis using members_return by blast
qed

lemma elements_fuel:
  assumes "\<And>i p. i < length vs \<Longrightarrow> element_schema m i = Some p \<Longrightarrow> walk_ends S p (vs ! i)"
  shows "\<exists>n. \<forall>k \<ge> n. \<forall>path c. finishes (walk_array (walk k S) path m vs c)"
proof -
  let ?P = "\<lambda>i k. \<forall>p. element_schema m i = Some p \<longrightarrow> returns (walk k S) p (vs ! i)"
  have "\<exists>n. \<forall>k \<ge> n. ?P i k" if "i \<in> {..<length vs}" for i
    using assms that by (cases "element_schema m i") (auto simp: walk_ends_def)
  then obtain n where "\<forall>k \<ge> n. \<forall>i \<in> {..<length vs}. ?P i k" using uniform_fuel [of "{..<length vs}" ?P] by auto
  then have "\<forall>k \<ge> n. \<forall>path c. finishes (walk_array (walk k S) path m vs c)" using elements_return by (metis lessThan_iff)
  then show ?thesis by blast
qed

lemma walk_ends_step:
  assumes "promises S s = Some m" "ends S s"
    and "\<forall>b \<in> set (branches m). walk_ends S b v"
    and "\<And>ms x q p. v = JObj ms \<Longrightarrow> x \<in> fst ` set ms \<Longrightarrow> member_schema m x = Some (q, p) \<Longrightarrow> walk_ends S p (the (map_of ms x))"
    and "\<And>vs i p. v = JArr vs \<Longrightarrow> i < length vs \<Longrightarrow> element_schema m i = Some p \<Longrightarrow> walk_ends S p (vs ! i)"
  shows "walk_ends S s v"
proof -
  have m: "flatten S s 0 = Some m" using assms(1) by (auto simp: promises_def split: option.splits if_splits)
  obtain a where a: "\<forall>k \<ge> a. finishes (nullable k S m)" using nullable_returns [OF assms(2) m] by blast
  obtain b where b: "\<forall>k \<ge> b. \<forall>path c. finishes (walk_branches (walk k S) S path (branches m) v c)"
    using branches_fuel [OF assms(3)] by blast
  have "\<exists>n. \<forall>k \<ge> n. \<forall>ms path c. v = JObj ms \<longrightarrow> finishes (walk_object (walk k S) path m ms c)"
    using members_fuel [of _ m S] assms(4) by (cases v) fastforce+
  then obtain d where d: "\<forall>k \<ge> d. \<forall>ms path c. v = JObj ms \<longrightarrow> finishes (walk_object (walk k S) path m ms c)" by blast
  have "\<exists>n. \<forall>k \<ge> n. \<forall>vs path c. v = JArr vs \<longrightarrow> finishes (walk_array (walk k S) path m vs c)"
    using elements_fuel [of _ m S] assms(5) by (cases v) fastforce+
  then obtain e where e: "\<forall>k \<ge> e. \<forall>vs path c. v = JArr vs \<longrightarrow> finishes (walk_array (walk k S) path m vs c)" by blast
  have "returns (walk (Suc k) S) s v" if k: "k \<ge> max (max a b) (max d e)" for k
    unfolding returns_def using k a b d e by (intro allI walk_one [OF assms(1)]) auto
  then show ?thesis unfolding walk_ends_def by (metis Suc_le_D Suc_le_mono)
qed

lemma walk_returns:
  assumes "walkable S G"
  shows "s \<in> G \<Longrightarrow> walk_ends S s v"
proof (induction v arbitrary: s rule: measure_induct_rule [of size])
  case (less v)
  have "ends S s" using assms less.prems by (auto simp: walkable_def)
  then show ?case using less.prems
  proof (induction s)
    case (1 s)
    show ?case
    proof (cases "promises S s")
      case None
      then have f: "flatten S s 0 = None \<or> (\<exists>m. flatten S s 0 = Some m \<and> (m = [] \<or> \<not> key_nil m ''x-conformance-too-deep''))"
        by (auto simp: promises_def split: option.splits if_splits)
      have "returns (walk k S) s v" if "k \<ge> 1" for k
        using f that by (cases k) (auto simp: returns_def)
      then show ?thesis unfolding walk_ends_def by blast
    next
      case (Some m)
      then have m: "flatten S s 0 = Some m" by (auto simp: promises_def split: option.splits if_splits)
      have parts: "part_schemas m \<subseteq> G" and e: "ends S s" using assms 1(3) m by (auto simp: walkable_def)
      show ?thesis
      proof (rule walk_ends_step [OF Some e])
        show "\<forall>b \<in> set (branches m). walk_ends S b v"
          using 1(2) [OF m] parts by (auto simp: part_schemas_def)
      next
        fix ms x q p assume p: "v = JObj ms" "x \<in> fst ` set ms" "member_schema m x = Some (q, p)"
        then have "p \<in> G" using parts by (auto simp: part_schemas_def)
        then show "walk_ends S p (the (map_of ms x))" using less.IH [of _ p] size_member [OF p(2)] p(1) by simp
      next
        fix vs i p assume p: "v = JArr vs" "i < length vs" "element_schema m i = Some p"
        then have "p \<in> G" using parts by (auto simp: part_schemas_def)
        then show "walk_ends S p (vs ! i)" using less.IH [of _ p] size_element [OF p(2)] p(1) by simp
      qed
    qed
  qed
qed

text \<open>C40: Check returns on every answer, if the branches of every schema it can reach come to an
  end: references, allOf chains and the answer's own nesting never stop it.\<close>

theorem Check_returns:
  assumes "walkable S G" "schema \<in> G"
  shows "\<exists>n. \<forall>k \<ge> n. \<exists>items out. Check k S schema body = Some (items, out)"
proof (cases "decode_first body")
  case (Inl e)
  then show ?thesis by (simp add: Check_def)
next
  case (Inr p)
  obtain j rest where p: "p = (j, rest)" by (cases p)
  obtain n where n: "\<forall>k \<ge> n. returns (walk k S) schema (go_value j)"
    using walk_returns [OF assms] by (auto simp: walk_ends_def)
  have "\<exists>items out. Check k S schema body = Some (items, out)" if "k \<ge> n" for k
  proof -
    have "finishes (walk k S [] schema (go_value j) [])" using n that by (simp add: returns_def)
    then obtain c where "walk k S [] schema (go_value j) [] = Some c" by (rule finishesE)
    then show ?thesis using Inr p by (simp add: Check_def)
  qed
  then show ?thesis by blast
qed

theorem Check_returns_witness:
  "\<exists>n items out. Check n [] (JObj [(''type'', JStr ''string'')]) ''3'' = Some (items, out)"
proof -
  let ?s = "JObj [(''type'', JStr ''string'')]"
  have f: "flatten [] ?s 0 = Some [(''type'', JStr ''string'')]" "flatten [] JNull 0 = None"
    by (simp_all add: flatten.simps key_list_def maxDepth_def)
  have b: "branches [(''type'', JStr ''string'')] = []" by (simp add: branches_def key_list_def)
  have e: "ends [] ?s" by (rule ends.intros) (use f(1) b in auto)
  have e': "ends [] JNull" by (rule ends.intros) (use f(2) in simp)
  have "part_schemas [(''type'', JStr ''string'')] \<subseteq> {JNull}"
    by (simp add: part_schemas_def branches_def key_list_def member_schema_def key_map_def element_schema_def)
  then have "walkable [] {?s, JNull}" using f e e' by (auto simp: walkable_def)
  from Check_returns [OF this, of ?s "''3''"] show ?thesis by blast
qed

text \<open>A schema that is one of its own branches: the walk of any value goes on forever. maxDepth bounds each \<open>flatten\<close>, but every branch starts a new one.\<close>

definition looping_spec :: go_map where
  "looping_spec = [(''A'', JObj [(''oneOf'', JArr [JObj [(''$ref'', JStr ''#/components/schemas/A'')]])])]"

lemma looping_walk: "walk n looping_spec path (JObj [(''$ref'', JStr ''#/components/schemas/A'')]) v c = None"
proof (induction n arbitrary: path v c)
  case (Suc n)
  let ?r = "JObj [(''$ref'', JStr ''#/components/schemas/A'')]"
  have "trim_prefix ''#/components/schemas/A'' ''#/components/schemas/'' = ''A''" by code_simp
  then have f: "flatten looping_spec ?r d = Some [(''oneOf'', JArr [?r])]" if "d < maxDepth" for d
    using that by (simp add: flatten.simps looping_spec_def key_list_def maxDepth_def)
  have nul: "nullable k looping_spec [(''oneOf'', JArr [?r])] = None" for k
    using f [of 0] by (induction k) (simp_all add: schema_types_def branches_def key_list_def maxDepth_def)
  show ?case using f [of 0] Suc.IH nul [of n]
    by (simp add: maxDepth_def key_nil_def branches_def key_list_def walk_branches_def null_only_def schema_types_def)
qed simp

end
