(* ===== verification/Lane.thy ===== *)
theory Lane
  imports Conformance
begin

section \<open>The spec and the rows of the conformance lane (spec.go, run.go)\<close>

text \<open>
  What the lane reads of the OpenAPI document, how it runs one SDK method through the
  recorder, and the verdict on what came back. The method is a function on the lane's state;
  the recorder keeps the last exchange it carried. The printed report is left out.
\<close>

subsection \<open>The spec (spec.go)\<close>

record operation =
  op_ID :: string
  op_Method :: string
  op_Path :: string
  op_Public :: bool
  op_Schema :: json

record spec =
  sp_Version :: string
  sp_Ops :: "(string \<times> operation) list"
  sp_schemas :: go_map

text \<open>json.Unmarshal into an empty interface turns numbers into float64 and fails on one that is
  out of range.\<close>

fun floats_ok :: "json \<Rightarrow> bool" where
  "floats_ok (JNum s) = (ParseFloat64 s \<noteq> None)"
| "floats_ok (JArr js) = list_all floats_ok js"
| "floats_ok (JObj ms) = list_all (\<lambda>(k, v). floats_ok v) ms"
| "floats_ok j = True"

definition dec_any :: "json \<Rightarrow> json_error + json" where
  "dec_any j = (if floats_ok j then Inr (go_value j) else Inl JType)"

definition dec_map :: "(json \<Rightarrow> json_error + 'a) \<Rightarrow> json \<Rightarrow> json_error + (string \<times> 'a) list" where
  "dec_map dec j =
     (case j of
        JNull \<Rightarrow> Inr []
      | JObj ms \<Rightarrow> map_err (\<lambda>xs. fold (\<lambda>(k, v). AList.update k v) xs [])
          (map_res (\<lambda>(k, v). map_err (Pair k) (dec v)) ms)
      | _ \<Rightarrow> Inl JType)"

definition dec_struct :: "string \<Rightarrow> 'a \<Rightarrow> (json \<Rightarrow> json_error + 'a) \<Rightarrow> json \<Rightarrow> json_error + 'a" where
  "dec_struct name d dec j = bind_res (members j) (\<lambda>ms. field d dec name ms)"

text \<open>A security requirement list: its requirements, each with its scheme names.\<close>

definition dec_security :: "json \<Rightarrow> json_error + go_map list" where
  "dec_security = dec_slice (dec_map dec_any)"

definition dec_content :: "json \<Rightarrow> json_error + (string \<times> json) list" where
  "dec_content = dec_struct ''Content'' [] (dec_map (dec_struct ''Schema'' JNull dec_any))"

record raw_operation =
  ro_ID :: string
  ro_Security :: "go_map list option"
  ro_Responses :: "(string \<times> (string \<times> json) list) list"

definition dec_operation :: "json \<Rightarrow> json_error + raw_operation" where
  "dec_operation j =
     bind_res (members j) (\<lambda>ms.
     bind_res (field [] dec_string ''operationId'' ms) (\<lambda>i.
     bind_res (ptr_field dec_security ''Security'' ms) (\<lambda>sec.
     bind_res (field [] (dec_map dec_content) ''Responses'' ms) (\<lambda>rs.
       Inr \<lparr>ro_ID = i, ro_Security = sec, ro_Responses = rs\<rparr>))))"

definition op_public :: "go_map list \<Rightarrow> bool" where
  "op_public security = (security = [] \<or> (\<exists>req \<in> set security. req = []))"

definition declared_schema :: "raw_operation \<Rightarrow> json" where
  "declared_schema r =
     (case map_of (ro_Responses r) ''200'' of
        Some content \<Rightarrow> (case map_of content ''application/json'' of None \<Rightarrow> JNull | Some s \<Rightarrow> s)
      | None \<Rightarrow>
          (case map_of (ro_Responses r) ''201'' of
             Some content \<Rightarrow> (case map_of content ''application/json'' of None \<Rightarrow> JNull | Some s \<Rightarrow> s)
           | None \<Rightarrow> JNull))"

definition add_operation :: "go_map list \<Rightarrow> string \<Rightarrow> string \<Rightarrow> json \<Rightarrow> (string \<times> operation) list \<Rightarrow> (string \<times> operation) list" where
  "add_operation doc_security path m raw ops =
     (case dec_operation raw of
        Inl _ \<Rightarrow> ops
      | Inr r \<Rightarrow>
          if ro_ID r = [] then ops
          else AList.update (ro_ID r)
            \<lparr>op_ID = ro_ID r, op_Method = to_upper m, op_Path = path,
             op_Public = op_public (case ro_Security r of None \<Rightarrow> doc_security | Some s \<Rightarrow> s),
             op_Schema = declared_schema r\<rparr> ops)"

text \<open>Go ranges over paths and methods in any order; here it is the document's. The order shows
  only where two operations share an id.\<close>

definition ParseSpec :: "string \<Rightarrow> json_error + spec" where
  "ParseSpec data =
     bind_res (json_parse data) (\<lambda>doc.
     bind_res (members doc) (\<lambda>ms.
     bind_res (field [] (dec_struct ''Version'' [] dec_string) ''Info'' ms) (\<lambda>version.
     bind_res (field [] dec_security ''Security'' ms) (\<lambda>security.
     bind_res (field [] (dec_map (dec_map dec_raw)) ''Paths'' ms) (\<lambda>paths.
     bind_res (field [] (dec_struct ''Schemas'' [] (dec_map dec_any)) ''Components'' ms) (\<lambda>schemas.
       Inr \<lparr>sp_Version = version,
            sp_Ops = fold (\<lambda>(path, item) ops.
               if has_prefix path ''/api/v1/'' then ops
               else fold (\<lambda>(m, raw). add_operation security path m raw) item ops) paths [],
            sp_schemas = schemas\<rparr>))))))"

text \<open>\<open>Operation.routes\<close> reads templates the way the rate limiter's table does.\<close>

definition op_routes :: "operation \<Rightarrow> string \<Rightarrow> string \<Rightarrow> bool" where
  "op_routes op m path = (m = op_Method op \<and> matchTemplate (op_Path op) path)"

subsection \<open>One row of the lane (run.go)\<close>

record exchange =
  ex_method :: string
  ex_path :: string
  ex_status :: int
  ex_body :: string

text \<open>The recorder around a transport: the exchange it keeps and what the caller gets.\<close>

definition RoundTrip :: "string \<Rightarrow> request \<Rightarrow> net_result \<Rightarrow> net_result \<times> exchange" where
  "RoundTrip prefix r answer =
     (let ex = \<lparr>ex_method = r_method r, ex_path = trim_prefix (r_path r) prefix, ex_status = 0, ex_body = []\<rparr>
      in case answer of
           Resp status h (Some body) \<Rightarrow> (answer, ex\<lparr>ex_status := status, ex_body := body\<rparr>)
         | _ \<Rightarrow> (NetFail, ex))"

text \<open>What a call returned: nothing, a Skip, or another error.\<close>

datatype call_error = Skip string | CallError string

fun call_error_text :: "call_error \<Rightarrow> string" where
  "call_error_text (Skip s) = s"
| "call_error_text (CallError s) = s"

text \<open>The lane's state: the recorder's last exchange, and whatever the calls themselves use.\<close>

record 'w lane =
  ln_last :: "exchange option"
  ln_world :: 'w

definition take_last :: "'w lane \<Rightarrow> exchange option \<times> 'w lane" where
  "take_last l = (ln_last l, l\<lparr>ln_last := None\<rparr>)"

record 'w lane_op =
  lo_ID :: string
  lo_Method :: string
  lo_Write :: bool
  lo_Call :: "'w lane \<Rightarrow> call_error option \<times> 'w lane"

record lane_config =
  lc_Spec :: spec
  lc_Credential :: bool
  lc_RequireCredential :: bool
  lc_AllowWrites :: bool

datatype status = Pass | Unmeasured | Fail | Skipped | Blocked

record row_result =
  rr_ID :: string
  rr_Method :: string
  rr_Operation :: "operation option"
  rr_Status :: status
  rr_Called :: bool
  rr_Items :: nat
  rr_Category :: string
  rr_Detail :: string
  rr_Findings :: "finding list"

definition blank_row :: row_result where
  "blank_row = \<lparr>rr_ID = [], rr_Method = [], rr_Operation = None, rr_Status = Fail, rr_Called = False, rr_Items = 0, rr_Category = [], rr_Detail = [], rr_Findings = []\<rparr>"

text \<open>A row starts from the operation it is about.\<close>

definition for_op :: "'w lane_op \<Rightarrow> row_result \<Rightarrow> row_result" where
  "for_op op res = res\<lparr>rr_ID := lo_ID op, rr_Method := lo_Method op\<rparr>"

lemma for_op_simps [simp]:
  "rr_Status (for_op op res) = rr_Status res" "rr_Items (for_op op res) = rr_Items res"
  by (simp_all add: for_op_def)

definition not_run :: "lane_config \<Rightarrow> operation \<Rightarrow> 'w lane_op \<Rightarrow> row_result option" where
  "not_run cfg operation op =
     (let res = blank_row\<lparr>rr_Operation := Some operation\<rparr>
      in if \<not> op_Public operation \<and> \<not> lc_Credential cfg \<and> lc_RequireCredential cfg then
           Some (res\<lparr>rr_Status := Blocked, rr_Category := ''credential'', rr_Detail := ''no credential, and one is required; nothing sent''\<rparr>)
         else if \<not> op_Public operation \<and> \<not> lc_Credential cfg then
           Some (res\<lparr>rr_Status := Skipped, rr_Detail := ''no credential; nothing sent''\<rparr>)
         else if lo_Write op \<and> \<not> lc_AllowWrites cfg then
           Some (res\<lparr>rr_Status := Skipped, rr_Detail := ''write tier not enabled''\<rparr>)
         else None)"

text \<open>The verdict on a call that was made.\<close>

definition plural :: "nat \<Rightarrow> string" where
  "plural n = (if n \<noteq> 1 then ''s'' else [])"

definition judge_answer :: "nat \<Rightarrow> spec \<Rightarrow> operation \<Rightarrow> exchange \<Rightarrow> row_result option" where
  "judge_answer n sp operation ex =
     (let res = blank_row\<lparr>rr_Operation := Some operation, rr_Called := True\<rparr>
      in if op_Schema operation = JNull then
           Some (res\<lparr>rr_Status := Unmeasured, rr_Detail := ''[no response schema in the spec, nothing measured]''\<rparr>)
         else
           map_option (\<lambda>(items, findings).
             let res = res\<lparr>rr_Items := items, rr_Findings := findings\<rparr>
             in case findings of
                  f # _ \<Rightarrow>
                    if fi_Severity f = Error then res\<lparr>rr_Category := ''schema''\<rparr>
                    else if items = 0 then res\<lparr>rr_Status := Unmeasured, rr_Detail := ''[0 items, nothing measured]''\<rparr>
                    else res\<lparr>rr_Status := Pass, rr_Detail := ''['' @ show_nat items @ '' item'' @ plural items @ '']''\<rparr>
                | [] \<Rightarrow>
                    if items = 0 then res\<lparr>rr_Status := Unmeasured, rr_Detail := ''[0 items, nothing measured]''\<rparr>
                    else res\<lparr>rr_Status := Pass, rr_Detail := ''['' @ show_nat items @ '' item'' @ plural items @ '']''\<rparr>)
             (Check n (sp_schemas sp) (op_Schema operation) (ex_body ex)))"

definition judge_call :: "nat \<Rightarrow> spec \<Rightarrow> operation \<Rightarrow> call_error option \<Rightarrow> exchange option \<Rightarrow> row_result option" where
  "judge_call n sp operation err ex =
     (let res = blank_row\<lparr>rr_Operation := Some operation\<rparr>
      in case (err, ex) of
           (Some (Skip s), None) \<Rightarrow> Some (res\<lparr>rr_Status := Skipped, rr_Detail := s\<rparr>)
         | (_, None) \<Rightarrow>
             Some (res\<lparr>rr_Category := ''local'',
               rr_Detail := (case err of None \<Rightarrow> ''no request sent'' | Some e \<Rightarrow> call_error_text e)\<rparr>)
         | (_, Some ex) \<Rightarrow>
             if \<not> op_routes operation (ex_method ex) (ex_path ex) then
               Some (res\<lparr>rr_Category := ''route'', rr_Detail := ''sent '' @ ex_method ex @ '' '' @ ex_path ex\<rparr>)
             else
               (case err of
                  Some e \<Rightarrow>
                    Some (res\<lparr>rr_Category :=
                        (if 200 \<le> ex_status ex \<and> ex_status ex < 300 then ''decode''
                         else if ex_status ex = 0 then ''transport''
                         else ''http '' @ show_int (ex_status ex)),
                      rr_Detail := call_error_text e\<rparr>)
                | None \<Rightarrow> judge_answer n sp operation ex))"

text \<open>\<open>run\<close>: None is a Check that has not returned.\<close>

definition run_row :: "nat \<Rightarrow> lane_config \<Rightarrow> 'w lane_op \<Rightarrow> 'w lane \<Rightarrow> (row_result \<times> 'w lane) option" where
  "run_row n cfg op l =
     map_option (\<lambda>(res, l). (for_op op res, l))
       (case map_of (sp_Ops (lc_Spec cfg)) (lo_ID op) of
          None \<Rightarrow>
            Some (blank_row\<lparr>rr_Category := ''drift'',
              rr_Detail := ''no operation '' @ lo_ID op @ '' in spec '' @ sp_Version (lc_Spec cfg)\<rparr>, l)
        | Some operation \<Rightarrow>
            (case not_run cfg operation op of
               Some res \<Rightarrow> Some (res, l)
             | None \<Rightarrow>
                 (case lo_Call op (snd (take_last l)) of
                    (err, l) \<Rightarrow>
                      (case take_last l of
                         (ex, l) \<Rightarrow> map_option (\<lambda>res. (res, l)) (judge_call n (lc_Spec cfg) operation err ex)))))"

record report =
  rp_Spec :: string
  rp_Results :: "row_result list"
  rp_Drift :: "string list"

fun run_rows :: "nat \<Rightarrow> lane_config \<Rightarrow> 'w lane_op list \<Rightarrow> 'w lane \<Rightarrow> (row_result list \<times> 'w lane) option" where
  "run_rows n cfg [] l = Some ([], l)"
| "run_rows n cfg (op # ops) l =
     (case run_row n cfg op l of
        None \<Rightarrow> None
      | Some (res, l) \<Rightarrow> map_option (\<lambda>(rs, l). (res # rs, l)) (run_rows n cfg ops l))"

definition Run :: "nat \<Rightarrow> lane_config \<Rightarrow> 'w lane_op list \<Rightarrow> 'w lane \<Rightarrow> (report \<times> 'w lane) option" where
  "Run n cfg ops l =
     map_option (\<lambda>(rs, l). (\<lparr>rp_Spec = sp_Version (lc_Spec cfg), rp_Results = rs, rp_Drift = []\<rparr>, l)) (run_rows n cfg ops l)"

definition Report_Failed :: "report \<Rightarrow> bool" where
  "Report_Failed r = ((\<exists>res \<in> set (rp_Results r). rr_Status res \<in> {Fail, Blocked}) \<or> rp_Drift r \<noteq> [])"

subsection \<open>The printed report\<close>

fun status_text :: "status \<Rightarrow> string" where
  "status_text Pass = ''pass''"
| "status_text Unmeasured = ''unmeasured''"
| "status_text Fail = ''fail''"
| "status_text Skipped = ''skipped''"
| "status_text Blocked = ''blocked''"

text \<open>fmt pads to a width in characters, a byte that is not UTF-8 being one.\<close>

fun rune_count :: "string \<Rightarrow> nat" where
  "rune_count [] = 0"
| "rune_count (c # s) = Suc (rune_count (drop (utf8_width (map PByte (c # s)) - 1) s))"

definition line_end :: string where "line_end = [CHR 0x0A]"

definition pad :: "nat \<Rightarrow> string \<Rightarrow> string" where
  "pad w s = s @ replicate (w - rune_count s) CHR '' ''"

definition table_row :: "string \<Rightarrow> string \<Rightarrow> string \<Rightarrow> string \<Rightarrow> string \<Rightarrow> string \<Rightarrow> string \<Rightarrow> string" where
  "table_row status surface method_name operation_id endpoint category detail =
     pad 10 status @ '' '' @ pad 8 surface @ '' '' @ pad 30 method_name @ '' '' @ pad 24 operation_id @ '' '' @
     pad 44 endpoint @ '' '' @ pad 12 category @ '' '' @ detail @ line_end"

definition finding_line :: "finding \<Rightarrow> string" where
  "finding_line f =
     (let n = (if fi_N f > 1 then '' (x'' @ show_nat (fi_N f) @ '')'' else []);
          path = (if fi_Path f = [] then ''(body)'' else fi_Path f)
      in replicate 10 CHR '' '' @ '' '' @ pad 5 (Severity_String (fi_Severity f)) @ '' '' @ path @ '': '' @ fi_Msg f @ n @ line_end)"

definition result_lines :: "row_result \<Rightarrow> string" where
  "result_lines res =
     (let endpoint = (case rr_Operation res of
                        None \<Rightarrow> ''-''
                      | Some operation \<Rightarrow>
                          if op_Path operation \<noteq> [] then op_Method operation @ '' '' @ op_Path operation else ''-'');
          category = (if rr_Category res = [] then ''-'' else rr_Category res)
      in table_row (status_text (rr_Status res)) ''go'' (rr_Method res) (rr_ID res) endpoint category (rr_Detail res) @
         concat (map finding_line (rr_Findings res)))"

definition status_count :: "report \<Rightarrow> status \<Rightarrow> nat" where
  "status_count r s = length (filter (\<lambda>res. rr_Status res = s) (rp_Results r))"

definition called_count :: "report \<Rightarrow> nat" where
  "called_count r = length (filter rr_Called (rp_Results r))"

definition measured_count :: "report \<Rightarrow> nat" where
  "measured_count r = length (filter (\<lambda>res. rr_Called res \<and> 0 < rr_Items res) (rp_Results r))"

definition Report_String :: "report \<Rightarrow> string" where
  "Report_String r =
     table_row ''status'' ''surface'' ''method'' ''operation'' ''endpoint'' ''category'' ''detail'' @
     concat (map result_lines (rp_Results r)) @
     concat (map (\<lambda>d. pad 10 ''drift'' @ '' '' @ d @ line_end) (rp_Drift r)) @
     line_end @ ''spec '' @ rp_Spec r @ '', '' @ show_nat (length (rp_Results r)) @ '' operations: called '' @
     show_nat (called_count r) @ '', measured '' @ show_nat (measured_count r) @ ''; failed '' @
     show_nat (status_count r Fail) @ '', skipped '' @ show_nat (status_count r Skipped) @ '', blocked '' @
     show_nat (status_count r Blocked) @ '', drift '' @ show_nat (length (rp_Drift r)) @ line_end"

text \<open>The totals the report ends with agree with its verdict.\<close>

lemma failed_by_totals: "Report_Failed r \<longleftrightarrow> 0 < status_count r Fail + status_count r Blocked + length (rp_Drift r)"
  by (auto simp: Report_Failed_def status_count_def filter_empty_conv)

subsection \<open>What a pass means\<close>

lemma Check_first_clean:
  assumes "Check n S schema body = Some (items, out)" "out = [] \<or> fi_Severity (hd out) \<noteq> Error" "0 < items"
  shows "\<exists>j rest. decode_first body = Inr (j, rest) \<and> conforms S schema (go_value j)"
proof (cases "decode_first body")
  case (Inl e)
  then show ?thesis using assms(1,3) by (simp add: Check_def)
next
  case (Inr p)
  obtain j rest where p: "decode_first body = Inr (j, rest)" using Inr by (cases p) auto
  obtain c where w: "walk n S [] schema (go_value j) [] = Some c"
    and out: "out = sort_key (\<lambda>f. - severity_rank (fi_Severity f)) (sort_key fi_Path c)"
    using assms(1) p by (auto simp: Check_def)
  have "sorted (map (\<lambda>f. - severity_rank (fi_Severity f)) out)" by (simp add: out)
  then have "severity_rank (fi_Severity f) \<le> severity_rank (fi_Severity (hd out))" if "f \<in> set out" for f
    using that by (cases out) auto
  moreover have "severity_rank s < 2" if "s \<noteq> Error" for s using that by (cases s) simp_all
  ultimately have "fi_Severity f \<noteq> Error" if "f \<in> set out" for f
    using that assms(2) by (cases out) fastforce+
  then have "errs c = 0" by (auto simp: out count_sev_def sum_list_eq_0_iff)
  then show ?thesis using walk_right [of S n] w p unfolding right_walker_def by fastforce
qed

lemma judge_answer_pass:
  assumes "judge_answer n sp operation ex = Some res" "rr_Status res = Pass"
  shows "0 < rr_Items res \<and> (\<exists>j rest. decode_first (ex_body ex) = Inr (j, rest) \<and>
    conforms (sp_schemas sp) (op_Schema operation) (go_value j))"
proof -
  obtain items findings where c: "Check n (sp_schemas sp) (op_Schema operation) (ex_body ex) = Some (items, findings)"
    using assms by (auto simp: judge_answer_def Let_def blank_row_def split: if_splits)
  have "rr_Items res = items \<and> 0 < items \<and> (findings = [] \<or> fi_Severity (hd findings) \<noteq> Error)"
    using assms by (cases findings) (auto simp: judge_answer_def Let_def blank_row_def c split: if_splits)
  then show ?thesis using Check_first_clean [OF c] by simp
qed

lemma judge_call_pass:
  assumes "judge_call n sp operation err last_ex = Some res" "rr_Status res = Pass"
  shows "err = None \<and> (\<exists>ex. last_ex = Some ex \<and> op_routes operation (ex_method ex) (ex_path ex) \<and>
    judge_answer n sp operation ex = Some res)"
  using assms
  by (auto simp: judge_call_def Let_def blank_row_def split: option.splits call_error.splits if_splits)

text \<open>C16: a row passes only if its operation is in the spec and the run may call it, the SDK method
  returned without error, what it sent last went to that operation's route, and the answer
  held at least one item and conforms to the schema declared: an empty answer, an
  undeclared schema and a skipped call never pass. A private operation without a credential
  is not called at all.\<close>

theorem pass_is_measured:
  assumes "run_row n cfg op l = Some (res, l')"
  shows "(rr_Status res = Pass \<longrightarrow>
      (\<exists>operation l1 ex j rest. map_of (sp_Ops (lc_Spec cfg)) (lo_ID op) = Some operation \<and>
         (op_Public operation \<or> lc_Credential cfg) \<and> (lo_Write op \<longrightarrow> lc_AllowWrites cfg) \<and>
         lo_Call op (l\<lparr>ln_last := None\<rparr>) = (None, l1) \<and> ln_last l1 = Some ex \<and>
         op_routes operation (ex_method ex) (ex_path ex) \<and> 0 < rr_Items res \<and>
         decode_first (ex_body ex) = Inr (j, rest) \<and>
         conforms (sp_schemas (lc_Spec cfg)) (op_Schema operation) (go_value j)))
    \<and> (\<forall>operation. map_of (sp_Ops (lc_Spec cfg)) (lo_ID op) = Some operation \<longrightarrow>
        \<not> op_Public operation \<longrightarrow> \<not> lc_Credential cfg \<longrightarrow> l' = l \<and> rr_Status res \<in> {Skipped, Blocked})"
proof (cases "map_of (sp_Ops (lc_Spec cfg)) (lo_ID op)")
  case None
  then show ?thesis using assms by (auto simp: run_row_def blank_row_def)
next
  case (Some operation)
  show ?thesis
  proof (cases "not_run cfg operation op")
    case (Some r)
    then have r: "res = for_op op r" "l' = l" using assms \<open>map_of _ _ = Some operation\<close> by (simp_all add: run_row_def)
    then show ?thesis
      using Some \<open>map_of _ _ = Some operation\<close> by (auto simp: not_run_def Let_def split: if_splits)
  next
    case may: None
    obtain err l1 where c: "lo_Call op (l\<lparr>ln_last := None\<rparr>) = (err, l1)" by fastforce
    obtain r where j: "judge_call n (lc_Spec cfg) operation err (ln_last l1) = Some r" and res: "res = for_op op r"
      using assms Some may c by (auto simp: run_row_def take_last_def)
    have g: "op_Public operation \<or> lc_Credential cfg" "lo_Write op \<longrightarrow> lc_AllowWrites cfg"
      using may by (auto simp: not_run_def Let_def split: if_splits)
    have "\<exists>ex j rest. err = None \<and> ln_last l1 = Some ex \<and> op_routes operation (ex_method ex) (ex_path ex) \<and> 0 < rr_Items res \<and>
        decode_first (ex_body ex) = Inr (j, rest) \<and> conforms (sp_schemas (lc_Spec cfg)) (op_Schema operation) (go_value j)"
      if "rr_Status res = Pass"
      using judge_call_pass [OF j] judge_answer_pass that by (simp add: res) blast
    then show ?thesis using g Some c by fastforce
  qed
qed

definition sample_row :: "unit lane_op" where
  "sample_row =
     \<lparr>lo_ID = ''getStatus'', lo_Method = ''Client.FetchStatus'', lo_Write = False,
      lo_Call = (\<lambda>l. (None, l\<lparr>ln_last := Some \<lparr>ex_method = ''GET'', ex_path = ''/status'', ex_status = 200, ex_body = ''3''\<rparr>\<rparr>))\<rparr>"

definition sample_config :: lane_config where
  "sample_config =
     \<lparr>lc_Spec = \<lparr>sp_Version = ''v0.8.1'',
        sp_Ops = [(''getStatus'', \<lparr>op_ID = ''getStatus'', op_Method = ''GET'', op_Path = ''/status'', op_Public = True,
          op_Schema = JObj [(''type'', JStr ''integer'')]\<rparr>)], sp_schemas = []\<rparr>,
      lc_Credential = False, lc_RequireCredential = False, lc_AllowWrites = False\<rparr>"

theorem pass_is_measured_witness:
  "\<exists>j. conforms [] (JObj [(''type'', JStr ''integer'')]) (go_value j)"
proof -
  have "map_option (\<lambda>(res, l). rr_Status res) (run_row 1 sample_config sample_row \<lparr>ln_last = None, ln_world = ()\<rparr>) = Some Pass"
    by code_simp
  then obtain res l' where r: "run_row 1 sample_config sample_row \<lparr>ln_last = None, ln_world = ()\<rparr> = Some (res, l')"
      "rr_Status res = Pass" by auto
  from pass_is_measured [OF r(1)] r(2) show ?thesis by (auto simp: sample_config_def sample_row_def)
qed

end
