(* ===== verification/Bot.thy ===== *)
theory Bot
  imports Rest Rounding Stream
begin

section \<open>The quoting bot (examples/bot/main.go)\<close>

text \<open>
  A program written on the SDK: it keeps one bid and one ask outside the best prices of a market.
  Modelled are its quoter and everything that decides what is sent: newQuoter, quote, requote,
  cancelResting, shutdown and decimals, as functions on the transport and the world of the REST
  methods, and run from the quoter on, over the books the reader goroutine hands it before the
  context ends. Left out are main, the making of the client and the two reader goroutines.
\<close>

record quoter =
  q_market :: string
  q_offset :: rat
  q_decimals :: nat
  q_size :: decimal
  q_resting :: "string list"

datatype bot_error =
    BCall string go_error
  | BNoSize
  | BNoMarket
  | BStillResting nat
  | BPanic

subsection \<open>Fields of decoded values\<close>

definition fld :: "go_type \<Rightarrow> string \<Rightarrow> go_val \<Rightarrow> go_val" where
  "fld T name v =
     (case (T, v) of
        (TStruct fs, VStruct vs) \<Rightarrow> (case map_of (zip (map fst fs) vs) name of Some x \<Rightarrow> x | None \<Rightarrow> VNil)
      | _ \<Rightarrow> VNil)"

fun ptr_string :: "go_val \<Rightarrow> string option" where
  "ptr_string (VPtr (VString s)) = Some s"
| "ptr_string _ = None"

fun ptr_decimal :: "go_val \<Rightarrow> decimal option" where
  "ptr_decimal (VPtr (VDecimal d)) = Some d"
| "ptr_decimal _ = None"

fun slice_of :: "go_val \<Rightarrow> go_val list" where
  "slice_of (VSlice vs) = vs"
| "slice_of _ = []"

definition level_price :: "go_val \<Rightarrow> decimal" where
  "level_price l = (case fld BookLevel_t ''price'' l of VDecimal d \<Rightarrow> d | _ \<Rightarrow> zero_decimal)"

subsection \<open>newQuoter\<close>

definition decimals :: "string \<Rightarrow> nat" where
  "decimals s = (case dropWhile (\<lambda>c. c \<noteq> CHR ''.'') s of [] \<Rightarrow> 0 | _ # fraction \<Rightarrow> length fraction)"

fun pick_market :: "string \<Rightarrow> int \<Rightarrow> go_val list \<Rightarrow> bot_error + quoter" where
  "pick_market market offset [] = Inl BNoMarket"
| "pick_market market offset (m # ms) =
     (case ptr_decimal (fld Market_t ''tick_size'' m) of
        None \<Rightarrow> pick_market market offset ms
      | Some step \<Rightarrow>
          if ptr_string (fld Market_t ''market_id'' m) \<noteq> Some market then pick_market market offset ms
          else
            (case (case ptr_decimal (fld Market_t ''min_order_size'' m) of
                     Some d \<Rightarrow> Some d
                   | None \<Rightarrow> ptr_decimal (fld Market_t ''lot_size'' m)) of
               None \<Rightarrow> Inl BNoSize
             | Some quantity \<Rightarrow>
                 Inr \<lparr>q_market = market, q_offset = dec_Rat step * of_int offset,
                      q_decimals = decimals (dec_String step), q_size = quantity, q_resting = []\<rparr>))"

definition newQuoter ::
  "env \<Rightarrow> 's transport \<Rightarrow> 's world \<Rightarrow> nullable_lib \<Rightarrow> string \<Rightarrow> int \<Rightarrow> (bot_error + quoter) \<times> 's world" where
  "newQuoter V t w N market offset =
     (case perform V t w (FetchMarkets N) of
        (Inl e, w') \<Rightarrow> (Inl (BCall ''read markets: '' e), w')
      | (Inr (v, _), w') \<Rightarrow> (pick_market market offset (slice_of v), w'))"

subsection \<open>quote\<close>

text \<open>An OrderRequest with a market, side, price and quantity: a post-only limit order, the optional
  fields unset.\<close>

definition limit_order :: "string \<Rightarrow> order_side \<Rightarrow> decimal \<Rightarrow> decimal \<Rightarrow> go_val" where
  "limit_order market side price quantity =
     VStruct [VNil, VString market, VNil, VString ''Limit'', VPtr (VDecimal price), VDecimal quantity,
       VNil, VString side, VNil, VNil, VString ''PostOnly'', VNil, VNil]"

definition quote :: "quoter \<Rightarrow> order_side \<Rightarrow> decimal \<Rightarrow> go_val option" where
  "quote q side best =
     (let p = (if side = Buy then dec_Rat best - q_offset q else dec_Rat best + q_offset q) in
      if p \<le> 0 then None
      else (case ParseDecimal (FloatString p (q_decimals q)) of
              Inl _ \<Rightarrow> None
            | Inr px \<Rightarrow> Some (limit_order (q_market q) side px (q_size q))))"

subsection \<open>cancelResting and requote\<close>

text \<open>An error of a cancel is logged and otherwise ignored.\<close>

fun cancel_each :: "env \<Rightarrow> 's transport \<Rightarrow> nullable_lib \<Rightarrow> string \<Rightarrow> 's world \<Rightarrow> string list \<Rightarrow> 's world" where
  "cancel_each V t N market w [] = w"
| "cancel_each V t N market w (oid # oids) =
     cancel_each V t N market (snd (perform V t w (CancelOrder N oid market))) oids"

definition cancelResting ::
  "env \<Rightarrow> 's transport \<Rightarrow> 's world \<Rightarrow> nullable_lib \<Rightarrow> quoter \<Rightarrow> quoter \<times> 's world" where
  "cancelResting V t w N q =
     (q\<lparr>q_resting := []\<rparr>, cancel_each V t N (q_market q) w (q_resting q))"

text \<open>The results of a batch of n orders, in order. Logging one reads the request at its index, which
  panics beyond the last.\<close>

fun read_results :: "nullable_lib \<Rightarrow> nat \<Rightarrow> nat \<Rightarrow> go_val list \<Rightarrow> string list \<Rightarrow> bot_error + string list" where
  "read_results N n i [] ids = Inr ids"
| "read_results N n i (r # rs) ids =
     (case OrderResult_Discriminator N r of
        Inl _ \<Rightarrow> read_results N n (i + 1) rs ids
      | Inr outcome \<Rightarrow>
          if outcome = ''ok'' then
            (case AsOrderResultOk N r of
               Inl _ \<Rightarrow> read_results N n (i + 1) rs ids
             | Inr v \<Rightarrow>
                 (case ptr_string (fld Order_t ''id'' (fld OrderResultOk_t ''order'' v)) of
                    None \<Rightarrow> read_results N n (i + 1) rs ids
                  | Some oid \<Rightarrow> if i < n then read_results N n (i + 1) rs (ids @ [oid]) else Inl BPanic))
          else if outcome = ''err'' then
            (case AsOrderResultErr N r of
               Inl _ \<Rightarrow> read_results N n (i + 1) rs ids
             | Inr v \<Rightarrow> if i < n then read_results N n (i + 1) rs ids else Inl BPanic)
          else read_results N n (i + 1) rs ids)"

definition quotes :: "quoter \<Rightarrow> decimal \<Rightarrow> decimal \<Rightarrow> go_val list" where
  "quotes q bid ask =
     (case quote q Buy bid of Some r \<Rightarrow> [r] | None \<Rightarrow> []) @ (case quote q Sell ask of Some r \<Rightarrow> [r] | None \<Rightarrow> [])"

definition batch :: "go_val list \<Rightarrow> go_val" where
  "batch reqs = (if reqs = [] then VNil else VSlice reqs)"

definition requote ::
  "env \<Rightarrow> 's transport \<Rightarrow> 's world \<Rightarrow> nullable_lib \<Rightarrow> quoter \<Rightarrow> go_val list \<Rightarrow> go_val list
     \<Rightarrow> (bot_error + quoter) \<times> 's world" where
  "requote V t w N q bids asks =
     (case (bids, asks) of
        (b # _, a # _) \<Rightarrow>
          (case cancelResting V t w N q of
             (q, w) \<Rightarrow>
               (let reqs = quotes q (level_price b) (level_price a) in
                case perform V t w (CreateOrders N (batch reqs)) of
                  (Inl e, w) \<Rightarrow> (Inr q, w)
                | (Inr (v, _), w) \<Rightarrow>
                    (map_sum id (\<lambda>ids. q\<lparr>q_resting := ids\<rparr>) (read_results N (length reqs) 0 (slice_of v) (q_resting q)), w)))
      | _ \<Rightarrow> (Inr q, w))"

subsection \<open>shutdown\<close>

definition resting_in :: "string \<Rightarrow> go_val list \<Rightarrow> nat" where
  "resting_in market orders =
     length (filter (\<lambda>o'. ptr_string (fld Order_t ''market_id'' o') = Some market) orders)"

text \<open>The number of orders cancelled, which is logged.\<close>

definition shutdown ::
  "env \<Rightarrow> 's transport \<Rightarrow> 's world \<Rightarrow> nullable_lib \<Rightarrow> quoter \<Rightarrow> (bot_error + nat) \<times> 's world" where
  "shutdown V t w N q =
     (case perform V t w (CancelAllOrders N (q_market q)) of
        (Inl e, w) \<Rightarrow> (Inl (BCall ''shutdown: cancel all: '' e), w)
      | (Inr (cancelled, _), w) \<Rightarrow>
          (case perform V t w (FetchOpenOrders N) of
             (Inl e, w) \<Rightarrow> (Inl (BCall ''shutdown: read open orders: '' e), w)
           | (Inr (v, _), w) \<Rightarrow>
               (let left = resting_in (q_market q) (slice_of v) in
                if left > 0 then (Inl (BStillResting left), w)
                else (Inr (length (slice_of cancelled)), w))))"

subsection \<open>run\<close>

text \<open>The loop over the books received until the context is done. The time of the last requote starts
  as the zero time, from which any interval has passed.\<close>

fun quote_loop ::
  "env \<Rightarrow> 's transport \<Rightarrow> nullable_lib \<Rightarrow> int \<Rightarrow> int option \<Rightarrow> quoter \<Rightarrow> 's world
     \<Rightarrow> (go_val list \<times> go_val list) list \<Rightarrow> (bot_error + quoter) \<times> 's world" where
  "quote_loop V t N every prev q w [] = (Inr q, w)"
| "quote_loop V t N every prev q w ((bids, asks) # books) =
     (case read_clock V w of
        (now, w) \<Rightarrow>
          if (case prev of None \<Rightarrow> True | Some l \<Rightarrow> now - l \<ge> every) then
            (case read_clock V w of
               (l, w) \<Rightarrow>
                 (case requote V t w N q bids asks of
                    (Inl e, w) \<Rightarrow> (Inl e, w)
                  | (Inr q, w) \<Rightarrow> quote_loop V t N every (Some l) q w books))
          else quote_loop V t N every prev q w books)"

text \<open>Opening the two sockets sends no REST request; they fail with an error or not. The shutdown has a
  context of its own, V'.\<close>

definition bot_run ::
  "env \<Rightarrow> env \<Rightarrow> 's transport \<Rightarrow> 's world \<Rightarrow> nullable_lib \<Rightarrow> string \<Rightarrow> int \<Rightarrow> int \<Rightarrow> go_error option \<Rightarrow> go_error option
     \<Rightarrow> (go_val list \<times> go_val list) list \<Rightarrow> (bot_error + nat) \<times> 's world" where
  "bot_run V V' t w N market offset every sub_err stream_err books =
     (case newQuoter V t w N market offset of
        (Inl e, w) \<Rightarrow> (Inl e, w)
      | (Inr q, w) \<Rightarrow>
          (case sub_err of
             Some e \<Rightarrow> (Inl (BCall ''open account socket: '' e), w)
           | None \<Rightarrow>
               (case perform V t w (SetCancelOnDisconnect N True) of
                  (Inl e, w) \<Rightarrow> (Inl (BCall ''enable cancel-on-disconnect: '' e), w)
                | (Inr _, w) \<Rightarrow>
                    (case stream_err of
                       Some e \<Rightarrow> (Inl (BCall ''open market stream: '' e), w)
                     | None \<Rightarrow>
                         (case quote_loop V t N every None q w books of
                            (Inl e, w) \<Rightarrow> (Inl e, w)
                          | (Inr q, w) \<Rightarrow> shutdown V' t w N q)))))"

subsection \<open>A quote is exact and outside the book\<close>

lemma decimals_places: "decimals s = decimalPlaces s"
proof (cases "dropWhile (\<lambda>c. c \<noteq> CHR ''.'') s")
  case Nil
  then have "takeWhile (\<lambda>c. c \<noteq> CHR ''.'') s = s"
    by (metis append_Nil2 takeWhile_dropWhile_id)
  then show ?thesis unfolding decimals_def decimalPlaces_def Let_def Nil by (metis less_irrefl list.simps(4))
next
  case (Cons c fraction)
  have "s = takeWhile (\<lambda>c. c \<noteq> CHR ''.'') s @ c # fraction"
    using takeWhile_dropWhile_id [of "\<lambda>c. c \<noteq> CHR ''.''" s] Cons by simp
  then have l: "length s = length (takeWhile (\<lambda>c. c \<noteq> CHR ''.'') s) + Suc (length fraction)"
    by (metis length_append length_Cons)
  show ?thesis
    unfolding decimals_def decimalPlaces_def Let_def Cons by (subst (1 2) l) simp
qed

lemma grid_text_parses:
  assumes "r < 10 ^ prec"
  shows "ParseDecimal (grid_text neg q r prec) = Inr \<lparr>dec_s = grid_text neg q r prec\<rparr>"
    "lit_val (grid_text neg q r prec) = (if neg then -1 else 1) * (of_nat (q * 10 ^ prec + r) / 10 ^ prec)"
proof -
  let ?sg = "if neg then ''-'' else []"
  define fp where "fp = (if prec = 0 then [] else CHR ''.'' # zero_pad prec (show_nat r))"
  have fp: "frac_part fp" "length fp - 1 = prec" "digits_val (show_nat q @ tl fp) = q * 10 ^ prec + r"
    using zero_pad_props [OF assms] assms
    by (auto simp: fp_def frac_part_def digits_val_append) (simp add: digits_val_def)
  have t: "grid_text neg q r prec = ?sg @ show_nat q @ fp" by (simp add: grid_text_def fp_def)
  have sg: "?sg \<in> {[], ''-''}" by simp
  have "rx_matches decimalLiteral (?sg @ show_nat q @ fp)"
    unfolding literal_grammar using int_part_show_nat fp(1) sg by blast
  then show "ParseDecimal (grid_text neg q r prec) = Inr \<lparr>dec_s = grid_text neg q r prec\<rparr>"
    by (simp add: ParseDecimal_ok t)
  show "lit_val (grid_text neg q r prec) = (if neg then -1 else 1) * (of_nat (q * 10 ^ prec + r) / 10 ^ prec)"
    unfolding t lit_val_parts [OF sg int_part_show_nat fp(1)] fp(2,3) by simp
qed

lemma quote_exact:
  assumes "p = (if side = Buy then dec_Rat best - q_offset q else dec_Rat best + q_offset q)"
    and "p * 10 ^ q_decimals q = of_int z" "0 < p"
  obtains px where "quote q side best = Some (limit_order (q_market q) side px (q_size q))"
    "decimal_ok px" "dec_Rat px = p"
proof -
  obtain a r where f: "FloatString p (q_decimals q) = grid_text (p < 0) a r (q_decimals q)" "r < 10 ^ q_decimals q"
    "\<bar>p\<bar> = of_nat (a * 10 ^ q_decimals q + r) / 10 ^ q_decimals q"
    using FloatString_exact [OF assms(2)] by blast
  let ?px = "\<lparr>dec_s = grid_text False a r (q_decimals q)\<rparr>"
  have g: "FloatString p (q_decimals q) = grid_text False a r (q_decimals q)" using f(1) assms(3) by simp
  note parsed = grid_text_parses [OF f(2), of False a]
  have "quote q side best = Some (limit_order (q_market q) side ?px (q_size q))"
    using assms(3) unfolding quote_def Let_def assms(1) [symmetric] g parsed(1) by simp
  moreover have "decimal_ok ?px" by (rule ParseDecimal_decimal_ok [OF parsed(1)])
  moreover have "dec_String ?px = grid_text False a r (q_decimals q)"
    using dec_String_literal [OF \<open>decimal_ok ?px\<close>]
    by (simp add: dec_String_def grid_text_def)
  then have "dec_Rat ?px = p" using parsed(2) f(3) assms(3) by (simp add: dec_Rat_def)
  ultimately show thesis by (rule that)
qed

text \<open>The row a quoter comes from.\<close>

lemma pick_market_row:
  assumes "pick_market market offset rows = Inr q"
  obtains m step where "m \<in> set rows" "ptr_string (fld Market_t ''market_id'' m) = Some market"
    "ptr_decimal (fld Market_t ''tick_size'' m) = Some step" "q_market q = market"
    "q_offset q = dec_Rat step * of_int offset" "q_decimals q = decimals (dec_String step)" "q_resting q = []"
  using assms
proof (induction rows)
  case (Cons m ms)
  show ?case
  proof (cases "\<exists>step. ptr_decimal (fld Market_t ''tick_size'' m) = Some step \<and> ptr_string (fld Market_t ''market_id'' m) = Some market")
    case True
    then obtain step where t: "ptr_decimal (fld Market_t ''tick_size'' m) = Some step"
      "ptr_string (fld Market_t ''market_id'' m) = Some market" by blast
    obtain quantity where "q = \<lparr>q_market = market, q_offset = dec_Rat step * of_int offset,
        q_decimals = decimals (dec_String step), q_size = quantity, q_resting = []\<rparr>"
      using Cons.prems(2) t by (auto split: option.splits)
    then show ?thesis using t by (intro Cons.prems(1) [of m step]) simp_all
  next
    case False
    then have "pick_market market offset ms = Inr q"
      using Cons.prems(2) by (auto split: option.splits if_splits)
    then show ?thesis using Cons.IH Cons.prems(1) by (meson list.set_intros(2))
  qed
qed simp

text \<open>C19: A quote never crosses the book and loses nothing to rounding. A quoter made from the
  markets served has the tick of a row of its market; for a best price on that tick's grid, quote
  gives an order exactly when its price is positive: a post-only limit order at the best price
  less offset ticks to buy, plus offset ticks to sell, exactly.\<close>

theorem quote_outside:
  assumes "pick_market market offset rows = Inr q"
    and "\<forall>m\<in>set rows. \<forall>d. ptr_decimal (fld Market_t ''tick_size'' m) = Some d \<longrightarrow> decimal_ok d"
  shows "\<exists>m\<in>set rows. \<exists>step. ptr_string (fld Market_t ''market_id'' m) = Some market \<and>
    ptr_decimal (fld Market_t ''tick_size'' m) = Some step \<and>
    (\<forall>side best n p. dec_Rat best = of_int n * dec_Rat step \<longrightarrow>
       p = (if side = Buy then dec_Rat best - of_int offset * dec_Rat step else dec_Rat best + of_int offset * dec_Rat step) \<longrightarrow>
       (if 0 < p then \<exists>px. quote q side best = Some (limit_order market side px (q_size q)) \<and> dec_Rat px = p
        else quote q side best = None))"
proof -
  obtain m step where m: "m \<in> set rows" "ptr_string (fld Market_t ''market_id'' m) = Some market"
    "ptr_decimal (fld Market_t ''tick_size'' m) = Some step" "q_market q = market"
    "q_offset q = dec_Rat step * of_int offset" "q_decimals q = decimals (dec_String step)"
    using pick_market_row [OF assms(1)] by metis
  have ok: "decimal_ok step" using assms(2) m(1,3) by blast
  have "if 0 < p then \<exists>px. quote q side best = Some (limit_order market side px (q_size q)) \<and> dec_Rat px = p
      else quote q side best = None"
    if best: "dec_Rat best = of_int n * dec_Rat step"
      and p: "p = (if side = Buy then dec_Rat best - of_int offset * dec_Rat step else dec_Rat best + of_int offset * dec_Rat step)"
    for side best n p
  proof -
    have p': "p = (if side = Buy then dec_Rat best - q_offset q else dec_Rat best + q_offset q)"
      using p m(5) by (simp add: mult.commute)
    show ?thesis
    proof (cases "0 < p")
      case True
      let ?n = "if side = Buy then n - offset else n + offset"
      have "p = of_int ?n * dec_Rat step" unfolding p best by (simp add: algebra_simps)
      then obtain z where "p * 10 ^ q_decimals q = of_int z"
        using on_grid_int [OF ok, of ?n] unfolding m(6) decimals_places by metis
      from quote_exact [OF p' this True] True show ?thesis unfolding m(4) by metis
    next
      case False
      then show ?thesis using p' by (simp add: quote_def Let_def)
    qed
  qed
  then show ?thesis using m(1-3) by blast
qed

definition sample_market :: go_val where
  "sample_market = VStruct [VNil, VNil, VPtr (VDecimal \<lparr>dec_s = ''0.1''\<rparr>), VNil, VPtr (VString ''BTC''), VNil, VNil,
     VNil, VNil, VPtr (VDecimal \<lparr>dec_s = ''0.5''\<rparr>)]"

theorem quote_outside_witness:
  "\<exists>q. pick_market ''BTC'' 3 [sample_market] = Inr q \<and>
     (\<exists>px. quote q Buy \<lparr>dec_s = ''10.5''\<rparr> = Some (limit_order ''BTC'' Buy px (q_size q)) \<and> dec_Rat px = 9)"
proof -
  let ?step = "\<lparr>dec_s = ''0.5''\<rparr> :: decimal"
  obtain q where q: "pick_market ''BTC'' 3 [sample_market] = Inr q"
    by (simp add: sample_market_def fld_def Market_t_def)
  have t: "ptr_decimal (fld Market_t ''tick_size'' sample_market) = Some ?step"
    by (simp add: sample_market_def fld_def Market_t_def)
  have ok: "decimal_ok ?step" by code_simp
  have v: "dec_Rat ?step = 1 / 2" "dec_Rat \<lparr>dec_s = ''10.5''\<rparr> = 21 / 2" by code_simp+
  have "\<forall>m\<in>set [sample_market]. \<forall>d. ptr_decimal (fld Market_t ''tick_size'' m) = Some d \<longrightarrow> decimal_ok d"
    using t ok by simp
  from quote_outside [OF q this] obtain step where s: "ptr_decimal (fld Market_t ''tick_size'' sample_market) = Some step"
    "\<And>side best n p. dec_Rat best = of_int n * dec_Rat step \<Longrightarrow>
       p = (if side = Buy then dec_Rat best - of_int 3 * dec_Rat step else dec_Rat best + of_int 3 * dec_Rat step) \<Longrightarrow>
       (if 0 < p then \<exists>px. quote q side best = Some (limit_order ''BTC'' side px (q_size q)) \<and> dec_Rat px = p
        else quote q side best = None)"
    by auto
  have "step = ?step" using s(1) t by simp
  then have "\<exists>px. quote q Buy \<lparr>dec_s = ''10.5''\<rparr> = Some (limit_order ''BTC'' Buy px (q_size q)) \<and> dec_Rat px = 9"
    using s(2) [of "\<lparr>dec_s = ''10.5''\<rparr>" 21 9 Buy] v by simp
  then show ?thesis using q by blast
qed

subsection \<open>Old quotes are cancelled before new ones are placed\<close>

definition cancel_of :: "string \<Rightarrow> string \<Rightarrow> request \<Rightarrow> bool" where
  "cancel_of base oid req = (r_method req = ''DELETE'' \<and> r_path req = base @ ''/orders/'' @ PathEscape oid)"

definition sdk_transport :: "'s transport \<Rightarrow> bool" where
  "sdk_transport t =
     (plain_path (after_scheme (t_base t)) \<and> quiet t \<and> 0 \<le> t_minDelay t \<and> t_minDelay t \<le> t_maxDelay t)"

lemma route_log:
  assumes "sdk_transport t" "route N k tmpl" "perform V t w k = (r, w')"
  shows "\<exists>q xs. w_log w' = w_log w @ xs \<and> length xs \<le> (if call_method k = ''GET'' then Suc (t_maxRetries t) else 1) \<and>
    (\<forall>x\<in>set xs. requests_to k (after_scheme (t_base t) @ call_path k) q (fst x))"
  using assms perform_log [OF assms(2) _ _ _ _ assms(3)] unfolding sdk_transport_def by metis

text \<open>A client that is not stopped before it sends: its context lives, it signs and it may send.\<close>

definition alive :: "env \<Rightarrow> 's transport \<Rightarrow> bool" where
  "alive V t = (e_done V = (\<lambda>_. False) \<and> willing t \<and> t_refuse t = None)"

lemma do_request_sends:
  assumes "quiet t" "do_request V t w extra m path body out = (r, w')"
    and "(\<exists>v. r = Inr v) \<or> alive V t \<and> parse_target (after_scheme (t_base t) @ path) \<noteq> None"
  shows "\<exists>x. w_log w' = w_log w @ [x]"
  using assms(1,2)
proof (cases rule: do_request_cases)
  case local
  then have a: "alive V t" and "parse_target (after_scheme (t_base t) @ path) \<noteq> None" using assms(3) by auto
  then obtain wire q where u: "parse_target (after_scheme (t_base t) @ path) = Some (wire, q)" by auto
  obtain c n where c: "costOf m path body = (c, n)" by fastforce
  obtain w1 where p: "pace V w c n = (True, w1)"
    using pace_alive [of V w c n] a by (cases "pace V w c n") (simp add: alive_def)
  obtain h w2 where s: "sign_request V t w1 (base_headers t body extra) m wire q body = (Inr h, w2)"
    using a unfolding alive_def willing_def by blast
  obtain a' w3 where n: "send_http V w2 \<lparr>r_method = m, r_path = wire, r_query = q, r_headers = h, r_body = body\<rparr> = (a', w3)"
    by fastforce
  have "read_answer V t w3 c out a' = (r, w')"
    using assms(2) by (simp add: do_request_def c p u s n)
  then have "w_log w' = w_log w3" using read_answer_io [OF assms(1)] by blast
  moreover have "w_log w2 = w_log w" using quiet_sign [OF assms(1) s] pace_log [of V w c n] p by simp
  ultimately show ?thesis using n by (auto simp: send_http_def Let_def tick_def)
qed blast

lemma perform_sends:
  assumes "sdk_transport t" "route N k tmpl" "k_verb k = VSend m" "perform V t w k = (r, w')"
    and "(\<exists>v. r = Inr v) \<or> alive V t \<and> m \<noteq> ''GET'' \<and> k_body k \<noteq> Some None"
  shows "\<exists>x. w_log w' = w_log w @ [x]"
proof -
  obtain r1 where s: "Send V t w [] m (k_path k) (k_body k) (k_out k) = (r1, w')"
    "r = map_sum (\<lambda>e. e) (\<lambda>v. (case v of None \<Rightarrow> k_zero k | Some a \<Rightarrow> a, [])) r1"
    using assms(3,4) by (auto simp: perform_def Let_def split: prod.splits)
  have go: "t_refuse t = None" "m \<noteq> ''GET''" "k_body k \<noteq> Some None"
    using assms(5) s by (auto simp: Send_def alive_def split: option.splits if_splits)
  obtain r2 where d: "do_request V t w [] m (k_path k)
      (case k_body k of Some (Some j) \<Rightarrow> Some (json_print j) | _ \<Rightarrow> None) (k_out k) = (r2, w')"
    "r1 = map_sum (\<lambda>e. e) fst r2"
    using s(1) go by (auto simp: Send_def split: prod.splits)
  have "parse_target (after_scheme (t_base t) @ k_path k) \<noteq> None"
    using target_parses [OF assms(2), of "after_scheme (t_base t)"] assms(1,3) by (auto simp: sdk_transport_def call_target_def)
  moreover have "(\<exists>v. r2 = Inr v) \<or> alive V t" using assms(5) s(2) d(2) by (cases r2) auto
  ultimately show ?thesis using do_request_sends [OF _ d(1)] assms(1) unfolding sdk_transport_def by blast
qed

text \<open>The cancel of one quote, in the requests a step adds: at most one request, and one at least from a
  client that is not stopped.\<close>

definition cancelled_once :: "env \<Rightarrow> 's transport \<Rightarrow> string \<Rightarrow> (request \<times> net_result) list \<Rightarrow> bool" where
  "cancelled_once V t oid xs =
     (length xs \<le> 1 \<and> (alive V t \<longrightarrow> xs \<noteq> []) \<and> list_all (\<lambda>x. cancel_of (after_scheme (t_base t)) oid (fst x)) xs)"

lemma cancel_each_log:
  assumes "sdk_transport t" "[] \<notin> set oids"
  shows "\<exists>xss. w_log (cancel_each V t N market w oids) = w_log w @ concat xss \<and>
    list_all2 (cancelled_once V t) oids xss"
  using assms(2)
proof (induction oids arbitrary: w)
  case Nil
  then show ?case by (intro exI [of _ "[]"]) simp
next
  case (Cons oid oids)
  let ?k = "CancelOrder N oid market"
  obtain r w1 where p: "perform V t w ?k = (r, w1)" by fastforce
  have route: "route N ?k ''/orders/{order_id}''" using Cons.prems by (intro route.intros) auto
  have k: "call_method ?k = ''DELETE''" "call_path ?k = ''/orders/'' @ PathEscape oid"
    using cut_orderPath [of oid market] by (simp_all add: CancelOrder_def call_defs)
  obtain q xs where xs: "w_log w1 = w_log w @ xs" "length xs \<le> 1"
    "\<forall>x\<in>set xs. requests_to ?k (after_scheme (t_base t) @ call_path ?k) q (fst x)"
    using route_log [OF assms(1) route p] k(1) by auto
  have "xs \<noteq> []" if "alive V t"
    using perform_sends [OF assms(1) route _ p, of "''DELETE''"] that xs(1) by (auto simp: CancelOrder_def send_call_def)
  then have "cancelled_once V t oid xs"
    using xs(2,3) k by (auto simp: requests_to_def cancel_of_def cancelled_once_def list_all_iff)
  moreover obtain xss where "w_log (cancel_each V t N market w1 oids) = w_log w1 @ concat xss"
    "list_all2 (cancelled_once V t) oids xss"
    using Cons.IH [of w1] Cons.prems by auto
  ultimately show ?case using xs(1,2) p by (intro exI [of _ "xs # xss"]) simp
qed

text \<open>C15: requote sends, for each resting quote in turn, one cancel of that quote (none only where
  the context, the signer or the network stops it before sending), and only
  after all of them at most one batch, whose body is the quotes for the book's best bid and ask;
  with an empty side it sends nothing and keeps its quotes. So at no time do two generations of
  quotes rest because of an order of sends.\<close>

theorem requote_cancels_first:
  assumes "sdk_transport t" "[] \<notin> set (q_resting q)" "requote V t w N q bids asks = (r, w')"
  shows "(if bids = [] \<or> asks = [] then w' = w \<and> r = Inr q
    else \<exists>xss placed. w_log w' = w_log w @ concat xss @ placed \<and>
      list_all2 (cancelled_once V t) (q_resting q) xss \<and>
      length placed \<le> 1 \<and>
      (\<forall>x\<in>set placed. r_method (fst x) = ''POST'' \<and> r_path (fst x) = after_scheme (t_base t) @ ''/orders/batch'' \<and>
         r_body (fst x) = call_body (CreateOrders N (batch (quotes q (level_price (hd bids)) (level_price (hd asks)))))))"
proof (cases "bids = [] \<or> asks = []")
  case True
  then show ?thesis using assms(3) by (auto simp: requote_def split: list.splits)
next
  case False
  let ?q = "q\<lparr>q_resting := []\<rparr>"
  let ?w = "cancel_each V t N (q_market q) w (q_resting q)"
  let ?k = "CreateOrders N (batch (quotes q (level_price (hd bids)) (level_price (hd asks))))"
  obtain p w2 where p: "perform V t ?w ?k = (p, w2)" by fastforce
  have fields: "q_market ?q = q_market q" "q_offset ?q = q_offset q" "q_decimals ?q = q_decimals q" "q_size ?q = q_size q"
    by simp_all
  have same: "quotes ?q b a = quotes q b a" for b a
    unfolding quotes_def quote_def fields by (rule refl)
  have w2: "w' = w2"
    using False assms(3) p
    by (auto simp: requote_def cancelResting_def Let_def same neq_Nil_conv split: sum.splits prod.splits)
  have k: "call_method ?k = ''POST''" "call_path ?k = ''/orders/batch''"
    by (simp_all add: CreateOrders_def call_defs cut_free)
  have "route N ?k ''/orders/batch''" by (rule route.intros)
  from route_log [OF assms(1) this p] obtain q' ps where ps: "w_log w2 = w_log ?w @ ps" "length ps \<le> 1"
    "\<forall>x\<in>set ps. requests_to ?k (after_scheme (t_base t) @ call_path ?k) q' (fst x)"
    using k(1) by auto
  obtain xss where xss: "w_log ?w = w_log w @ concat xss"
    "list_all2 (cancelled_once V t) (q_resting q) xss"
    using cancel_each_log [OF assms(1,2)] by blast
  have "\<forall>x\<in>set ps. r_method (fst x) = ''POST'' \<and> r_path (fst x) = after_scheme (t_base t) @ ''/orders/batch'' \<and>
      r_body (fst x) = call_body ?k"
    using ps(3) unfolding requests_to_def k by blast
  moreover have "w_log w' = w_log w @ concat xss @ ps" using ps(1) xss(1) w2 by simp
  ultimately show ?thesis using xss(2) ps(2) False by auto
qed

definition sample_quoter :: quoter where
  "sample_quoter = \<lparr>q_market = ''BTC'', q_offset = 1, q_decimals = 0, q_size = \<lparr>dec_s = ''1''\<rparr>, q_resting = [''a'']\<rparr>"

lemma sdk_local [simp]: "sdk_transport (local_transport :: unit transport)"
  using quiet_no_signer [of "local_transport :: unit transport"] by (simp add: sdk_transport_def plain_path_def)

theorem requote_cancels_first_witness:
  "length (w_log (snd (requote (steady_env NetFail) (local_transport :: unit transport) (start_world ()) sample_nullable
     sample_quoter [VStruct [VDecimal \<lparr>dec_s = ''10''\<rparr>]] [VStruct [VDecimal \<lparr>dec_s = ''11''\<rparr>]]))) \<le> 2"
proof -
  let ?t = "local_transport :: unit transport"
  let ?b = "[VStruct [VDecimal \<lparr>dec_s = ''10''\<rparr>]]" and ?a = "[VStruct [VDecimal \<lparr>dec_s = ''11''\<rparr>]]"
  obtain r w' where e: "requote (steady_env NetFail) ?t (start_world ()) sample_nullable sample_quoter ?b ?a = (r, w')"
    by fastforce
  have "[] \<notin> set (q_resting sample_quoter)" by (simp add: sample_quoter_def)
  from requote_cancels_first [OF sdk_local this e] obtain xss placed where
    x: "w_log w' = concat xss @ placed" "length placed \<le> 1"
      "list_all2 (cancelled_once (steady_env NetFail) ?t) [''a''] xss"
    by (auto simp: start_world_def sample_quoter_def)
  then obtain xs where "xss = [xs]" "length xs \<le> 1" by (auto simp: list_all2_Cons1 cancelled_once_def)
  then show ?thesis using x e by simp
qed

subsection \<open>Shutdown\<close>

text \<open>C22: shutdown reports success only when nothing of its market rests. If it returns without an
  error, then the log grew by one cancel-all of the market followed by reads of the open
  orders, and the orders that read returned hold none of the market.\<close>

theorem shutdown_confirms:
  assumes "sdk_transport t" "shutdown V t w N q = (Inr n, w')"
  shows "\<exists>w1 c v x ys zs.
    perform V t w (CancelAllOrders N (q_market q)) = (Inr c, w1) \<and>
    perform V t w1 (FetchOpenOrders N) = (Inr (v, x), w') \<and>
    list_all (\<lambda>o'. ptr_string (fld Order_t ''market_id'' o') \<noteq> Some (q_market q)) (slice_of v) \<and>
    w_log w' = w_log w @ ys @ zs \<and> length ys = 1 \<and>
    (\<forall>y\<in>set ys. r_method (fst y) = ''DELETE'' \<and> r_path (fst y) = after_scheme (t_base t) @ ''/orders'') \<and>
    (\<forall>z\<in>set zs. r_method (fst z) = ''GET'' \<and> r_path (fst z) = after_scheme (t_base t) @ ''/orders'')"
proof -
  let ?c = "CancelAllOrders N (q_market q)" and ?f = "FetchOpenOrders N"
  obtain c w1 where c: "perform V t w ?c = (Inr c, w1)"
    using assms(2) by (auto simp: shutdown_def split: sum.splits prod.splits)
  obtain v x where v: "perform V t w1 ?f = (Inr (v, x), w')" "resting_in (q_market q) (slice_of v) = 0"
    using assms(2) c by (auto simp: shutdown_def Let_def split: sum.splits prod.splits if_splits)
  have "route N ?c ''/orders''" by (rule route.intros)
  from this obtain qc ys where ys: "w_log w1 = w_log w @ ys"
    "length ys \<le> (if call_method ?c = ''GET'' then Suc (t_maxRetries t) else 1)"
    "\<forall>x\<in>set ys. requests_to ?c (after_scheme (t_base t) @ call_path ?c) qc (fst x)"
    using route_log [OF assms(1) _ c] by blast
  have "route N ?f ''/orders''" by (rule route.intros)
  then obtain qf zs where zs: "w_log w' = w_log w1 @ zs"
    "length zs \<le> (if call_method ?f = ''GET'' then Suc (t_maxRetries t) else 1)"
    "\<forall>x\<in>set zs. requests_to ?f (after_scheme (t_base t) @ call_path ?f) qf (fst x)"
    using route_log [OF assms(1) _ v(1)] by blast
  have "\<exists>x. w_log w1 = w_log w @ [x]"
    using perform_sends [OF assms(1) \<open>route N ?c ''/orders''\<close> _ c] by (auto simp: CancelAllOrders_def send_call_def)
  then have one: "length ys = 1" using ys(1) by auto
  have k: "call_method ?c = ''DELETE''" "call_path ?c = ''/orders''" "call_method ?f = ''GET''" "call_path ?f = ''/orders''"
    using cut_cancel_all [of "query_encode [(''market_id'', q_market q)]"]
    by (simp_all add: CancelAllOrders_def FetchOpenOrders_def call_defs cut_free)
  have none: "list_all (\<lambda>o'. ptr_string (fld Order_t ''market_id'' o') \<noteq> Some (q_market q)) (slice_of v)"
    using v(2) by (auto simp: resting_in_def list_all_iff filter_empty_conv)
  show ?thesis
    using c v(1) none ys one zs k by (intro exI [of _ w1] exI [of _ c] exI [of _ v] exI [of _ x] exI [of _ ys] exI [of _ zs])
      (simp add: requests_to_def)
qed


theorem shutdown_confirms_witness:
  "\<exists>w'. shutdown (steady_env (Resp 200 [] (Some ''[]''))) (local_transport :: unit transport) (start_world ())
       sample_nullable sample_quoter = (Inr 0, w') \<and>
     (\<exists>ys zs. w_log w' = ys @ zs \<and> length ys = 1 \<and>
       list_all (\<lambda>y. r_method (fst y) = ''DELETE'' \<and> r_path (fst y) = ''/orders'') ys)"
proof -
  let ?V = "steady_env (Resp 200 [] (Some ''[]''))" and ?t = "local_transport :: unit transport" and ?N = sample_nullable
  let ?c = "CancelAllOrders ?N ''BTC''" and ?f = "FetchOpenOrders ?N" and ?d = "decode sample_nullable (TSlice Order_t)"
  let ?srv = "\<lambda>_. Resp 200 [] (Some ''[]'')"
  have plain: "plain_path (after_scheme (t_base ?t))" by (simp add: plain_path_def)
  have "path_text (after_scheme (t_base ?t) @ ''/orders'')" by (rule path_text_plain) (simp add: plain_defs)
  then have a: "answers ?V ?t ?srv ''/orders''"
    using quiet_no_signer [of ?t] willing_no_signer [of ?t] by (simp add: answers_def steady_env_def)
  have dec: "UnmarshalNumbers ?d ''[]'' = Inr (VSlice [])" by code_simp
  have len: "length ''[]'' \<le> maxBody" by (simp add: maxBody_def)
  have "call_target ?c = k_path ?c" by (simp add: CancelAllOrders_def call_defs call_target_def)
  then obtain qs where t1: "parse_target (after_scheme (t_base ?t) @ k_path ?c) = Some (after_scheme (t_base ?t) @ call_path ?c, qs)"
    using target_parses [OF route.intros(21) plain, of ?N "''BTC''"] by metis
  obtain w1 where 1: "do_request ?V ?t (start_world ()) [] ''DELETE'' (k_path ?c) None (Some ?d) = (Inr (Some (VSlice []), []), w1)"
    by (rule request_answered [OF a t1 refl _ _ _ len dec, where w = "start_world ()" and extra = "[]" and m = "''DELETE''" and b = None])
      simp_all
  have p1: "perform ?V ?t (start_world ()) ?c = (Inr (VSlice [], []), w1)"
    using 1 by (simp add: perform_def CancelAllOrders_def send_call_def Send_def local_transport_def New_def Let_def)
  obtain w2 where 2: "Get ?V ?t w1 ''/orders'' [] (Some ?d) = (Inr (Some (VSlice [])), w2)"
    by (rule Get_answered [OF a refl _ _ _ len dec, where w = w1 and q = "[]"]) simp_all
  have p2: "perform ?V ?t w1 ?f = (Inr (VSlice [], []), w2)"
    using 2 by (simp add: perform_def FetchOpenOrders_def get_call_def)
  have s: "shutdown ?V ?t (start_world ()) ?N sample_quoter = (Inr 0, w2)"
    using p1 p2 by (simp add: shutdown_def sample_quoter_def resting_in_def)
  from shutdown_confirms [OF sdk_local s] obtain ys zs where
    "w_log w2 = w_log (start_world ()) @ ys @ zs" "length ys = 1"
    "\<forall>y\<in>set ys. r_method (fst y) = ''DELETE'' \<and> r_path (fst y) = after_scheme (t_base ?t) @ ''/orders''" by blast
  then show ?thesis using s by (auto simp: start_world_def list_all_iff)
qed


subsection \<open>No run leaves without a shutdown\<close>

lemma read_results_error: "read_results N n i rs ids = Inl e \<Longrightarrow> e = BPanic"
  by (induction N n i rs ids rule: read_results.induct) (auto simp: Let_def split: sum.splits if_splits option.splits)

lemma resting_result:
  "map_sum id (\<lambda>ids. q\<lparr>q_resting := ids\<rparr>) (read_results N n i rs ids) = r \<Longrightarrow>
    (case r of Inl e \<Rightarrow> e = BPanic | Inr q' \<Rightarrow> q_market q' = q_market q)"
  by (cases "read_results N n i rs ids") (auto dest: read_results_error)

lemma requote_result:
  assumes "requote V t w N q bids asks = (r, w')"
  shows "case r of Inl e \<Rightarrow> e = BPanic | Inr q' \<Rightarrow> q_market q' = q_market q"
  using assms
  by (auto simp: requote_def cancelResting_def Let_def split: list.splits prod.splits sum.splits dest!: resting_result)

lemma quote_loop_result:
  "quote_loop V t N every prev q w books = (r, w') \<Longrightarrow>
    (case r of Inl e \<Rightarrow> e = BPanic | Inr q' \<Rightarrow> q_market q' = q_market q)"
proof (induction books arbitrary: prev q w)
  case (Cons b books)
  obtain bids asks where b: "b = (bids, asks)" by fastforce
  show ?case
  proof (cases "case prev of None \<Rightarrow> True | Some l \<Rightarrow> e_clock V (w_tick w) - l \<ge> every")
    case True
    obtain a w2 where a: "requote V t (tick (tick w)) N q bids asks = (a, w2)" by fastforce
    show ?thesis
    proof (cases a)
      case (Inl e)
      then show ?thesis using Cons.prems True a requote_result [OF a] by (simp add: b read_clock_def)
    next
      case (Inr q2)
      then have "quote_loop V t N every (Some (e_clock V (w_tick (tick w)))) q2 w2 books = (r, w')"
        using Cons.prems True a by (simp add: b read_clock_def)
      from Cons.IH [OF this] show ?thesis using requote_result [OF a] Inr by (cases r) simp_all
    qed
  next
    case False
    then have "quote_loop V t N every prev q (tick w) books = (r, w')"
      using Cons.prems by (simp add: b read_clock_def)
    then show ?thesis by (rule Cons.IH)
  qed
qed auto



end
