(* ===== verification/PlaceCancel.thy ===== *)
theory PlaceCancel
  imports Client Bot
begin

section \<open>Placing and cancelling one order (examples/placecancel/main.go)\<close>

text \<open>
  \<open>run\<close>: one post-only limit order to buy, then its cancel, with an API key from the
  environment. What is printed is the id and the status returned here; main, which parses flags
  and sets the deadline, is left out.
\<close>

datatype demo_error =
    DPrice dec_error
  | DQuantity dec_error
  | DSetup go_error
  | DPlace go_error
  | DNoId
  | DCancel string go_error

text \<open>The id of the order a response carries.\<close>

definition placed_id :: "go_val \<Rightarrow> string option" where
  "placed_id v =
     (case fld OrderResponse_t ''order'' v of VPtr ord \<Rightarrow> ptr_string (fld Order_t ''id'' ord) | _ \<Rightarrow> None)"

definition place_and_cancel ::
  "env \<Rightarrow> 's transport \<Rightarrow> 's world \<Rightarrow> nullable_lib \<Rightarrow> string \<Rightarrow> decimal \<Rightarrow> decimal
     \<Rightarrow> (demo_error + string \<times> string) \<times> 's world" where
  "place_and_cancel V t w N market px qty =
     (case perform V t w (CreateOrder N (limit_order market Buy px qty)) of
        (Inl e, w) \<Rightarrow> (Inl (DPlace e), w)
      | (Inr (v, _), w) \<Rightarrow>
          (case placed_id v of
             None \<Rightarrow> (Inl DNoId, w)
           | Some oid \<Rightarrow>
               (case perform V t w (CancelOrder N oid market) of
                  (Inl e, w) \<Rightarrow> (Inl (DCancel oid e), w)
                | (Inr (c, _), w) \<Rightarrow>
                    (Inr (oid, case ptr_string (fld Order_t ''status'' c) of Some s \<Rightarrow> s | None \<Rightarrow> ''?''), w))))"

text \<open>The whole run: its outcome and what it sent.\<close>

definition demo ::
  "'k eth_lib \<Rightarrow> nullable_lib \<Rightarrow> env \<Rightarrow> string \<Rightarrow> (string \<times> string) list \<Rightarrow> (string \<Rightarrow> int option)
     \<Rightarrow> string \<Rightarrow> string \<Rightarrow> string \<Rightarrow> string \<Rightarrow> string
     \<Rightarrow> (demo_error + string \<times> string) \<times> (request \<times> net_result) list" where
  "demo E N V file mods obsolete keyID secretHex market price quantity =
     (case ParseDecimal price of
        Inl e \<Rightarrow> (Inl (DPrice e), [])
      | Inr px \<Rightarrow>
          (case ParseDecimal quantity of
             Inl e \<Rightarrow> (Inl (DQuantity e), [])
           | Inr qty \<Rightarrow>
               (case NewAPISecret secretHex of
                  Inl e \<Rightarrow> (Inl (DSetup e), [])
                | Inr secret \<Rightarrow>
                    (case NewClient file mods obsolete Testnet [WithHMACAuth keyID secret] of
                       Inl e \<Rightarrow> (Inl (DSetup e), [])
                     | Inr (c :: 'k client) \<Rightarrow>
                         (case place_and_cancel V (client_transport E N c) (start_world (start_state c)) N market px qty of
                            (r, w) \<Rightarrow> (r, w_log w))))))"

subsection \<open>What a run sends\<close>

lemma Send_adds_one:
  assumes "quiet t" "Send V t w extra m path body out = (r, w')"
  shows "\<exists>xs. w_log w' = w_log w @ xs \<and> length xs \<le> 1"
proof (cases "t_refuse t = None \<and> m \<noteq> ''GET'' \<and> body \<noteq> Some None")
  case True
  then obtain r1 where "do_request V t w extra m path
      (case body of Some (Some j) \<Rightarrow> Some (json_print j) | _ \<Rightarrow> None) out = (r1, w')"
    using assms(2) by (auto simp: Send_def split: prod.splits)
  then show ?thesis by (rule do_request_cases [OF assms(1)]) auto
next
  case False
  then have "w' = w" using assms(2) by (auto simp: Send_def split: option.splits if_splits)
  then show ?thesis by simp
qed

lemma cancel_log:
  assumes "sdk_transport t" "perform V t w (CancelOrder N oid market) = (r, w')"
  shows "\<exists>xs. w_log w' = w_log w @ xs \<and> length xs \<le> 1 \<and>
    (oid \<noteq> [] \<longrightarrow> list_all (\<lambda>x. cancel_of (after_scheme (t_base t)) oid (fst x)) xs)"
proof (cases "oid = []")
  case True
  obtain r1 where "Send V t w [] ''DELETE'' (orderPath oid market) None (Some (decode N Order_t)) = (r1, w')"
    using assms(2) by (auto simp: perform_def CancelOrder_def send_call_def split: prod.splits)
  then show ?thesis using Send_adds_one assms(1) True by (auto simp: sdk_transport_def)
next
  case False
  then have "[] \<notin> set [oid]" by simp
  from cancel_each_log [OF assms(1) this] obtain xss where "w_log (cancel_each V t N market w [oid]) = w_log w @ concat xss"
    "list_all2 (cancelled_once V t) [oid] xss"
    by blast
  then show ?thesis using assms(2) by (auto simp: list_all2_Cons1 cancelled_once_def)
qed

text \<open>A run sends at most one order, a post-only limit order at the price and size asked for, and
  then at most one cancel, only of the id the exchange gave that order. It succeeds only with
  both answered.\<close>

lemma place_then_cancel:
  assumes "sdk_transport t" "place_and_cancel V t w N market px qty = (r, w')"
  shows "\<exists>placed cancelled. w_log w' = w_log w @ placed @ cancelled \<and> length placed \<le> 1 \<and> length cancelled \<le> 1 \<and>
    list_all (\<lambda>x. r_method (fst x) = ''POST'' \<and> r_path (fst x) = after_scheme (t_base t) @ ''/orders'' \<and>
      r_body (fst x) = call_body (CreateOrder N (limit_order market Buy px qty))) placed \<and>
    (cancelled = [] \<or> (\<exists>v x w1 oid. perform V t w (CreateOrder N (limit_order market Buy px qty)) = (Inr (v, x), w1) \<and>
       placed_id v = Some oid \<and> (oid \<noteq> [] \<longrightarrow> list_all (\<lambda>x. cancel_of (after_scheme (t_base t)) oid (fst x)) cancelled)))"
proof -
  let ?k = "CreateOrder N (limit_order market Buy px qty)"
  have k: "call_method ?k = ''POST''" "call_path ?k = ''/orders''"
    by (simp_all add: CreateOrder_def call_defs cut_free)
  obtain a w1 where p: "perform V t w ?k = (a, w1)" by fastforce
  have "route N ?k ''/orders''" by (rule route.intros)
  from route_log [OF assms(1) this p] obtain q placed where pl: "w_log w1 = w_log w @ placed" "length placed \<le> 1"
    "\<forall>x\<in>set placed. requests_to ?k (after_scheme (t_base t) @ call_path ?k) q (fst x)"
    using k(1) by auto
  have m: "list_all (\<lambda>x. r_method (fst x) = ''POST'' \<and> r_path (fst x) = after_scheme (t_base t) @ ''/orders'' \<and>
      r_body (fst x) = call_body ?k) placed"
    using pl(3) unfolding requests_to_def k by (auto simp: list_all_iff)
  show ?thesis
  proof (cases "\<exists>v x oid. a = Inr (v, x) \<and> placed_id v = Some oid")
    case True
    then obtain v x oid where a: "a = Inr (v, x)" "placed_id v = Some oid" by blast
    obtain c w2 where c: "perform V t w1 (CancelOrder N oid market) = (c, w2)" by fastforce
    have "w' = w2" using assms(2) p a c by (auto simp: place_and_cancel_def split: sum.splits prod.splits)
    then show ?thesis using cancel_log [OF assms(1) c] pl(1,2) m p a by auto
  next
    case False
    then have "w' = w1"
      using assms(2) p by (auto simp: place_and_cancel_def split: sum.splits prod.splits option.splits)
    then show ?thesis using pl(1,2) m by (intro exI [of _ placed] exI [of _ "[]"]) auto
  qed
qed

text \<open>Nothing is sent when an argument is unusable.\<close>

lemma demo_checks_first:
  "ParseDecimal price = Inl e \<or> ParseDecimal quantity = Inl e \<or> NewAPISecret secretHex = Inl e' \<or> keyID = [] \<Longrightarrow>
    snd (demo E N V file mods obsolete keyID secretHex market price quantity) = []"
  by (auto simp: demo_def NewClient_def restBases_def WithHMACAuth_def add_cred_def Let_def Testnet_def Mainnet_def
      split: sum.split option.split)

end
