(* ===== verification/Smoke.thy ===== *)
theory Smoke
  imports Client Bot
begin

section \<open>The pre-publish smoke test (scripts/release_gate/smoke/main.go)\<close>

text \<open>
  One keyless read of the markets of Testnet, and the outcome the process exits with. The
  origin NEXUS_SMOKE_BASE_URL names, if any, is another http.Client, which belongs to the
  environment; the messages printed are left out. The deadline is the context's only way to
  end, so the transport's EContext is context.DeadlineExceeded, and an error while a body is
  read (ERead) is a net.Error or io.ErrUnexpectedEOF, as the source has it.
\<close>

datatype smoke_outcome =
    Passed nat string
  | Failed
  | Unreachable

fun exit_code :: "smoke_outcome \<Rightarrow> int" where
  "exit_code (Passed n market) = 0"
| "exit_code Failed = 1"
| "exit_code Unreachable = 2"

text \<open>The status codes of an answer the server may recover from.\<close>

definition may_recover :: "int \<Rightarrow> bool" where
  "may_recover s = (s \<ge> 500 \<or> s = 408 \<or> s = 429 \<or> s = 451)"

fun no_answer :: "go_error \<Rightarrow> bool" where
  "no_answer EContext = True"
| "no_answer ENetwork = True"
| "no_answer ERead = True"
| "no_answer (EDecode e) = (e = JCut)"
| "no_answer (ELocal e) = no_answer e"
| "no_answer (ERefresh e) = no_answer e"
| "no_answer _ = False"

definition unreachable :: "go_error \<Rightarrow> bool" where
  "unreachable err = (case as_api err of Some e \<Rightarrow> may_recover (StatusCode e) | None \<Rightarrow> no_answer err)"

definition market_name :: "go_val \<Rightarrow> string option" where
  "market_name m = ptr_string (fld MarketSummary_t ''market_id'' m)"

definition judge_markets :: "go_val list \<Rightarrow> smoke_outcome" where
  "judge_markets ms =
     (case ms of
        [] \<Rightarrow> Failed
      | m # _ \<Rightarrow>
          if list_ex (\<lambda>m. market_name m = None \<or> market_name m = Some []) ms then Failed
          else Passed (length ms) (the (market_name m)))"

definition smoke ::
  "'k eth_lib \<Rightarrow> nullable_lib \<Rightarrow> env \<Rightarrow> string \<Rightarrow> (string \<times> string) list \<Rightarrow> (string \<Rightarrow> int option)
     \<Rightarrow> smoke_outcome \<times> (request \<times> net_result) list" where
  "smoke E N V file mods obsolete =
     (case NewClient file mods obsolete Testnet [] of
        Inl e \<Rightarrow> (Failed, [])
      | Inr c \<Rightarrow>
          (case perform V (client_transport E N c) (start_world (start_state c)) (FetchMarketsSummary N) of
             (Inl e, w) \<Rightarrow> (if unreachable e then Unreachable else Failed, w_log w)
           | (Inr (v, _), w) \<Rightarrow> (judge_markets (slice_of v), w_log w)))"

text \<open>The source says that a body cut short is no decode error. A body that came whole may hold a JSON
  text that is cut short, and what the decoder then returns is the same error.\<close>

lemma cut_text_unreachable:
  "UnmarshalNumbers dec ''[{'' = Inl JCut \<and> unreachable (EDecode JCut) \<and> \<not> unreachable (EDecode JSyntax)"
proof -
  have "decode_first ''[{'' = Inl JCut" by code_simp
  then show ?thesis by (simp add: UnmarshalNumbers_def unreachable_def)
qed

subsection \<open>The answer a GET ends with\<close>

lemma read_answer_result:
  assumes "read_answer V t w c (Some dec) a = (r, w')"
  shows "case r of
      Inr (v, h) \<Rightarrow> (\<exists>s rh b. a = Resp s rh (Some b) \<and> 200 \<le> s \<and> s \<le> 299 \<and>
        (case v of None \<Rightarrow> True | Some x \<Rightarrow> UnmarshalNumbers dec (limit_read b) = Inr x))
    | Inl e \<Rightarrow> a = NetFail \<and> e = ENetwork \<or> (\<exists>s rh. a = Resp s rh None \<and> e = ERead) \<or>
        (\<exists>s rh b ae. a = Resp s rh (Some b) \<and> as_api e = Some ae \<and> StatusCode ae = s) \<or>
        (\<exists>s rh b je. a = Resp s rh (Some b) \<and> 200 \<le> s \<and> s \<le> 299 \<and>
           UnmarshalNumbers dec (limit_read b) = Inl je \<and> e = EDecode je)"
proof (cases "\<exists>s rh b. a = Resp s rh (Some b) \<and> (s < 200 \<or> s > 299)")
  case True
  then obtain s rh b where a: "a = Resp s rh (Some b)" "s < 200 \<or> s > 299" by blast
  obtain e u where f: "failed_response V t w c s rh (limit_read b) = (e, u)" by fastforce
  then have "r = Inl e" using assms a by (auto simp: read_answer_def Let_def split: prod.splits)
  moreover obtain ae where "as_api e = Some ae" "StatusCode ae = s" using failed_response_api [OF f] by blast
  ultimately show ?thesis using a by auto
next
  case False
  then show ?thesis
    using assms
    by (auto simp: read_answer_def Let_def read_clock_def tick_def
        split: net_result.splits option.splits if_splits sum.splits)
qed

text \<open>Without a signer and with a path that parses, a request either is the context's end or was
  answered.\<close>

lemma do_request_unsigned:
  assumes "t_signer t = None" "parse_target (after_scheme (t_base t) @ path) = Some (wire, q)"
    and "do_request V t w extra m path body out = (r, w')"
  shows "r = Inl EContext \<and> (\<exists>k. e_done V k) \<or>
    (\<exists>x w3 c. w_log w' = w_log w @ [x] \<and> read_answer V t w3 c out (snd x) = (r, w'))"
proof -
  obtain c n where c: "costOf m path body = (c, n)" by fastforce
  obtain ok w1 where p: "pace V w c n = (ok, w1)" by fastforce
  show ?thesis
  proof (cases ok)
    case False
    then have "\<exists>k. e_done V k" using pace_alive [of V w c n] p by force
    then show ?thesis using assms(3) c p False by (simp add: do_request_def)
  next
    case True
    note quiet = quiet_no_signer [OF assms(1)]
    have s: "sign_request V t w1 h m wire q body = (Inr h, w1)" for h
      using assms(1) by (simp add: sign_request_def)
    show ?thesis using quiet assms(3)
    proof (cases rule: do_request_cases)
      case local
      obtain a w3 where "send_http V w1 \<lparr>r_method = m, r_path = wire, r_query = q, r_headers = base_headers t body extra,
          r_body = body\<rparr> = (a, w3)" by fastforce
      then have "r = fst (read_answer V t w3 c out a)" "w' = snd (read_answer V t w3 c out a)" "w_log w3 \<noteq> w_log w"
        using assms(2,3) c p True s pace_log [of V w c n] by (auto simp: do_request_def send_http_def Let_def tick_def)
      then have False using local(2) read_answer_io [OF quiet, of V w3 c out a r w'] by simp
      then show ?thesis ..
    next
      case (sent wire' q' h w1' w2 w3 a)
      then show ?thesis by (intro disjI2 exI conjI) auto
    qed
  qed
qed

lemma get_loop_step:
  assumes "do_request V t w [] ''GET'' path None out = (Inl err, w1)"
    and "get_loop V t (Suc n) delay w [] path out = (r, w')"
  shows "r = Inl err \<and> w_log w' = w_log w1 \<or> r = Inl EContext \<and> (\<exists>k. e_done V k) \<or>
    (\<exists>d w4. w_log w4 = w_log w1 \<and> get_loop V t n d w4 [] path out = (r, w'))"
  using assms
  by (auto simp: get_loop.simps [of V t "Suc n"] ctx_done_def Let_def draw_def sleep_def tick_def
      split: if_splits option.splits bool.splits)

lemma get_loop_answer:
  assumes "t_signer t = None" "parse_target (after_scheme (t_base t) @ path) = Some (wire, q)"
  shows "get_loop V t left delay w [] path out = (r, w') \<Longrightarrow>
    r = Inl EContext \<and> (\<exists>k. e_done V k) \<or>
    (\<exists>xs x w3 c u. w_log w' = w_log w @ xs @ [x] \<and> read_answer V t w3 c out (snd x) = (r, u))"
proof (induction left arbitrary: delay w)
  case 0
  obtain r1 w1 where d: "do_request V t w [] ''GET'' path None out = (r1, w1)" by fastforce
  then have "r = r1" "w' = w1" using 0 by (auto simp: get_loop.simps [of V t 0] split: sum.splits)
  then show ?case using do_request_unsigned [OF assms d] by (metis append_Nil)
next
  case (Suc n)
  obtain r1 w1 where d: "do_request V t w [] ''GET'' path None out = (r1, w1)" by fastforce
  have one: "r1 = Inl EContext \<and> (\<exists>k. e_done V k) \<or>
      (\<exists>xs x w3 c u. w_log w1 = w_log w @ xs @ [x] \<and> read_answer V t w3 c out (snd x) = (r1, u))"
    using do_request_unsigned [OF assms d] by (metis append_Nil)
  obtain ys where ys: "w_log w1 = w_log w @ ys"
    using do_request_cases [OF quiet_no_signer [OF assms(1)] d] by (metis append_Nil2)
  show ?case
  proof (cases r1)
    case (Inr a)
    then have "r = r1" "w' = w1" using Suc.prems d by (simp_all add: get_loop.simps [of V t "Suc n"])
    then show ?thesis using one by simp
  next
    case (Inl err)
    consider "r = Inl err" "w_log w' = w_log w1" | "r = Inl EContext" "\<exists>k. e_done V k"
      | d' w4 where "w_log w4 = w_log w1" "get_loop V t n d' w4 [] path out = (r, w')"
      using get_loop_step [OF d [unfolded Inl] Suc.prems] by blast
    then show ?thesis
    proof cases
      case 1
      then show ?thesis using one Inl by auto
    next
      case (3 d' w4)
      then show ?thesis using Suc.IH [OF 3(2)] ys by (metis append.assoc)
    qed simp
  qed
qed

subsection \<open>The verdict\<close>

lemma judge_markets_passed:
  assumes "judge_markets ms = Passed n first"
  shows "0 < n \<and> length ms = n \<and> list_all (\<lambda>m. \<exists>i. i \<noteq> [] \<and> market_name m = Some i) ms"
  using assms by (auto simp: judge_markets_def list_all_iff list_ex_iff split: list.splits if_splits)

definition the_client :: "string \<Rightarrow> (string \<times> string) list \<Rightarrow> (string \<Rightarrow> int option) \<Rightarrow> 'k client" where
  "the_client file mods obsolete =
     (let t = New (''https://api.testnet.nexus.xyz'' @ edgePrefix) (APIVersion file) mods obsolete
      in \<lparr>c_t = t, c_pub = t, c_network = Testnet, c_cred = None, c_pingEvery = defaultPingEvery, c_pingWait = defaultPingWait\<rparr>)"

lemma NewClient_keyless: "NewClient file mods obsolete Testnet [] = Inr (the_client file mods obsolete)"
  by (simp add: NewClient_def the_client_def restBases_def Let_def Testnet_def Mainnet_def)

lemma testnet_base: "after_scheme (trim_right_char (CHR ''/'') (''https://api.testnet.nexus.xyz'' @ edgePrefix)) = ''/v1''"
  by code_simp

lemma keyless_transport:
  fixes c :: "'k client"
  assumes "c = the_client file mods obsolete"
  shows "t_signer (client_transport E N c) = None" "t_refuse (client_transport E N c) = None"
    "t_maxRetries (client_transport E N c) = 3" "0 \<le> t_minDelay (client_transport E N c)"
    "t_minDelay (client_transport E N c) \<le> t_maxDelay (client_transport E N c)"
    "after_scheme (t_base (client_transport E N c)) = ''/v1''"
  by (simp_all only: assms client_transport_def the_client_def New_def Let_def second_def transport.simps client.simps testnet_base) simp_all

lemma smoke_run:
  fixes c :: "'k client"
  assumes "c = the_client file mods obsolete"
  obtains r :: "go_error + go_val option \<times> headers" and w' :: "'k client_state world"
  where "smoke E N V file mods obsolete =
      (case r of Inl e \<Rightarrow> if unreachable e then Unreachable else Failed
        | Inr a \<Rightarrow> judge_markets (slice_of (case fst a of None \<Rightarrow> VNil | Some v \<Rightarrow> v)), w_log w')"
    "length (w_log w') \<le> 4" "list_all (\<lambda>x. r_method (fst x) = ''GET'' \<and> r_body (fst x) = None \<and>
      r_path (fst x) = ''/v1/markets/summary'') (w_log w')"
    "r = Inl EContext \<and> (\<exists>k. e_done V k) \<or>
      (\<exists>xs x w3 cl u. w_log w' = xs @ [x] \<and>
         read_answer V (client_transport E N c) w3 cl (Some (decode N (TSlice MarketSummary_t))) (snd x) = (r, u))"
proof -
  let ?t = "client_transport E N c" and ?k = "FetchMarketsSummary N"
  note t = keyless_transport [OF assms, of E N]
  let ?w = "start_world (start_state c) :: 'k client_state world" and ?d = "decode N (TSlice MarketSummary_t)"
  have parse: "parse_target (after_scheme (t_base ?t) @ ''/markets/summary'') = Some (''/v1/markets/summary'', [])"
    using parse_path_text [OF path_text_plain [of "''/v1/markets/summary''"]] t(6) by (simp add: plain_defs)
  obtain r w' where g: "get_loop V ?t 3 (t_minDelay ?t) ?w [] ''/markets/summary'' (Some ?d) = (r, w')" by fastforce
  have p: "perform V ?t ?w ?k = (map_sum (\<lambda>e. e) (\<lambda>a. (case fst a of None \<Rightarrow> VNil | Some v \<Rightarrow> v, [])) r, w')"
    using g t(2,3) by (cases r) (auto simp add: perform_def FetchMarketsSummary_def get_call_def Get_def Get_raw_def
      with_query_def Let_def simp del: decode.simps split: option.split)
  have "smoke E N V file mods obsolete =
      (case r of Inl e \<Rightarrow> if unreachable e then Unreachable else Failed
        | Inr a \<Rightarrow> judge_markets (slice_of (case fst a of None \<Rightarrow> VNil | Some v \<Rightarrow> v)), w_log w')"
    using p unfolding smoke_def NewClient_keyless assms by (cases r) simp_all
  moreover have "get_trace ?t (Some ?d) ''/markets/summary'' 3 ?w w'"
    using get_loop_trace [OF quiet_no_signer [OF t(1)] t(4) order_refl t(5) g] .
  then have "length (w_log w') \<le> 4" "list_all (\<lambda>x. r_method (fst x) = ''GET'' \<and> r_body (fst x) = None \<and>
      r_path (fst x) = ''/v1/markets/summary'') (w_log w')"
    using parse by (auto simp: get_trace_def start_world_def list_all_iff)
  moreover have "r = Inl EContext \<and> (\<exists>k. e_done V k) \<or>
      (\<exists>xs x w3 cl u. w_log w' = xs @ [x] \<and> read_answer V ?t w3 cl (Some ?d) (snd x) = (r, u))"
    using get_loop_answer [OF t(1) parse g] by (simp add: start_world_def del: decode.simps)
  ultimately show ?thesis by (rule that)
qed

lemma error_verdict:
  assumes "read_answer V t w c (Some dec) a = (Inl e, w')"
  shows "if unreachable e
    then a = NetFail \<or> (\<exists>s rh. a = Resp s rh None) \<or>
      (\<exists>s rh b. a = Resp s rh (Some b) \<and> (may_recover s \<or> UnmarshalNumbers dec (limit_read b) = Inl JCut))
    else \<exists>s rh b. a = Resp s rh (Some b) \<and> \<not> may_recover s"
  using read_answer_result [OF assms, unfolded sum.case]
  by (elim disjE exE conjE) (auto simp: unreachable_def may_recover_def)

lemma value_verdict:
  assumes "read_answer V t w c (Some dec) a = (Inr (v, h), w')"
  shows "case judge_markets (slice_of (case v of None \<Rightarrow> VNil | Some v \<Rightarrow> v)) of
      Passed n first \<Rightarrow> \<exists>s rh b ms. a = Resp s rh (Some b) \<and> 200 \<le> s \<and> s \<le> 299 \<and>
        UnmarshalNumbers dec (limit_read b) = Inr (VSlice ms) \<and> 0 < n \<and> length ms = n \<and>
        list_all (\<lambda>m. \<exists>i. i \<noteq> [] \<and> market_name m = Some i) ms
    | Failed \<Rightarrow> \<exists>s rh b. a = Resp s rh (Some b) \<and> \<not> may_recover s
    | Unreachable \<Rightarrow> False"
proof -
  obtain s rh b where b: "a = Resp s rh (Some b)" "200 \<le> s" "s \<le> 299"
    "case v of None \<Rightarrow> True | Some y \<Rightarrow> UnmarshalNumbers dec (limit_read b) = Inr y"
    using read_answer_result [OF assms] by auto
  show ?thesis
  proof (cases "judge_markets (slice_of (case v of None \<Rightarrow> VNil | Some v \<Rightarrow> v))")
    case (Passed n first)
    then obtain y where y: "v = Some y" "slice_of y \<noteq> []"
      using judge_markets_passed [OF Passed] by (cases v) auto
    then obtain ms where ms: "y = VSlice ms" by (cases y) auto
    then have p: "judge_markets ms = Passed n first" using Passed y by simp
    show ?thesis using judge_markets_passed [OF p] y ms b by (simp add: p)
  next
    case Failed
    then show ?thesis using b(1-3) by (auto simp: may_recover_def)
  next
    case Unreachable
    then show ?thesis by (auto simp: judge_markets_def split: list.splits if_splits)
  qed
qed


end
