(* ===== verification/Weights.thy ===== *)
theory Weights
  imports RateLimit GoTypes "HOL-Library.Multiset"
begin

section \<open>The generator of the weights table (internal/transport/genweights/main.go)\<close>

text \<open>
  genweights reads the cost markers of every operation in the specification and writes the table
  of weights.gen.go, which RateLimit holds as specCosts. Modelled is main from the downloaded text
  to the file: the decoded paths, one row per operation with the checks that stop the generation,
  the sorted rows and the source around them. The order in which Go ranges over the paths is an
  argument, and so is go/format. The download and the write are left out.
\<close>

text \<open>A log.Fatal is its message's format.\<close>

type_synonym fatal = string

subsection \<open>One operation\<close>

text \<open>formula.FindStringSubmatch: the two groups of digits.\<close>

definition formula :: "string \<Rightarrow> (string \<times> string) option" where
  "formula s =
     (let base = takeWhile is_digit s in
      if base = [] then None
      else (case strip_prefix '' + floor(order_count / '' (dropWhile is_digit s) of
              None \<Rightarrow> None
            | Some rest \<Rightarrow>
                (let n = takeWhile is_digit rest in
                 if n = [] \<or> dropWhile is_digit rest \<noteq> '')'' then None else Some (base, n))))"

text \<open>strconv.Atoi of digits, the error ignored: out of range it is the largest int.\<close>

definition atoi :: "string \<Rightarrow> int" where
  "atoi s = (case parse_int64 s of Some i \<Rightarrow> i | None \<Rightarrow> max_int64)"

definition op_t :: go_type where
  "op_t = TStruct
     [(''x-nexus-rate-limit-weight'', False, TPtr TInt64),
      (''x-nexus-rate-limit-weight-formula'', False, TString),
      (''x-nexus-rate-limit-class'', False, TString)]"

definition op_class_of :: "string \<Rightarrow> string \<Rightarrow> budget_class option" where
  "op_class_of method class =
     (if class = [] then Some ClassRequest
      else if class = ''trading'' then Some (if method = ''DELETE'' then ClassCancel else ClassOrder)
      else None)"

definition op_perOrders_of :: "int \<Rightarrow> string \<Rightarrow> int option" where
  "op_perOrders_of weight f =
     (if f = [] then Some 0
      else (case formula f of
              None \<Rightarrow> None
            | Some (base, n) \<Rightarrow> if base \<noteq> show_int weight then None else Some (atoi n)))"

definition op_row :: "nullable_lib \<Rightarrow> string \<Rightarrow> string \<Rightarrow> json \<Rightarrow> fatal + opCost" where
  "op_row N m path opRaw =
     (let method = to_upper m in
      case decode N op_t opRaw of
        Inl _ \<Rightarrow> Inl ''decode''
      | Inr v \<Rightarrow>
          (case v of
             VStruct [w, VString f, VString class] \<Rightarrow>
               (let weight = (case w of VPtr (VInt n) \<Rightarrow> n | _ \<Rightarrow> 1) in
                if weight < 1 then Inl ''weight is below 1''
                else (case op_perOrders_of weight f of
                        None \<Rightarrow> Inl ''weight formula''
                      | Some n \<Rightarrow>
                          (case op_class_of method class of
                             None \<Rightarrow> Inl ''unknown class''
                           | Some c \<Rightarrow> Inr (row method path c weight n))))
           | _ \<Rightarrow> Inl ''decode''))"

subsection \<open>All rows\<close>

definition methods :: "string list" where
  "methods = [''get'', ''put'', ''post'', ''patch'', ''delete'']"

fun ops_rows :: "nullable_lib \<Rightarrow> string \<Rightarrow> (string \<times> go_val) list \<Rightarrow> string list \<Rightarrow> fatal + opCost list" where
  "ops_rows N path ops [] = Inr []"
| "ops_rows N path ops (m # ms) =
     (case map_of ops m of
        Some (VJson opRaw) \<Rightarrow>
          bind_res (op_row N m path opRaw) (\<lambda>r. map_sum id (\<lambda>rs. r # rs) (ops_rows N path ops ms))
      | _ \<Rightarrow> ops_rows N path ops ms)"

definition path_rows :: "nullable_lib \<Rightarrow> string \<times> go_val \<Rightarrow> fatal + opCost list" where
  "path_rows N p =
     (if has_prefix (fst p) ''/api/v1/'' then Inr []
      else ops_rows N (fst p) (case snd p of VMap ops \<Rightarrow> ops | _ \<Rightarrow> []) methods)"

fun all_rows :: "nullable_lib \<Rightarrow> (string \<times> go_val) list \<Rightarrow> fatal + opCost list" where
  "all_rows N [] = Inr []"
| "all_rows N (p # ps) = bind_res (path_rows N p) (\<lambda>rs. map_sum id (\<lambda>rest. rs @ rest) (all_rows N ps))"

subsection \<open>The file\<close>

text \<open>strconv.Quote, for a text of printable characters.\<close>

definition go_quote :: "string \<Rightarrow> string" where
  "go_quote s = ''\"'' @ concat (map (\<lambda>c. if c \<in> {CHR ''\"'', CHR 0x5C} then [CHR 0x5C, c] else [c]) s) @ ''\"''"

definition class_name :: "budget_class \<Rightarrow> string" where
  "class_name c =
     (case c of
        ClassRequest \<Rightarrow> ''classRequest'' | ClassOrder \<Rightarrow> ''classOrder''
      | ClassCancel \<Rightarrow> ''classCancel'' | ClassLogin \<Rightarrow> ''classLogin'')"

definition row_text :: "opCost \<Rightarrow> string" where
  "row_text r =
     ''{'' @ go_quote (op_method r) @ '', '' @ go_quote (op_path r) @ '', '' @ class_name (op_class r) @ '', '' @
     show_int (op_weight r) @ '', '' @ show_int (op_perOrders r) @ ''},''"

definition newline :: string where "newline = [CHR 0x0A]"

fun join_lines :: "string list \<Rightarrow> string" where
  "join_lines [] = []"
| "join_lines [s] = s"
| "join_lines (s # t # ts) = s @ newline @ join_lines (t # ts)"

definition source_text :: "string list \<Rightarrow> string" where
  "source_text rows =
     ''// Code generated by genweights from the pinned spec; DO NOT EDIT.'' @ newline @ newline @
     ''package transport'' @ newline @ newline @
     ''// specCosts is every root-mount operation and what it costs, as the pinned'' @ newline @
     ''// spec marks it. Regenerate with go generate ./...'' @ newline @
     ''var specCosts = []opCost{'' @ newline @ join_lines rows @ newline @ ''}'' @ newline"

definition paths_of :: "nullable_lib \<Rightarrow> string \<Rightarrow> json_error + (string \<times> go_val) list" where
  "paths_of N raw =
     map_err (\<lambda>v. case v of VStruct [VMap ps] \<Rightarrow> ps | _ \<Rightarrow> [])
       (Unmarshal (decode N (TStruct [(''paths'', False, TMap (TMap TRaw))])) raw)"

definition genweights ::
  "nullable_lib \<Rightarrow> ((string \<times> go_val) list \<Rightarrow> (string \<times> go_val) list) \<Rightarrow> (string \<Rightarrow> fatal + string)
     \<Rightarrow> string \<Rightarrow> fatal + string" where
  "genweights N order gofmt raw =
     (case paths_of N raw of
        Inl _ \<Rightarrow> Inl ''spec''
      | Inr ps \<Rightarrow>
          (case all_rows N (order ps) of
             Inl e \<Rightarrow> Inl e
           | Inr rows \<Rightarrow> gofmt (source_text (sort (map row_text rows)))))"

subsection \<open>The order of the paths does not matter\<close>

lemma all_rows_fold:
  "all_rows N ps =
     (if list_all (\<lambda>p. is_ok (path_rows N p)) ps
      then Inr (concat (map (\<lambda>p. case path_rows N p of Inr rs \<Rightarrow> rs | Inl _ \<Rightarrow> []) ps))
      else (case hd (filter (\<lambda>p. \<not> is_ok (path_rows N p)) ps) of p \<Rightarrow> Inl (projl (path_rows N p))))"
proof (induction ps)
  case (Cons p ps)
  then show ?case by (cases "path_rows N p") simp_all
qed simp

text \<open>The file does not depend on the order in which Go ranges over the paths of the
  specification: for any two orders, either both stop on an operation, or both write the same
  file. Sorting the rows is what makes the committed table reproducible.\<close>

lemma genweights_order_irrelevant:
  assumes "\<And>ps. mset (order ps) = mset ps" "\<And>ps. mset (order' ps) = mset ps"
  shows "is_ok (genweights N order gofmt raw) = is_ok (genweights N order' gofmt raw) \<and>
    (is_ok (genweights N order gofmt raw) \<longrightarrow> genweights N order gofmt raw = genweights N order' gofmt raw)"
proof (cases "paths_of N raw")
  case (Inl e)
  then show ?thesis by (simp add: genweights_def)
next
  case (Inr ps)
  let ?rows = "\<lambda>ps. concat (map (\<lambda>p. case path_rows N p of Inr rs \<Rightarrow> rs | Inl _ \<Rightarrow> []) ps)"
  let ?ok = "\<lambda>ps. list_all (\<lambda>p. is_ok (path_rows N p)) ps"
  have m: "mset (order ps) = mset (order' ps)" by (simp add: assms(1,2))
  then have "set (order ps) = set (order' ps)" by (metis set_mset_mset)
  then have ok: "?ok (order ps) = ?ok (order' ps)" by (simp add: list_all_iff)
  have "mset (?rows (order ps)) = mset (?rows (order' ps))"
    using m by (simp add: mset_concat flip: sum_mset_sum_list)
  then have "mset (map row_text (?rows (order ps))) = mset (map row_text (?rows (order' ps)))"
    by (simp add: mset_map)
  then have s: "sort (map row_text (?rows (order ps))) = sort (map row_text (?rows (order' ps)))"
    by (intro properties_for_sort) simp_all
  show ?thesis
  proof (cases "?ok (order ps)")
    case True
    then have "all_rows N (order ps) = Inr (?rows (order ps))" "all_rows N (order' ps) = Inr (?rows (order' ps))"
      using ok all_rows_fold [of N "order ps"] all_rows_fold [of N "order' ps"] by simp_all
    then show ?thesis by (simp add: genweights_def Inr s)
  next
    case False
    then obtain e e' where "all_rows N (order ps) = Inl e" "all_rows N (order' ps) = Inl e'"
      using ok all_rows_fold [of N "order ps"] all_rows_fold [of N "order' ps"] by simp
    then show ?thesis by (simp add: genweights_def Inr)
  qed
qed


subsection \<open>The committed table\<close>

text \<open>The markers that an operation of a given cost has.\<close>

definition markers :: "opCost \<Rightarrow> json" where
  "markers r =
     JObj [(''x-nexus-rate-limit-weight'', JNum (show_int (op_weight r))),
           (''x-nexus-rate-limit-weight-formula'',
              JStr (if op_perOrders r = 0 then []
                    else show_int (op_weight r) @ '' + floor(order_count / '' @ show_int (op_perOrders r) @ '')'')),
           (''x-nexus-rate-limit-class'', JStr (if op_class r = ClassRequest then [] else ''trading''))]"

text \<open>The costs the specification can state: a weight of at least one, and the cancel budget for
  DELETE, the order budget for every other trading operation.\<close>

definition statable :: "opCost \<Rightarrow> bool" where
  "statable r =
     (1 \<le> op_weight r \<and> op_weight r \<le> max_int64 \<and> 0 \<le> op_perOrders r \<and> op_perOrders r \<le> max_int64 \<and>
      op_class r \<noteq> ClassLogin \<and> (op_class r = ClassCancel \<longrightarrow> op_method r = ''DELETE'') \<and>
      (op_class r = ClassOrder \<longrightarrow> op_method r \<noteq> ''DELETE''))"

lemma show_int_nonneg: "0 \<le> i \<Longrightarrow> show_int i = show_nat (nat i)"
  by (simp add: show_int_def)

lemma digits_run:
  assumes "list_all is_digit ds" "rest = [] \<or> \<not> is_digit (hd rest)"
  shows "takeWhile is_digit (ds @ rest) = ds" "dropWhile is_digit (ds @ rest) = rest"
proof -
  have "\<forall>c\<in>set ds. is_digit c" using assms(1) by (simp add: list_all_iff)
  then show "takeWhile is_digit (ds @ rest) = ds" "dropWhile is_digit (ds @ rest) = rest"
    using assms(2) by (cases rest; auto)+
qed

lemma formula_show:
  assumes "0 \<le> w" "0 \<le> n"
  shows "formula (show_int w @ '' + floor(order_count / '' @ show_int n @ '')'') = Some (show_int w, show_int n)"
proof -
  have d: "list_all is_digit (show_nat k)" for k by (rule show_nat_digits)
  have nd: "\<not> is_digit (CHR '' '')" "\<not> is_digit (CHR '')'')" by (simp_all add: is_digit_def)
  note w = digits_run [OF d [of "nat w"], of "'' + floor(order_count / '' @ show_nat (nat n) @ '')''"]
  note n = digits_run [OF d [of "nat n"], of "'')''"]
  have "strip_prefix '' + floor(order_count / '' ('' + floor(order_count / '' @ show_nat (nat n) @ '')'') = Some (show_nat (nat n) @ '')'')"
    by (rule strip_prefix_append)
  then show ?thesis
    using w n nd by (simp add: formula_def Let_def show_int_nonneg assms)
qed

lemma op_row_markers:
  assumes "statable r" "to_upper m = op_method r"
  shows "op_row N m (op_path r) (markers r) = Inr r"
proof -
  let ?w = "op_weight r" and ?n = "op_perOrders r"
  let ?f = "if ?n = 0 then [] else show_int ?w @ '' + floor(order_count / '' @ show_int ?n @ '')''"
  let ?c = "if op_class r = ClassRequest then [] else ''trading''"
  have r: "1 \<le> ?w" "?w \<le> max_int64" "0 \<le> ?n" "?n \<le> max_int64" using assms(1) by (simp_all add: statable_def)
  have i: "in_int64 ?w" "in_int64 ?n" using r by (simp_all add: in_int64_def min_int64_def)
  have "decode N op_t (markers r) = Inr (VStruct [VPtr (VInt ?w), VString ?f, VString ?c])"
  proof -
    have names: "fold_name ''x-nexus-rate-limit-weight'' \<noteq> fold_name ''x-nexus-rate-limit-weight-formula''"
      "fold_name ''x-nexus-rate-limit-weight'' \<noteq> fold_name ''x-nexus-rate-limit-class''"
      "fold_name ''x-nexus-rate-limit-weight-formula'' \<noteq> fold_name ''x-nexus-rate-limit-class''"
      by code_simp+
    then show ?thesis
      using parse_show_int [OF i(1)]
      by (simp add: op_t_def markers_def member_vals_def members_def map_err_def names names [symmetric] or_null_def dec_string_def dec_int64_def num_field_def)
  qed
  moreover have "op_perOrders_of ?w ?f = Some ?n"
    using formula_show [of ?w ?n] r i by (simp add: op_perOrders_of_def atoi_def)
  moreover have "op_class_of (op_method r) ?c = Some (op_class r)"
    using assms(1) by (cases "op_class r") (auto simp: op_class_of_def statable_def)
  ultimately show ?thesis using r assms(2)
    by (simp add: op_row_def row_def)
qed


text \<open>The paths of a specification whose operations cost what a table says.\<close>

definition table_paths :: "opCost list \<Rightarrow> (string \<times> go_val) list" where
  "table_paths rows =
     map (\<lambda>p. (p, VMap (map (\<lambda>r. (to_lower (op_method r), VJson (markers r))) (filter (\<lambda>r. op_path r = p) rows))))
       (remdups (map op_path rows))"

lemma ops_rows_markers:
  assumes "\<forall>r\<in>set rs. statable r \<and> to_upper (to_lower (op_method r)) = op_method r \<and> op_path r = p"
  shows "ops_rows N p (map (\<lambda>r. (to_lower (op_method r), VJson (markers r))) rs) ms =
    Inr (List.map_filter (\<lambda>m. find (\<lambda>r. to_lower (op_method r) = m) rs) ms)"
proof (induction ms)
  case (Cons m ms)
  have look: "map_of (map (\<lambda>r. (to_lower (op_method r), VJson (markers r))) rs) m =
      map_option (\<lambda>r. VJson (markers r)) (find (\<lambda>r. to_lower (op_method r) = m) rs)"
    by (induction rs) auto
  show ?case
  proof (cases "find (\<lambda>r. to_lower (op_method r) = m) rs")
    case None
    then show ?thesis using Cons look by (simp add: List.map_filter_def)
  next
    case (Some r)
    then have r: "r \<in> set rs" "to_lower (op_method r) = m" by (auto simp: find_Some_iff)
    then have "op_row N m (op_path r) (markers r) = Inr r"
      using assms by (intro op_row_markers) auto
    then show ?thesis using Cons look Some r assms by (simp add: List.map_filter_def)
  qed
qed (simp add: List.map_filter_def)


text \<open>Grouping the rows of a table by path and method, in the generator's order, loses none.\<close>

definition regrouped :: "opCost list \<Rightarrow> opCost list" where
  "regrouped T =
     concat (map (\<lambda>p. List.map_filter (\<lambda>m. find (\<lambda>r. to_lower (op_method r) = m) (filter (\<lambda>r. op_path r = p) T)) methods)
       (remdups (map op_path T)))"

lemma set_map_filter: "x \<in> set (List.map_filter f xs) \<longleftrightarrow> (\<exists>y\<in>set xs. f y = Some x)"
  by (force simp: List.map_filter_def)

lemma find_unique:
  assumes "distinct (map f xs)" "x \<in> set xs" "\<And>y. y \<in> set xs \<Longrightarrow> Q y \<longleftrightarrow> f y = f x"
  shows "find Q xs = Some x"
  using assms
proof (induction xs)
  case (Cons a xs)
  then show ?case by (cases "a = x") (force simp: image_iff)+
qed simp

lemma regrouped_mset:
  assumes "distinct (map (\<lambda>r. (op_method r, op_path r)) T)" "\<forall>r\<in>set T. to_lower (op_method r) \<in> set methods \<and> to_upper (to_lower (op_method r)) = op_method r"
  shows "mset (regrouped T) = mset T"
proof -
  let ?at = "\<lambda>p m. find (\<lambda>r. to_lower (op_method r) = m) (filter (\<lambda>r. op_path r = p) T)"
  let ?rows = "\<lambda>p. List.map_filter (?at p) methods"
  have at: "?at p m = Some r \<Longrightarrow> r \<in> set T \<and> op_path r = p \<and> to_lower (op_method r) = m" for p m r
    by (auto simp: find_Some_iff in_set_conv_nth dest: nth_mem)
  have found: "?at (op_path r) (to_lower (op_method r)) = Some r" if r: "r \<in> set T" for r
  proof (rule find_unique [of op_method])
    have "distinct (map (\<lambda>r. (op_method r, op_path r)) (filter (\<lambda>x. op_path x = op_path r) T))"
      using assms(1) by (rule distinct_map_filter)
    then show "distinct (map op_method (filter (\<lambda>x. op_path x = op_path r) T))"
      by (auto simp: distinct_map inj_on_def)
    show "r \<in> set (filter (\<lambda>x. op_path x = op_path r) T)" using r by simp
    show "to_lower (op_method y) = to_lower (op_method r) \<longleftrightarrow> op_method y = op_method r"
      if "y \<in> set (filter (\<lambda>x. op_path x = op_path r) T)" for y
    proof -
      have "y \<in> set T" using that by simp
      then have "to_upper (to_lower (op_method y)) = op_method y" "to_upper (to_lower (op_method r)) = op_method r"
        using r assms(2) by blast+
      then show ?thesis by metis
    qed
  qed
  have rows: "r \<in> set (?rows p) \<longleftrightarrow> r \<in> set T \<and> op_path r = p" for r p
  proof
    assume "r \<in> set (?rows p)"
    then obtain m where "?at p m = Some r" unfolding set_map_filter by blast
    from at [OF this] show "r \<in> set T \<and> op_path r = p" by blast
  next
    assume r: "r \<in> set T \<and> op_path r = p"
    then have "?at p (to_lower (op_method r)) = Some r" "to_lower (op_method r) \<in> set methods"
      using found assms(2) by blast+
    then show "r \<in> set (?rows p)" unfolding set_map_filter by blast
  qed
  have inner: "distinct (List.map_filter (?at p) ms)" if "distinct ms" for p ms
    using that
  proof (induction ms)
    case (Cons m ms)
    have "r \<notin> set (List.map_filter (?at p) ms)" if r: "?at p m = Some r" for r
    proof
      assume "r \<in> set (List.map_filter (?at p) ms)"
      then obtain m' where m': "m' \<in> set ms" "?at p m' = Some r" unfolding set_map_filter by blast
      then show False using at [OF r] at [OF m'(2)] Cons.prems by simp
    qed
    then show ?case using Cons by (auto simp: List.map_filter_simps split: option.split)
  qed (simp add: List.map_filter_simps)
  have dm: "distinct methods" by (simp add: methods_def)
  have "distinct (concat (map ?rows ps))" if "distinct ps" for ps
    using that
  proof (induction ps)
    case (Cons p ps)
    have "distinct (?rows p)" by (rule inner [OF dm])
    moreover have "set (?rows p) \<inter> set (concat (map ?rows ps)) = {}"
      using Cons.prems by (auto simp: rows)
    ultimately show ?case using Cons by simp
  qed simp
  then have "distinct (regrouped T)" by (simp add: regrouped_def)
  moreover have "set (regrouped T) = set T" by (auto simp: regrouped_def rows)
  moreover have "distinct T" using assms(1) by (simp add: distinct_map)
  ultimately show ?thesis by (simp add: set_eq_iff_mset_eq_distinct)
qed

lemma all_rows_table:
  assumes "\<forall>r\<in>set T. statable r \<and> to_upper (to_lower (op_method r)) = op_method r \<and> \<not> has_prefix (op_path r) ''/api/v1/''"
  shows "all_rows N (table_paths T) = Inr (regrouped T)"
proof -
  have path: "path_rows N (p, VMap (map (\<lambda>r. (to_lower (op_method r), VJson (markers r))) (filter (\<lambda>r. op_path r = p) T))) =
      Inr (List.map_filter (\<lambda>m. find (\<lambda>r. to_lower (op_method r) = m) (filter (\<lambda>r. op_path r = p) T)) methods)"
    if "p \<in> op_path ` set T" for p
    using that assms by (auto simp: path_rows_def intro!: ops_rows_markers)
  have "all_rows N (map (\<lambda>p. (p, VMap (map (\<lambda>r. (to_lower (op_method r), VJson (markers r))) (filter (\<lambda>r. op_path r = p) T)))) ps) =
      Inr (concat (map (\<lambda>p. List.map_filter (\<lambda>m. find (\<lambda>r. to_lower (op_method r) = m) (filter (\<lambda>r. op_path r = p) T)) methods) ps))"
    if "set ps \<subseteq> op_path ` set T" for ps
    using that by (induction ps) (simp_all add: path)
  then show ?thesis by (simp add: table_paths_def regrouped_def)
qed

lemma committed_methods:
  "\<forall>r\<in>set specCosts. to_lower (op_method r) \<in> set methods \<and> to_upper (to_lower (op_method r)) = op_method r"
proof -
  have "list_all (\<lambda>r. op_method r \<in> {''GET'', ''PUT'', ''POST'', ''PATCH'', ''DELETE''}) specCosts"
    by (simp add: specCosts_def row_def)
  moreover have "list_all (\<lambda>m. to_lower m \<in> set methods \<and> to_upper (to_lower m) = m) [''GET'', ''PUT'', ''POST'', ''PATCH'', ''DELETE'']"
    by code_simp
  ultimately show ?thesis by (auto simp: list_all_iff)
qed

text \<open>C23: The committed table is a fixed point of its generator. From a specification whose
  operations carry the markers of the table's costs, the generator reads back exactly the table's
  rows, each once, and so writes the source that holds them, sorted.\<close>

theorem table_regenerates:
  "\<exists>rows. all_rows N (table_paths specCosts) = Inr rows \<and> mset rows = mset specCosts \<and>
     sort (map row_text rows) = sort (map row_text specCosts)"
proof -
  have "list_all statable specCosts" by (simp add: specCosts_def row_def statable_def max_int64_def)
  moreover have "list_all (\<lambda>p. \<not> has_prefix p ''/api/v1/'') (map op_path specCosts)"
    by (simp add: specCosts_def row_def has_prefix_def)
  ultimately have rows: "all_rows N (table_paths specCosts) = Inr (regrouped specCosts)"
    using committed_methods by (intro all_rows_table) (auto simp: list_all_iff)
  have "distinct (map (\<lambda>r. (op_method r, op_path r)) specCosts)" by (simp add: specCosts_def row_def)
  then have m: "mset (regrouped specCosts) = mset specCosts"
    using committed_methods by (rule regrouped_mset)
  then have "sort (map row_text (regrouped specCosts)) = sort (map row_text specCosts)"
    by (intro properties_for_sort) simp_all
  then show ?thesis using rows m by blast
qed

end
