(* ===== verification/GoAst.thy ===== *)
theory GoAst
  imports Prelude
begin

section \<open>Go syntax trees and how a type prints\<close>

text \<open>
  The trees of go/ast that scripts/release_gate/surface reads, and the part of surface.go that
  turns one expression into text: typeString, typeList, fieldTypes, signature, typeParams,
  exprString, ident and usesIota. A nil expression is None, a nil field list the empty one. The
  text go/printer gives an expression depends on the source positions, which the trees leave out,
  so the printer is a parameter. The last part defines the tree with the names of parameters and
  results forgotten and shows that a type prints the same without them.
\<close>

subsection \<open>The trees (go/ast)\<close>

datatype chan_dir = SEND | RECV | BOTH

datatype expr =
    Ident string
  | SelectorExpr expr string
  | StarExpr expr
  | ParenExpr expr
  | Ellipsis "expr option"
  | ArrayType "expr option" expr
  | MapType expr expr
  | ChanType chan_dir expr
  | FuncType "field list" "field list" "field list"
  | StructType "field list"
  | InterfaceType "field list"
  | IndexExpr expr expr
  | IndexListExpr expr "expr list"
  | UnaryExpr string expr
  | BinaryExpr expr string expr
  | CallExpr expr "expr list"
  | CompositeLit "expr option" "expr list"
  | KeyValueExpr expr expr
  | SliceExpr expr "expr list"
  | TypeAssertExpr expr "expr option"
  | FuncLit expr "expr list"
  | BasicLit string
and field = Field (Names: "string list") (Type: expr)

text \<open>A FuncType holds its type parameters, parameters and results; a FuncLit its type and the
  expressions of its body.\<close>

text \<open>The Go library the tool calls on a tree: go/printer, which may fail, and unicode.IsUpper on
  a first rune outside ASCII.\<close>

record printer =
  pr_Fprint :: "expr \<Rightarrow> string + string"
  pr_Upper :: "string \<Rightarrow> bool"

definition IsExported :: "printer \<Rightarrow> string \<Rightarrow> bool" where
  "IsExported P name =
     (case name of
        [] \<Rightarrow> False
      | c # _ \<Rightarrow> if (of_char c :: nat) < 128 then 65 \<le> (of_char c :: nat) \<and> (of_char c :: nat) \<le> 90 else pr_Upper P name)"

subsection \<open>Text helpers\<close>

fun join_with :: "string \<Rightarrow> string list \<Rightarrow> string" where
  "join_with sep [] = []"
| "join_with sep [s] = s"
| "join_with sep (s # t # ts) = s @ sep @ join_with sep (t # ts)"

definition is_blank :: "char \<Rightarrow> bool" where
  "is_blank c = (c \<in> {CHR 0x09, CHR 0x0A, CHR 0x0C, CHR 0x0D, CHR '' ''})"

definition flush :: "string \<Rightarrow> string" where
  "flush ws = (if CHR 0x0A \<in> set ws then '' '' else ws)"

text \<open>lineBreak.ReplaceAllString(s, " "): every run of white space with a line break in it becomes
  one space.\<close>

fun lineBreak :: "string \<Rightarrow> string \<Rightarrow> string" where
  "lineBreak ws [] = flush ws"
| "lineBreak ws (c # cs) =
     (if is_blank c then lineBreak (ws @ [c]) cs else flush ws @ c # lineBreak [] cs)"

definition exprString :: "printer \<Rightarrow> expr option \<Rightarrow> string" where
  "exprString P e =
     (case e of
        None \<Rightarrow> []
      | Some x \<Rightarrow>
          (case pr_Fprint P x of
             Inl err \<Rightarrow> ''<'' @ err @ ''>''
           | Inr buf \<Rightarrow> lineBreak [] buf))"

subsection \<open>Types\<close>

definition predeclared :: "string list" where
  "predeclared =
     [''any'', ''bool'', ''byte'', ''comparable'', ''complex64'', ''complex128'', ''error'', ''float32'',
      ''float64'', ''int'', ''int8'', ''int16'', ''int32'', ''int64'', ''rune'', ''string'', ''uint'', ''uint8'',
      ''uint16'', ''uint32'', ''uint64'', ''uintptr'']"

text \<open>What typeString reads of a scope: the qualifier and the type parameters in scope.\<close>

record names =
  qual :: string
  tparams :: "string list"

definition ident :: "names \<Rightarrow> string \<Rightarrow> string" where
  "ident s name =
     (if qual s = [] \<or> name \<in> set predeclared \<or> name \<in> set (tparams s) then name
      else qual s @ ''.'' @ name)"

definition signature_of :: "string list \<Rightarrow> string list \<Rightarrow> string" where
  "signature_of params results =
     ''('' @ join_with '', '' params @ '')'' @
     (case results of
        [] \<Rightarrow> []
      | [r] \<Rightarrow> '' '' @ r
      | _ \<Rightarrow> '' ('' @ join_with '', '' results @ '')'')"

definition braced :: "string \<Rightarrow> string list \<Rightarrow> string" where
  "braced kw parts = (if parts = [] then kw @ ''{}'' else kw @ ''{ '' @ join_with ''; '' parts @ '' }'')"

definition bracketed :: "string list \<Rightarrow> string" where
  "bracketed parts = (if parts = [] then [] else ''['' @ join_with '', '' parts @ '']'')"

fun typeString :: "printer \<Rightarrow> names \<Rightarrow> expr \<Rightarrow> string"
  and typeList :: "printer \<Rightarrow> names \<Rightarrow> expr list \<Rightarrow> string list"
  and fieldTypes :: "printer \<Rightarrow> names \<Rightarrow> field list \<Rightarrow> string list"
  and structFields :: "printer \<Rightarrow> names \<Rightarrow> field list \<Rightarrow> string list"
  and interfaceMethods :: "printer \<Rightarrow> names \<Rightarrow> field list \<Rightarrow> string list"
  and typeParamParts :: "printer \<Rightarrow> names \<Rightarrow> field list \<Rightarrow> string list" where
  "typeString P s (Ident n) = ident s n"
| "typeString P s (SelectorExpr x n) = exprString P (Some (SelectorExpr x n))"
| "typeString P s (StarExpr x) = ''*'' @ typeString P s x"
| "typeString P s (ParenExpr x) = ''('' @ typeString P s x @ '')''"
| "typeString P s (Ellipsis None) = ''...''"
| "typeString P s (Ellipsis (Some x)) = ''...'' @ typeString P s x"
| "typeString P s (ArrayType None x) = ''[]'' @ typeString P s x"
| "typeString P s (ArrayType (Some n) x) = ''['' @ exprString P (Some n) @ '']'' @ typeString P s x"
| "typeString P s (MapType k v) = ''map['' @ typeString P s k @ '']'' @ typeString P s v"
| "typeString P s (ChanType dir v) =
     (case dir of SEND \<Rightarrow> ''chan<- '' | RECV \<Rightarrow> ''<-chan '' | BOTH \<Rightarrow> ''chan '') @ typeString P s v"
| "typeString P s (FuncType tps ps rs) =
     ''func'' @ bracketed (typeParamParts P s tps) @ signature_of (fieldTypes P s ps) (fieldTypes P s rs)"
| "typeString P s (IndexExpr x i) = typeString P s x @ ''['' @ typeString P s i @ '']''"
| "typeString P s (IndexListExpr x is) =
     typeString P s x @ ''['' @ join_with '', '' (typeList P s is) @ '']''"
| "typeString P s (UnaryExpr op x) = op @ typeString P s x"
| "typeString P s (BinaryExpr x op y) = typeString P s x @ '' '' @ op @ '' '' @ typeString P s y"
| "typeString P s (StructType fs) = braced ''struct'' (structFields P s fs)"
| "typeString P s (InterfaceType fs) = braced ''interface'' (interfaceMethods P s fs)"
| "typeString P s (CallExpr f as) = exprString P (Some (CallExpr f as))"
| "typeString P s (CompositeLit t es) = exprString P (Some (CompositeLit t es))"
| "typeString P s (KeyValueExpr k v) = exprString P (Some (KeyValueExpr k v))"
| "typeString P s (SliceExpr x is) = exprString P (Some (SliceExpr x is))"
| "typeString P s (TypeAssertExpr x t) = exprString P (Some (TypeAssertExpr x t))"
| "typeString P s (FuncLit t body) = exprString P (Some (FuncLit t body))"
| "typeString P s (BasicLit v) = exprString P (Some (BasicLit v))"
| "typeList P s [] = []"
| "typeList P s (e # es) = typeString P s e # typeList P s es"
| "fieldTypes P s [] = []"
| "fieldTypes P s (Field ns t # fs) = replicate (max (length ns) 1) (typeString P s t) @ fieldTypes P s fs"
| "structFields P s [] = []"
| "structFields P s (Field ns t # fs) =
     (if ns = [] then [typeString P s t] else map (\<lambda>n. n @ '' '' @ typeString P s t) ns)
     @ structFields P s fs"
| "interfaceMethods P s [] = []"
| "interfaceMethods P s (Field ns t # fs) =
     (case t of
        FuncType tps ps rs \<Rightarrow>
          if ns \<noteq> [] then map (\<lambda>n. n @ signature_of (fieldTypes P s ps) (fieldTypes P s rs)) ns
          else [typeString P s t]
      | _ \<Rightarrow> [typeString P s t])
     @ interfaceMethods P s fs"
| "typeParamParts P s [] = []"
| "typeParamParts P s (Field ns t # fs) =
     (join_with '', '' ns @ '' '' @ typeString P s t) # typeParamParts P s fs"

definition signature :: "printer \<Rightarrow> names \<Rightarrow> field list \<Rightarrow> field list \<Rightarrow> string" where
  "signature P s ps rs = signature_of (fieldTypes P s ps) (fieldTypes P s rs)"

definition typeParams :: "printer \<Rightarrow> names \<Rightarrow> field list \<Rightarrow> string" where
  "typeParams P s tps = bracketed (typeParamParts P s tps)"

subsection \<open>Iota\<close>

text \<open>ast.Inspect visits every identifier of the tree, the names of fields and selectors included.\<close>

fun usesIota :: "expr \<Rightarrow> bool" and anyIota :: "expr list \<Rightarrow> bool" and fieldsIota :: "field list \<Rightarrow> bool" where
  "usesIota (Ident n) = (n = ''iota'')"
| "usesIota (SelectorExpr x n) = (usesIota x \<or> n = ''iota'')"
| "usesIota (StarExpr x) = usesIota x"
| "usesIota (ParenExpr x) = usesIota x"
| "usesIota (Ellipsis None) = False"
| "usesIota (Ellipsis (Some x)) = usesIota x"
| "usesIota (ArrayType None x) = usesIota x"
| "usesIota (ArrayType (Some n) x) = (usesIota n \<or> usesIota x)"
| "usesIota (MapType k v) = (usesIota k \<or> usesIota v)"
| "usesIota (ChanType dir v) = usesIota v"
| "usesIota (FuncType tps ps rs) = (fieldsIota tps \<or> fieldsIota ps \<or> fieldsIota rs)"
| "usesIota (StructType fs) = fieldsIota fs"
| "usesIota (InterfaceType fs) = fieldsIota fs"
| "usesIota (IndexExpr x i) = (usesIota x \<or> usesIota i)"
| "usesIota (IndexListExpr x is) = (usesIota x \<or> anyIota is)"
| "usesIota (UnaryExpr op x) = usesIota x"
| "usesIota (BinaryExpr x op y) = (usesIota x \<or> usesIota y)"
| "usesIota (CallExpr f as) = (usesIota f \<or> anyIota as)"
| "usesIota (CompositeLit None es) = anyIota es"
| "usesIota (CompositeLit (Some t) es) = (usesIota t \<or> anyIota es)"
| "usesIota (KeyValueExpr k v) = (usesIota k \<or> usesIota v)"
| "usesIota (SliceExpr x is) = (usesIota x \<or> anyIota is)"
| "usesIota (TypeAssertExpr x None) = usesIota x"
| "usesIota (TypeAssertExpr x (Some t)) = (usesIota x \<or> usesIota t)"
| "usesIota (FuncLit t body) = (usesIota t \<or> anyIota body)"
| "usesIota (BasicLit v) = False"
| "anyIota [] = False"
| "anyIota (e # es) = (usesIota e \<or> anyIota es)"
| "fieldsIota [] = False"
| "fieldsIota (Field ns t # fs) = (''iota'' \<in> set ns \<or> usesIota t \<or> fieldsIota fs)"

subsection \<open>Forgetting the names of parameters and results\<close>

text \<open>One unnamed field per parameter, in every func type that stands where a type prints.\<close>

fun forget :: "expr \<Rightarrow> expr"
  and forget_list :: "expr list \<Rightarrow> expr list"
  and forget_params :: "field list \<Rightarrow> field list"
  and forget_fields :: "field list \<Rightarrow> field list" where
  "forget (Ident n) = Ident n"
| "forget (SelectorExpr x n) = SelectorExpr x n"
| "forget (StarExpr x) = StarExpr (forget x)"
| "forget (ParenExpr x) = ParenExpr (forget x)"
| "forget (Ellipsis None) = Ellipsis None"
| "forget (Ellipsis (Some x)) = Ellipsis (Some (forget x))"
| "forget (ArrayType None x) = ArrayType None (forget x)"
| "forget (ArrayType (Some n) x) = ArrayType (Some n) (forget x)"
| "forget (MapType k v) = MapType (forget k) (forget v)"
| "forget (ChanType dir v) = ChanType dir (forget v)"
| "forget (FuncType tps ps rs) = FuncType (forget_fields tps) (forget_params ps) (forget_params rs)"
| "forget (StructType fs) = StructType (forget_fields fs)"
| "forget (InterfaceType fs) = InterfaceType (forget_fields fs)"
| "forget (IndexExpr x i) = IndexExpr (forget x) (forget i)"
| "forget (IndexListExpr x is) = IndexListExpr (forget x) (forget_list is)"
| "forget (UnaryExpr op x) = UnaryExpr op (forget x)"
| "forget (BinaryExpr x op y) = BinaryExpr (forget x) op (forget y)"
| "forget (CallExpr f as) = CallExpr f as"
| "forget (CompositeLit t es) = CompositeLit t es"
| "forget (KeyValueExpr k v) = KeyValueExpr k v"
| "forget (SliceExpr x is) = SliceExpr x is"
| "forget (TypeAssertExpr x t) = TypeAssertExpr x t"
| "forget (FuncLit t body) = FuncLit t body"
| "forget (BasicLit v) = BasicLit v"
| "forget_list [] = []"
| "forget_list (e # es) = forget e # forget_list es"
| "forget_params [] = []"
| "forget_params (Field ns t # fs) = replicate (max (length ns) 1) (Field [] (forget t)) @ forget_params fs"
| "forget_fields [] = []"
| "forget_fields (Field ns t # fs) = Field ns (forget t) # forget_fields fs"

lemma fieldTypes_replicate [simp]:
  "fieldTypes P s (replicate n (Field [] t) @ fs) = replicate n (typeString P s t) @ fieldTypes P s fs"
  by (induction n) auto

text \<open>The two lists of a func type, which is all an interface method prints of it.\<close>

definition sig_parts :: "printer \<Rightarrow> names \<Rightarrow> expr \<Rightarrow> (string list \<times> string list) option" where
  "sig_parts P s e =
     (case e of FuncType tps ps rs \<Rightarrow> Some (fieldTypes P s ps, fieldTypes P s rs) | _ \<Rightarrow> None)"

lemma sig_parts_FuncType [simp]:
  "sig_parts P s (FuncType tps ps rs) = Some (fieldTypes P s ps, fieldTypes P s rs)"
  by (simp add: sig_parts_def)

lemma interfaceMethods_parts:
  "interfaceMethods P s (Field ns t # fs) =
     (case sig_parts P s t of
        Some (ps, rs) \<Rightarrow> if ns \<noteq> [] then map (\<lambda>n. n @ signature_of ps rs) ns else [typeString P s t]
      | None \<Rightarrow> [typeString P s t])
     @ interfaceMethods P s fs"
  by (cases t) (simp_all add: sig_parts_def)

lemma forget_type_parts:
  "typeString P s (forget e) = typeString P s e \<and> sig_parts P s (forget e) = sig_parts P s e"
  "typeList P s (forget_list es) = typeList P s es"
  "fieldTypes P s (forget_params fs) = fieldTypes P s fs"
  "structFields P s (forget_fields fs) = structFields P s fs
     \<and> interfaceMethods P s (forget_fields fs) = interfaceMethods P s fs
     \<and> typeParamParts P s (forget_fields fs) = typeParamParts P s fs"
proof (induction e and es and fs and fs rule: forget_forget_list_forget_params_forget_fields.induct)
  case (30 ns t fs)
  then show ?case by (simp add: interfaceMethods_parts del: interfaceMethods.simps(2) split: option.split)
qed (simp_all add: sig_parts_def)

lemma forget_type [simp]:
  "typeString P s (forget e) = typeString P s e"
  "fieldTypes P s (forget_params ps) = fieldTypes P s ps"
  "typeParamParts P s (forget_fields fs) = typeParamParts P s fs"
  "structFields P s (forget_fields fs) = structFields P s fs"
  "interfaceMethods P s (forget_fields fs) = interfaceMethods P s fs"
  "typeList P s (forget_list es) = typeList P s es"
  using forget_type_parts by blast+

lemma sig_parts_forget [simp]: "sig_parts P s (forget e) = sig_parts P s e"
  using forget_type_parts by blast

lemma forget_signature [simp]: "signature P s (forget_params ps) (forget_params rs) = signature P s ps rs"
  by (simp add: signature_def)

lemma forget_typeParams [simp]: "typeParams P s (forget_fields tps) = typeParams P s tps"
  by (simp add: typeParams_def)

end
