(* ===== verification/Surface.thy ===== *)
theory Surface
  imports GoAst "HOL-Library.List_Lexorder" "HOL-Library.Char_ord"
begin

section \<open>The public API listing\<close>

text \<open>
  scripts/release_gate/surface/surface.go: the packages of the module and their files, which are
  parsed on first use and kept, the resolution of pkg.Name through a file's imports, and the lines
  of every exported declaration, with aliases into the module followed. A module is state: parse
  changes a package, so every function that resolves a name returns the module after it. The go
  command's answers and the Go parser are arguments.
\<close>

subsection \<open>Files, packages and the module\<close>

record import_spec =
  imp_Name :: "string option"
  imp_Path :: "string option"   \<comment> \<open>the unquoted literal, None when it is malformed\<close>

record type_spec =
  ts_Name :: string
  ts_TypeParams :: "field list"
  ts_Assign :: bool   \<comment> \<open>an alias\<close>
  ts_Type :: expr

record value_spec =
  vs_Names :: "string list"
  vs_Type :: "expr option"
  vs_Values :: "expr list"

record func_decl =
  fd_Recv :: "field list option"
  fd_Name :: string
  fd_TypeParams :: "field list"
  fd_Params :: "field list"
  fd_Results :: "field list"

datatype decl =
    FuncDecl func_decl
  | TypeDecl "type_spec list"
  | ConstDecl "value_spec list"
  | VarDecl "value_spec list"
  | ImportDecl

record go_file =
  f_Imports :: "import_spec list"
  f_Decls :: "decl list"

record pkg =
  ImportPath :: string
  Name :: string
  Dir :: string
  GoFiles :: "string list"
  CgoFiles :: "string list"
  files :: "go_file list"   \<comment> \<open>empty: not parsed\<close>

record gomodule =
  m_path :: string
  m_pkgs :: "(string \<times> pkg) list"   \<comment> \<open>a map, keyed by import path\<close>

text \<open>The parser of one file, and the printer.\<close>

record tools =
  to_Parse :: "string \<Rightarrow> string + go_file"
  to_Printer :: printer

definition maxFollow :: nat where "maxFollow = 8"

definition isInternal :: "string \<Rightarrow> bool" where
  "isInternal path = (''internal'' \<in> set (split_on (CHR ''/'') path))"

text \<open>filepath.Join of a directory and a file name, neither empty nor with dots or double slashes.\<close>

definition filepath_Join :: "string \<Rightarrow> string \<Rightarrow> string" where
  "filepath_Join dir name = dir @ ''/'' @ name"

text \<open>The files parsed before an error are kept.\<close>

fun parse_files :: "tools \<Rightarrow> string \<Rightarrow> string list \<Rightarrow> go_file list \<times> string option" where
  "parse_files T dir [] = ([], None)"
| "parse_files T dir (n # ns) =
     (case to_Parse T (filepath_Join dir n) of
        Inl err \<Rightarrow> ([], Some err)
      | Inr f \<Rightarrow> (case parse_files T dir ns of (fs, r) \<Rightarrow> (f # fs, r)))"

definition parse :: "tools \<Rightarrow> pkg \<Rightarrow> pkg \<times> string option" where
  "parse T p =
     (if files p \<noteq> [] then (p, None)
      else (case parse_files T (Dir p) (sort (GoFiles p @ CgoFiles p)) of
              (fs, r) \<Rightarrow> (p\<lparr>files := fs\<rparr>, r)))"

definition parse_in :: "tools \<Rightarrow> gomodule \<Rightarrow> string \<Rightarrow> pkg \<Rightarrow> gomodule \<times> pkg \<times> string option" where
  "parse_in T m path p = (case parse T p of (q, r) \<Rightarrow> (m\<lparr>m_pkgs := AList.update path q (m_pkgs m)\<rparr>, q, r))"

subsection \<open>Scopes\<close>

record scope = names +
  sc_p :: pkg
  sc_file :: "go_file option"

definition withTypeParams :: "field list \<Rightarrow> 'a names_scheme \<Rightarrow> 'a names_scheme" where
  "withTypeParams tps s = s\<lparr>tparams := concat (map Names tps) @ tparams s\<rparr>"

abbreviation nm :: "scope \<Rightarrow> names" where "nm s \<equiv> names.truncate s"

definition lineQual :: "gomodule \<Rightarrow> pkg \<Rightarrow> string" where
  "lineQual m p =
     (if ImportPath p = m_path m then Name p else trim_prefix (ImportPath p) (m_path m @ ''/''))"

fun identOf :: "expr \<Rightarrow> string list" where
  "identOf (Ident n) = [n]"
| "identOf _ = []"

fun base_of :: "expr \<Rightarrow> string option" where
  "base_of (StarExpr x) = base_of x"
| "base_of (ParenExpr x) = base_of x"
| "base_of (IndexExpr x i) = base_of x"
| "base_of (IndexListExpr x is) = base_of x"
| "base_of (Ident n) = Some n"
| "base_of _ = None"

definition recvBase :: "field list option \<Rightarrow> string option" where
  "recvBase recv =
     (case recv of
        None \<Rightarrow> None
      | Some [] \<Rightarrow> None
      | Some (f # _) \<Rightarrow> base_of (Type f))"

fun embeddedName :: "expr \<Rightarrow> string option" where
  "embeddedName (StarExpr x) = embeddedName x"
| "embeddedName (SelectorExpr x n) = Some n"
| "embeddedName (IndexExpr x i) = embeddedName x"
| "embeddedName (IndexListExpr x is) = embeddedName x"
| "embeddedName (Ident n) = Some n"
| "embeddedName _ = None"

subsection \<open>Methods\<close>

definition receiver_args :: "expr \<Rightarrow> string list" where
  "receiver_args recv =
     (case recv of
        IndexExpr x i \<Rightarrow> identOf i
      | IndexListExpr x is \<Rightarrow> concat (map identOf is)
      | _ \<Rightarrow> [])"

fun split_star :: "expr \<Rightarrow> string \<times> expr" where
  "split_star (StarExpr x) = (''*'', x)"
| "split_star x = ([], x)"

text \<open>Called only for a declaration whose receiver has a base, so the receiver list is not empty.\<close>

definition method_text :: "tools \<Rightarrow> scope \<Rightarrow> string \<Rightarrow> func_decl \<Rightarrow> string" where
  "method_text T s recvName d =
     (case fd_Recv d of
        Some (f # _) \<Rightarrow>
          (let (star, recv) = split_star (Type f);
               params = receiver_args recv;
               args = (if params = [] then [] else ''['' @ join_with '', '' params @ '']'');
               s' = (if params = [] then s else withTypeParams [Field params (Ident [])] s)
           in ''func ('' @ star @ recvName @ args @ '') '' @ fd_Name d
                @ signature (to_Printer T) (nm s') (fd_Params d) (fd_Results d))
      | _ \<Rightarrow> [])"

definition method_line :: "tools \<Rightarrow> scope \<Rightarrow> string \<Rightarrow> string \<Rightarrow> go_file \<Rightarrow> decl \<Rightarrow> string list" where
  "method_line T s owner name f d =
     (case d of
        FuncDecl fd \<Rightarrow>
          if fd_Recv fd \<noteq> None \<and> IsExported (to_Printer T) (fd_Name fd) \<and> recvBase (fd_Recv fd) = Some name
          then [method_text T (s\<lparr>sc_file := Some f\<rparr>) owner fd] else []
      | _ \<Rightarrow> [])"

definition methodsOf :: "tools \<Rightarrow> scope \<Rightarrow> string \<Rightarrow> string \<Rightarrow> string list" where
  "methodsOf T s owner name =
     concat (map (\<lambda>f. concat (map (method_line T s owner name f) (f_Decls f))) (files (sc_p s)))"

subsection \<open>Resolving pkg.Name\<close>

text \<open>The import that a name stands for: the first one, in source order, of a package of this
  module whose local name it is. A package that does not parse ends the search.\<close>

fun find_import :: "gomodule \<Rightarrow> string \<Rightarrow> import_spec list \<Rightarrow> (string \<times> pkg) option" where
  "find_import m x [] = None"
| "find_import m x (i # is) =
     (case imp_Path i of
        None \<Rightarrow> find_import m x is
      | Some path \<Rightarrow>
          (case map_of (m_pkgs m) path of
             None \<Rightarrow> find_import m x is
           | Some p \<Rightarrow>
               if (case imp_Name i of None \<Rightarrow> Name p | Some n \<Rightarrow> n) = x then Some (path, p)
               else find_import m x is))"

definition resolveSelector ::
  "tools \<Rightarrow> gomodule \<Rightarrow> scope \<Rightarrow> expr option \<Rightarrow> (scope \<times> string) option \<times> gomodule" where
  "resolveSelector T m s e =
     (case (e, sc_file s) of
        (Some (SelectorExpr (Ident x) sel), Some f) \<Rightarrow>
          (case find_import m x (f_Imports f) of
             None \<Rightarrow> (None, m)
           | Some (path, p) \<Rightarrow>
               (case parse_in T m path p of
                  (m', q, Some _) \<Rightarrow> (None, m')
                | (m', q, None) \<Rightarrow>
                    (Some (\<lparr>qual = Name q, tparams = [], sc_p = q, sc_file = None\<rparr>, sel), m')))
      | _ \<Rightarrow> (None, m))"

text \<open>The first file that declares a name, and what it declares.\<close>

fun find_in_files :: "(go_file \<Rightarrow> 'a option) \<Rightarrow> go_file list \<Rightarrow> (go_file \<times> 'a) option" where
  "find_in_files g [] = None"
| "find_in_files g (f # fs) = (case g f of Some a \<Rightarrow> Some (f, a) | None \<Rightarrow> find_in_files g fs)"

fun type_specs :: "decl list \<Rightarrow> type_spec list" where
  "type_specs [] = []"
| "type_specs (d # ds) = (case d of TypeDecl ss \<Rightarrow> ss | _ \<Rightarrow> []) @ type_specs ds"

definition resolveType ::
  "tools \<Rightarrow> gomodule \<Rightarrow> scope \<Rightarrow> expr \<Rightarrow> (scope \<times> type_spec) option \<times> gomodule" where
  "resolveType T m s e =
     (case resolveSelector T m s (Some e) of
        (None, m') \<Rightarrow> (None, m')
      | (Some (target, name), m') \<Rightarrow>
          (map_option (\<lambda>(f, ts). (target\<lparr>sc_file := Some f\<rparr>, ts))
             (find_in_files (\<lambda>f. find (\<lambda>ts. ts_Name ts = name) (type_specs (f_Decls f))) (files (sc_p target))),
           m'))"


subsection \<open>Constants\<close>

record const_entry =
  ce_name :: string
  ce_typ :: "expr option"
  ce_val :: "expr option"
  ce_iota :: nat
  ce_implicit :: bool

definition at_index :: "'a list \<Rightarrow> nat \<Rightarrow> 'a option" where
  "at_index xs i = (if i < length xs then Some (xs ! i) else None)"

fun const_entries_from ::
  "nat \<Rightarrow> expr option \<Rightarrow> expr list \<Rightarrow> value_spec list \<Rightarrow> const_entry list" where
  "const_entries_from i typ vals [] = []"
| "const_entries_from i typ vals (vs # rest) =
     (let implicit = (vs_Type vs = None \<and> vs_Values vs = []);
          typ' = (if implicit then typ else vs_Type vs);
          vals' = (if implicit then vals else vs_Values vs)
      in map (\<lambda>(j, n). \<lparr>ce_name = n, ce_typ = typ', ce_val = at_index vals' j, ce_iota = i, ce_implicit = implicit\<rparr>)
           (enumerate 0 (vs_Names vs))
         @ const_entries_from (i + 1) typ' vals' rest)"

definition constEntries :: "value_spec list \<Rightarrow> const_entry list" where
  "constEntries specs = const_entries_from 0 None [] specs"

fun const_blocks :: "decl list \<Rightarrow> const_entry list" where
  "const_blocks [] = []"
| "const_blocks (d # ds) = (case d of ConstDecl ss \<Rightarrow> constEntries ss | _ \<Rightarrow> []) @ const_blocks ds"

definition findConst :: "scope \<Rightarrow> string \<Rightarrow> (const_entry \<times> scope) option" where
  "findConst s name =
     map_option (\<lambda>(f, c). (c, s\<lparr>sc_file := Some f\<rparr>))
       (find_in_files (\<lambda>f. find (\<lambda>c. ce_name c = name) (const_blocks (f_Decls f))) (files (sc_p s)))"

text \<open>The part of strings.Cut after the separator.\<close>

fun cut_after :: "string \<Rightarrow> string \<Rightarrow> string" where
  "cut_after sep [] = (case strip_prefix sep [] of Some r \<Rightarrow> r | None \<Rightarrow> [])"
| "cut_after sep (c # cs) = (case strip_prefix sep (c # cs) of Some r \<Rightarrow> r | None \<Rightarrow> cut_after sep cs)"

definition type_suffix :: "tools \<Rightarrow> scope \<Rightarrow> expr option \<Rightarrow> string" where
  "type_suffix T s t = (case t of None \<Rightarrow> [] | Some x \<Rightarrow> '' '' @ typeString (to_Printer T) (nm s) x)"

definition own_const_suffix :: "tools \<Rightarrow> scope \<Rightarrow> const_entry \<Rightarrow> string" where
  "own_const_suffix T s c =
     type_suffix T s (ce_typ c) @ '' = '' @ exprString (to_Printer T) (ce_val c) @
     (if case ce_val c of None \<Rightarrow> False | Some v \<Rightarrow> usesIota v
      then '' (iota = '' @ show_nat (ce_iota c) @ '')'' else [])"

text \<open>The depth grows with each const followed, up to maxFollow.\<close>

function constSuffix :: "tools \<Rightarrow> gomodule \<Rightarrow> scope \<Rightarrow> const_entry \<Rightarrow> nat \<Rightarrow> string \<times> gomodule" where
  "constSuffix T m s c depth =
     (case resolveSelector T m s (ce_val c) of
        (None, m') \<Rightarrow> (own_const_suffix T s c, m')
      | (Some (target, name), m') \<Rightarrow>
          if depth < maxFollow then
            (case findConst target name of
               None \<Rightarrow> (own_const_suffix T s c, m')
             | Some (tc, cs) \<Rightarrow>
                 (case constSuffix T m' cs tc (depth + 1) of
                    (resolved, m'') \<Rightarrow>
                      (if ce_typ c = None then resolved
                       else type_suffix T s (ce_typ c) @ '' = '' @ cut_after '' = '' resolved, m'')))
          else (own_const_suffix T s c, m'))"
  by pat_completeness auto
termination by (relation "measure (\<lambda>(T, m, s, c, depth). maxFollow - depth)") auto

declare constSuffix.simps [simp del]

subsection \<open>Variables\<close>

fun value_specs :: "decl list \<Rightarrow> value_spec list" where
  "value_specs [] = []"
| "value_specs (d # ds) = (case d of VarDecl ss \<Rightarrow> ss | _ \<Rightarrow> []) @ value_specs ds"

definition named_vars :: "value_spec list \<Rightarrow> (string \<times> value_spec \<times> nat) list" where
  "named_vars vss = concat (map (\<lambda>vs. map (\<lambda>(j, n). (n, vs, j)) (enumerate 0 (vs_Names vs))) vss)"

definition findVar :: "scope \<Rightarrow> string \<Rightarrow> (go_file \<times> value_spec \<times> nat) option" where
  "findVar s name =
     map_option (\<lambda>(f, n, vs, j). (f, vs, j))
       (find_in_files (\<lambda>f. find (\<lambda>x. fst x = name) (named_vars (value_specs (f_Decls f)))) (files (sc_p s)))"

definition value_suffix :: "tools \<Rightarrow> scope \<Rightarrow> expr \<Rightarrow> string" where
  "value_suffix T s v =
     (let text = '' = '' @ exprString (to_Printer T) (Some v); type = typeString (to_Printer T) (nm s)
      in case v of
           CallExpr (SelectorExpr (Ident x) sel) _ \<Rightarrow>
             if x = ''errors'' \<and> sel = ''New'' \<or> x = ''fmt'' \<and> sel = ''Errorf'' then '' error'' else text
         | CompositeLit (Some t) _ \<Rightarrow> '' '' @ type t @ text
         | UnaryExpr op (CompositeLit (Some t) _) \<Rightarrow> if op = ''&'' then '' *'' @ type t @ text else text
         | _ \<Rightarrow> text)"

text \<open>The parser gives a var a type or a value, so the first value exists where it is read.\<close>

function varSuffix :: "tools \<Rightarrow> gomodule \<Rightarrow> scope \<Rightarrow> value_spec \<Rightarrow> nat \<Rightarrow> nat \<Rightarrow> string \<times> gomodule" where
  "varSuffix T m s vs i depth =
     (if vs_Type vs \<noteq> None then (type_suffix T s (vs_Type vs), m)
      else if length (vs_Values vs) \<noteq> length (vs_Names vs) then
        ('' = '' @ exprString (to_Printer T) (at_index (vs_Values vs) 0), m)
      else
        (case resolveSelector T m s (Some (vs_Values vs ! i)) of
           (None, m') \<Rightarrow> (value_suffix T s (vs_Values vs ! i), m')
         | (Some (target, name), m') \<Rightarrow>
             if depth < maxFollow then
               (case findVar target name of
                  Some (f, spec, j) \<Rightarrow> varSuffix T m' (target\<lparr>sc_file := Some f\<rparr>) spec j (depth + 1)
                | None \<Rightarrow>
                    (case findConst target name of
                       Some (c, cs) \<Rightarrow> constSuffix T m' cs c (depth + 1)
                     | None \<Rightarrow> (value_suffix T s (vs_Values vs ! i), m')))
             else (value_suffix T s (vs_Values vs ! i), m')))"
  by pat_completeness auto
termination by (relation "measure (\<lambda>(T, m, s, vs, i, depth). maxFollow - depth)") auto

declare varSuffix.simps [simp del]

subsection \<open>Types\<close>

definition struct_lines :: "tools \<Rightarrow> scope \<Rightarrow> string \<Rightarrow> field \<Rightarrow> string list" where
  "struct_lines T s owner f =
     (let P = to_Printer T; text = typeString P (nm s) (Type f) in
      if Names f = [] then
        (case embeddedName (Type f) of
           Some b \<Rightarrow> if IsExported P b then [''type '' @ owner @ '' struct { '' @ text @ '' }''] else []
         | None \<Rightarrow> [])
      else map (\<lambda>n. ''type '' @ owner @ '' struct { '' @ n @ '' '' @ text @ '' }'')
             (filter (IsExported P) (Names f)))"

definition interface_lines :: "tools \<Rightarrow> scope \<Rightarrow> string \<Rightarrow> field \<Rightarrow> string list" where
  "interface_lines T s owner f =
     (let P = to_Printer T in
      if Names f = [] then [''type '' @ owner @ '' interface { '' @ typeString P (nm s) (Type f) @ '' }'']
      else (case Type f of
              FuncType tps ps rs \<Rightarrow>
                map (\<lambda>n. ''type '' @ owner @ '' interface { '' @ n @ signature P (nm s) ps rs @ '' }'')
                  (filter (IsExported P) (Names f))
            | _ \<Rightarrow> []))"

definition own_type_lines :: "tools \<Rightarrow> scope \<Rightarrow> string \<Rightarrow> string \<Rightarrow> expr \<Rightarrow> string list" where
  "own_type_lines T s owner tp e =
     (case e of
        StructType fs \<Rightarrow> (''type '' @ owner @ tp @ '' struct'') # concat (map (struct_lines T s owner) fs)
      | InterfaceType fs \<Rightarrow> (''type '' @ owner @ tp @ '' interface'') # concat (map (interface_lines T s owner) fs)
      | _ \<Rightarrow> [''type '' @ owner @ tp @ '' '' @ typeString (to_Printer T) (nm s) e])"

function typeLines ::
  "tools \<Rightarrow> gomodule \<Rightarrow> scope \<Rightarrow> string \<Rightarrow> type_spec \<Rightarrow> nat \<Rightarrow> string list \<times> gomodule" where
  "typeLines T m s0 owner ts depth =
     (let s = withTypeParams (ts_TypeParams ts) s0;
          tp = typeParams (to_Printer T) (nm s) (ts_TypeParams ts);
          line = ''type '' @ owner @ tp @ '' = '' @ typeString (to_Printer T) (nm s) (ts_Type ts)
      in if ts_Assign ts then
           (case resolveType T m s (ts_Type ts) of
              (None, m') \<Rightarrow> ([line], m')
            | (Some (target, spec), m') \<Rightarrow>
                if depth < maxFollow \<and> ts_TypeParams spec = [] then
                  (case typeLines T m' target owner spec (depth + 1) of
                     (ls, m'') \<Rightarrow> (line # ls @ methodsOf T target owner (ts_Name spec), m''))
                else ([line], m'))
         else (own_type_lines T s owner tp (ts_Type ts), m))"
  by pat_completeness auto
termination by (relation "measure (\<lambda>(T, m, s, owner, ts, depth). maxFollow - depth)") auto

declare typeLines.simps [simp del]

subsection \<open>Packages and the listing\<close>

text \<open>Lines collected over a list while the module changes.\<close>

fun collect :: "('s \<Rightarrow> 'a \<Rightarrow> 'b list \<times> 's) \<Rightarrow> 's \<Rightarrow> 'a list \<Rightarrow> 'b list \<times> 's" where
  "collect g m [] = ([], m)"
| "collect g m (x # xs) =
     (case g m x of (ls, m') \<Rightarrow> (case collect g m' xs of (rest, m'') \<Rightarrow> (ls @ rest, m'')))"

definition genDecl :: "tools \<Rightarrow> scope \<Rightarrow> string \<Rightarrow> gomodule \<Rightarrow> decl \<Rightarrow> string list \<times> gomodule" where
  "genDecl T s q m d =
     (let exported = IsExported (to_Printer T) in
      case d of
        TypeDecl specs \<Rightarrow>
          collect (\<lambda>m ts. if exported (ts_Name ts) then typeLines T m s (q @ ''.'' @ ts_Name ts) ts 0 else ([], m)) m specs
      | ConstDecl specs \<Rightarrow>
          collect (\<lambda>m c.
            if exported (ce_name c) then
              (case constSuffix T m s c 0 of (suffix, m') \<Rightarrow> ([''const '' @ q @ ''.'' @ ce_name c @ suffix], m'))
            else ([], m)) m (constEntries specs)
      | VarDecl specs \<Rightarrow>
          collect (\<lambda>m (name, vs, i).
            if exported name then
              (case varSuffix T m s vs i 0 of (suffix, m') \<Rightarrow> ([''var '' @ q @ ''.'' @ name @ suffix], m'))
            else ([], m)) m (named_vars specs)
      | _ \<Rightarrow> ([], m))"

definition funcDecl :: "tools \<Rightarrow> scope \<Rightarrow> string \<Rightarrow> func_decl \<Rightarrow> string list" where
  "funcDecl T s q d =
     (let P = to_Printer T in
      if \<not> IsExported P (fd_Name d) then []
      else (case fd_Recv d of
              None \<Rightarrow>
                (let s' = withTypeParams (fd_TypeParams d) s
                 in [''func '' @ q @ ''.'' @ fd_Name d @ typeParams P (nm s') (fd_TypeParams d)
                       @ signature P (nm s') (fd_Params d) (fd_Results d)])
            | Some recv \<Rightarrow>
                (case recvBase (Some recv) of
                   Some b \<Rightarrow> if IsExported P b then [method_text T s (q @ ''.'' @ b) d] else []
                 | None \<Rightarrow> [])))"

definition decl_lines :: "tools \<Rightarrow> scope \<Rightarrow> string \<Rightarrow> gomodule \<Rightarrow> decl \<Rightarrow> string list \<times> gomodule" where
  "decl_lines T s q m d = (case d of FuncDecl fd \<Rightarrow> (funcDecl T s q fd, m) | _ \<Rightarrow> genDecl T s q m d)"

definition listPackage :: "tools \<Rightarrow> gomodule \<Rightarrow> pkg \<Rightarrow> string list \<times> gomodule" where
  "listPackage T m0 p =
     collect (\<lambda>m f.
       collect (decl_lines T \<lparr>qual = [], tparams = [], sc_p = p, sc_file = Some f\<rparr> (lineQual m0 p)) m (f_Decls f))
       m0 (files p)"

text \<open>load: what the two go commands print, the module path and the packages one by one, each of
  which may not decode.\<close>

fun decode_pkgs :: "(string + pkg) list \<Rightarrow> (string \<times> pkg) list \<Rightarrow> string + (string \<times> pkg) list" where
  "decode_pkgs [] ps = Inr ps"
| "decode_pkgs (Inl err # xs) ps = Inl (''go list output: '' @ err)"
| "decode_pkgs (Inr p # xs) ps = decode_pkgs xs (AList.update (ImportPath p) (p\<lparr>files := []\<rparr>) ps)"

definition load :: "string + string \<Rightarrow> string + (string + pkg) list \<Rightarrow> string + gomodule" where
  "load modPath listing =
     (case modPath of
        Inl err \<Rightarrow> Inl err
      | Inr path \<Rightarrow>
          (case listing of
             Inl err \<Rightarrow> Inl err
           | Inr ps \<Rightarrow>
               (case decode_pkgs ps [] of
                  Inl err \<Rightarrow> Inl err
                | Inr pkgs \<Rightarrow> Inr \<lparr>m_path = trim_space path, m_pkgs = pkgs\<rparr>)))"

fun list_paths :: "tools \<Rightarrow> gomodule \<Rightarrow> string list \<Rightarrow> string + string list" where
  "list_paths T m [] = Inr []"
| "list_paths T m (path # paths) =
     (case map_of (m_pkgs m) path of
        None \<Rightarrow> list_paths T m paths
      | Some p \<Rightarrow>
          (case parse_in T m path p of
             (m', q, Some err) \<Rightarrow> Inl err
           | (m', q, None) \<Rightarrow>
               (case listPackage T m' q of
                  (ls, m'') \<Rightarrow> map_sum id (\<lambda>rest. ls @ rest) (list_paths T m'' paths))))"

definition public_paths :: "gomodule \<Rightarrow> string list" where
  "public_paths m =
     sort (map fst (filter (\<lambda>(path, p). Name p \<noteq> ''main'' \<and> \<not> isInternal path) (m_pkgs m)))"

definition Surface :: "tools \<Rightarrow> string + string \<Rightarrow> string + (string + pkg) list \<Rightarrow> string \<Rightarrow> string + string list" where
  "Surface T modPath listing dir =
     (case load modPath listing of
        Inl err \<Rightarrow> Inl err
      | Inr m \<Rightarrow>
          if public_paths m = [] then Inl (''no public package under '' @ dir)
          else map_sum id sort (list_paths T m (public_paths m)))"

subsection \<open>Renaming a parameter moves no line\<close>

text \<open>The program with the names of parameters, results and receivers forgotten, from one
  declaration up to what the parser returns for every file.\<close>

definition forget_ts :: "type_spec \<Rightarrow> type_spec" where
  "forget_ts ts = ts\<lparr>ts_TypeParams := forget_fields (ts_TypeParams ts), ts_Type := forget (ts_Type ts)\<rparr>"

definition forget_vs :: "value_spec \<Rightarrow> value_spec" where
  "forget_vs vs = vs\<lparr>vs_Type := map_option forget (vs_Type vs)\<rparr>"

definition forget_recv :: "field list \<Rightarrow> field list" where
  "forget_recv fs = map (\<lambda>f. Field [] (Type f)) fs"

definition forget_fd :: "func_decl \<Rightarrow> func_decl" where
  "forget_fd d =
     d\<lparr>fd_Recv := map_option forget_recv (fd_Recv d), fd_TypeParams := forget_fields (fd_TypeParams d),
       fd_Params := forget_params (fd_Params d), fd_Results := forget_params (fd_Results d)\<rparr>"

fun forget_decl :: "decl \<Rightarrow> decl" where
  "forget_decl (FuncDecl d) = FuncDecl (forget_fd d)"
| "forget_decl (TypeDecl ss) = TypeDecl (map forget_ts ss)"
| "forget_decl (ConstDecl ss) = ConstDecl (map forget_vs ss)"
| "forget_decl (VarDecl ss) = VarDecl (map forget_vs ss)"
| "forget_decl ImportDecl = ImportDecl"

definition forget_file :: "go_file \<Rightarrow> go_file" where
  "forget_file f = f\<lparr>f_Decls := map forget_decl (f_Decls f)\<rparr>"

definition forget_pkg :: "pkg \<Rightarrow> pkg" where
  "forget_pkg p = p\<lparr>files := map forget_file (files p)\<rparr>"

definition forget_mod :: "gomodule \<Rightarrow> gomodule" where
  "forget_mod m = m\<lparr>m_pkgs := map (\<lambda>(k, p). (k, forget_pkg p)) (m_pkgs m)\<rparr>"

definition forget_scope :: "scope \<Rightarrow> scope" where
  "forget_scope s = s\<lparr>sc_p := forget_pkg (sc_p s), sc_file := map_option forget_file (sc_file s)\<rparr>"

definition forget_tools :: "tools \<Rightarrow> tools" where
  "forget_tools T = T\<lparr>to_Parse := \<lambda>n. map_sum id forget_file (to_Parse T n)\<rparr>"

definition forget_ce :: "const_entry \<Rightarrow> const_entry" where
  "forget_ce c = c\<lparr>ce_typ := map_option forget (ce_typ c)\<rparr>"

named_theorems forgets "what forgetting parameter names commutes with"

lemma forget_projections [simp]:
  "to_Printer (forget_tools T) = to_Printer T"
  "nm (forget_scope s) = nm s"
  "sc_p (forget_scope s) = forget_pkg (sc_p s)"
  "sc_file (forget_scope s) = map_option forget_file (sc_file s)"
  "files (forget_pkg p) = map forget_file (files p)"
  "Name (forget_pkg p) = Name p" "Dir (forget_pkg p) = Dir p" "ImportPath (forget_pkg p) = ImportPath p"
  "GoFiles (forget_pkg p) = GoFiles p" "CgoFiles (forget_pkg p) = CgoFiles p"
  "f_Imports (forget_file f) = f_Imports f" "f_Decls (forget_file f) = map forget_decl (f_Decls f)"
  "ts_Name (forget_ts ts) = ts_Name ts" "ts_Assign (forget_ts ts) = ts_Assign ts"
  "ts_Type (forget_ts ts) = forget (ts_Type ts)" "ts_TypeParams (forget_ts ts) = forget_fields (ts_TypeParams ts)"
  "vs_Names (forget_vs vs) = vs_Names vs" "vs_Values (forget_vs vs) = vs_Values vs"
  "vs_Type (forget_vs vs) = map_option forget (vs_Type vs)"
  "ce_name (forget_ce c) = ce_name c" "ce_val (forget_ce c) = ce_val c" "ce_iota (forget_ce c) = ce_iota c"
  "ce_typ (forget_ce c) = map_option forget (ce_typ c)"
  "fd_Name (forget_fd d) = fd_Name d" "fd_TypeParams (forget_fd d) = forget_fields (fd_TypeParams d)"
  "fd_Params (forget_fd d) = forget_params (fd_Params d)" "fd_Results (forget_fd d) = forget_params (fd_Results d)"
  "m_path (forget_mod m) = m_path m"
  "m_pkgs (forget_mod m) = map (\<lambda>(k, p). (k, forget_pkg p)) (m_pkgs m)"
  by (simp_all add: forget_tools_def forget_scope_def forget_pkg_def forget_file_def forget_ts_def
      forget_vs_def forget_ce_def forget_fd_def forget_mod_def names.truncate_def)

lemma forget_fields_Names [simp]:
  "map Names (forget_fields fs) = map Names fs" "forget_fields fs = [] \<longleftrightarrow> fs = []"
proof -
  have "map Names (forget_fields fs) = map Names fs" for fs
  proof (induction fs)
    case (Cons f fs)
    then show ?case by (cases f) simp
  qed simp
  moreover have "forget_fields fs = [] \<longleftrightarrow> fs = []" for fs
    using calculation [of fs] by (metis list.map_disc_iff)
  ultimately show "map Names (forget_fields fs) = map Names fs" "forget_fields fs = [] \<longleftrightarrow> fs = []" by blast+
qed

lemma forget_scope_file [simp]:
  "forget_scope (s\<lparr>sc_file := Some f\<rparr>) = (forget_scope s)\<lparr>sc_file := Some (forget_file f)\<rparr>"
  by (simp add: forget_scope_def)

lemma withTypeParams_forget [simp]:
  "withTypeParams (forget_fields tps) (forget_scope s) = forget_scope (withTypeParams tps s)"
  "withTypeParams [Field ns t] (forget_scope s) = forget_scope (withTypeParams [Field ns t] s)"
  by (simp_all add: withTypeParams_def forget_scope_def)

lemma lineQual_forget [simp]: "lineQual (forget_mod m) (forget_pkg p) = lineQual m p"
  by (simp add: lineQual_def)

lemma parse_forget [forgets]:
  "parse (forget_tools T) (forget_pkg p) = map_prod forget_pkg id (parse T p)"
proof -
  have "parse_files (forget_tools T) dir ns = map_prod (map forget_file) id (parse_files T dir ns)" for dir ns
    by (induction ns) (auto simp: forget_tools_def split: sum.split prod.splits)
  then show ?thesis by (simp add: parse_def forget_pkg_def split: prod.split)
qed

lemma update_forget:
  "AList.update k (forget_pkg p) (map (\<lambda>(k, p). (k, forget_pkg p)) ps) =
     map (\<lambda>(k, p). (k, forget_pkg p)) (AList.update k p ps)"
  by (induction ps) auto

lemma parse_in_forget [forgets]:
  "parse_in (forget_tools T) (forget_mod m) path (forget_pkg p) =
     map_prod forget_mod (map_prod forget_pkg id) (parse_in T m path p)"
  by (simp add: parse_in_def parse_forget update_forget forget_mod_def split: prod.split)

lemma find_import_forget [forgets]:
  "find_import (forget_mod m) x is = map_option (map_prod id forget_pkg) (find_import m x is)"
  by (induction "is") (auto simp: map_of_map split: option.split)

lemma resolveSelector_forget [forgets]:
  "resolveSelector (forget_tools T) (forget_mod m) (forget_scope s) e =
     map_prod (map_option (map_prod forget_scope id)) forget_mod (resolveSelector T m s e)"
proof (cases "\<exists>x sel f. e = Some (SelectorExpr (Ident x) sel) \<and> sc_file s = Some f")
  case True
  then show ?thesis
    by (auto simp: resolveSelector_def forgets forget_scope_def split: option.split prod.split)
next
  case False
  then show ?thesis
    by (auto simp: resolveSelector_def split: option.splits expr.splits)
qed

lemma resolveSelector_forget_expr [simp]:
  "resolveSelector T m s (Some (forget e)) = resolveSelector T m s (Some e)"
proof (cases e)
  case (Ellipsis x)
  then show ?thesis by (cases x) (simp_all add: resolveSelector_def)
next
  case (ArrayType x y)
  then show ?thesis by (cases x) (simp_all add: resolveSelector_def)
qed (simp_all add: resolveSelector_def)

lemma find_map: "find Q (map h xs) = map_option h (find (\<lambda>x. Q (h x)) xs)"
  by (induction xs) auto

lemma find_in_files_map:
  assumes "\<And>f. g' (h f) = map_option k (g f)"
  shows "find_in_files g' (map h fs) = map_option (map_prod h k) (find_in_files g fs)"
  using assms by (induction fs) (auto split: option.split)

lemma type_specs_forget [simp]: "type_specs (map forget_decl ds) = map forget_ts (type_specs ds)"
proof (induction ds)
  case (Cons d ds)
  then show ?case by (cases d) simp_all
qed simp

lemma resolveType_forget [forgets]:
  "resolveType (forget_tools T) (forget_mod m) (forget_scope s) (forget e) =
     map_prod (map_option (map_prod forget_scope forget_ts)) forget_mod (resolveType T m s e)"
proof -
  have "find_in_files (\<lambda>f. find (\<lambda>ts. ts_Name ts = n) (type_specs (f_Decls f))) (map forget_file fs) =
      map_option (map_prod forget_file forget_ts)
        (find_in_files (\<lambda>f. find (\<lambda>ts. ts_Name ts = n) (type_specs (f_Decls f))) fs)" for n fs
    by (rule find_in_files_map) (simp add: find_map)
  note found = this
  obtain r m' where r: "resolveSelector T m s (Some e) = (r, m')" by (cases "resolveSelector T m s (Some e)")
  show ?thesis
  proof (cases r)
    case None
    then show ?thesis using r by (simp add: resolveType_def forgets)
  next
    case (Some tn)
    obtain target name where tn: "tn = (target, name)" by (cases tn)
    show ?thesis
      using r Some tn
      by (cases "find_in_files (\<lambda>f. find (\<lambda>ts. ts_Name ts = name) (type_specs (f_Decls f))) (files (sc_p target))")
        (auto simp: resolveType_def forgets found)
  qed
qed

lemma const_entries_forget:
  "const_entries_from i (map_option forget typ) vals (map forget_vs specs) =
     map forget_ce (const_entries_from i typ vals specs)"
proof (induction specs arbitrary: i "typ" vals)
  case (Cons vs specs)
  have entries: "map (\<lambda>(j, n). \<lparr>ce_name = n, ce_typ = map_option forget t, ce_val = at_index v j, ce_iota = i, ce_implicit = b\<rparr>) xs
      = map forget_ce (map (\<lambda>(j, n). \<lparr>ce_name = n, ce_typ = t, ce_val = at_index v j, ce_iota = i, ce_implicit = b\<rparr>) xs)"
    for t v b xs
    by (auto simp: forget_ce_def)
  obtain b where b: "(vs_Type vs = None \<and> vs_Values vs = []) = b" by blast
  show ?case by (cases b) (simp_all add: b Let_def Cons.IH entries)
qed simp

lemma constEntries_forget [simp]: "constEntries (map forget_vs specs) = map forget_ce (constEntries specs)"
  using const_entries_forget [of 0 None "[]" specs] by (simp add: constEntries_def)

lemma const_blocks_forget [simp]: "const_blocks (map forget_decl ds) = map forget_ce (const_blocks ds)"
proof (induction ds)
  case (Cons d ds)
  then show ?case by (cases d) simp_all
qed simp

lemma findConst_forget [forgets]:
  "findConst (forget_scope s) name = map_option (map_prod forget_ce forget_scope) (findConst s name)"
proof -
  have "find_in_files (\<lambda>f. find (\<lambda>c. ce_name c = name) (const_blocks (f_Decls f))) (map forget_file fs) =
      map_option (map_prod forget_file forget_ce)
        (find_in_files (\<lambda>f. find (\<lambda>c. ce_name c = name) (const_blocks (f_Decls f))) fs)" for fs
    by (rule find_in_files_map) (simp add: find_map)
  then show ?thesis
    by (auto simp: findConst_def option.map_comp o_def split_def)
qed

lemma type_suffix_forget [simp]:
  "type_suffix (forget_tools T) (forget_scope s) (map_option forget t) = type_suffix T s t"
  by (cases t) (simp_all add: type_suffix_def)

lemma own_const_suffix_forget [simp]:
  "own_const_suffix (forget_tools T) (forget_scope s) (forget_ce c) = own_const_suffix T s c"
  by (simp add: own_const_suffix_def)

lemma constSuffix_forget [forgets]:
  "constSuffix (forget_tools T) (forget_mod m) (forget_scope s) (forget_ce c) depth =
     map_prod id forget_mod (constSuffix T m s c depth)"
proof (induction T m s c depth rule: constSuffix.induct)
  case (1 T m s c depth)
  obtain r m' where r: "resolveSelector T m s (ce_val c) = (r, m')" by (cases "resolveSelector T m s (ce_val c)")
  show ?case
  proof (cases r)
    case None
    then show ?thesis using r by (simp add: constSuffix.simps [of _ _ _ _ depth] forgets)
  next
    case (Some tn)
    obtain target name where tn: "tn = (target, name)" by (cases tn)
    note IH = "1.IH" [OF r [symmetric] Some tn [symmetric]]
    show ?thesis
    proof (cases "findConst target name")
      case None
      then show ?thesis using r Some tn by (simp add: constSuffix.simps [of _ _ _ _ depth] forgets)
    next
      case (Some tcs)
      then show ?thesis using r \<open>r = Some tn\<close> tn IH
        by (cases tcs) (simp add: constSuffix.simps [of _ _ _ _ depth] forgets split: prod.split)
    qed
  qed
qed


lemma value_suffix_forget [simp]:
  "value_suffix (forget_tools T) (forget_scope s) v = value_suffix T s v"
  by (simp add: value_suffix_def)

lemma value_specs_forget [simp]: "value_specs (map forget_decl ds) = map forget_vs (value_specs ds)"
proof (induction ds)
  case (Cons d ds)
  then show ?case by (cases d) simp_all
qed simp

abbreviation forget_var :: "string \<times> value_spec \<times> nat \<Rightarrow> string \<times> value_spec \<times> nat" where
  "forget_var \<equiv> map_prod id (map_prod forget_vs id)"

lemma named_vars_forget [simp]: "named_vars (map forget_vs vss) = map forget_var (named_vars vss)"
  by (induction vss) (auto simp: named_vars_def)

lemma findVar_forget [forgets]:
  "findVar (forget_scope s) name = map_option (map_prod forget_file (map_prod forget_vs id)) (findVar s name)"
proof -
  have "find_in_files (\<lambda>f. find (\<lambda>x. fst x = name) (named_vars (value_specs (f_Decls f)))) (map forget_file fs) =
      map_option (map_prod forget_file forget_var)
        (find_in_files (\<lambda>f. find (\<lambda>x. fst x = name) (named_vars (value_specs (f_Decls f)))) fs)" for fs
    by (rule find_in_files_map) (simp add: find_map)
  then show ?thesis
    by (auto simp: findVar_def option.map_comp o_def split_def)
qed

lemma varSuffix_forget [forgets]:
  "varSuffix (forget_tools T) (forget_mod m) (forget_scope s) (forget_vs vs) i depth =
     map_prod id forget_mod (varSuffix T m s vs i depth)"
proof (induction T m s vs i depth rule: varSuffix.induct)
  case (1 T m s vs i depth)
  show ?case
  proof (cases "vs_Type vs \<noteq> None \<or> length (vs_Values vs) \<noteq> length (vs_Names vs)")
    case True
    then show ?thesis
      using type_suffix_forget [of T s "vs_Type vs"]
      by (auto simp: varSuffix.simps [of _ _ _ _ i depth])
  next
    case False
    then have f: "\<not> vs_Type vs \<noteq> None" "\<not> length (vs_Values vs) \<noteq> length (vs_Names vs)" by auto
    obtain r m' where r: "resolveSelector T m s (Some (vs_Values vs ! i)) = (r, m')"
      by (cases "resolveSelector T m s (Some (vs_Values vs ! i))")
    show ?thesis
    proof (cases r)
      case None
      then show ?thesis using r f by (simp add: varSuffix.simps [of _ _ _ _ i depth] forgets)
    next
      case (Some tn)
      obtain target name where tn: "tn = (target, name)" by (cases tn)
      note IH = "1.IH" [OF f r [symmetric] Some tn [symmetric]]
      show ?thesis
      proof (cases "findVar target name")
        case None
        then show ?thesis using r f Some tn
          by (cases "findConst target name") (auto simp: varSuffix.simps [of _ _ _ _ i depth] forgets id_def)
      next
        case (Some v)
        then show ?thesis using r f \<open>r = Some tn\<close> tn IH
          by (cases v) (simp add: varSuffix.simps [of _ _ _ _ i depth] forgets)
      qed
    qed
  qed
qed

lemma embeddedName_forget [simp]: "embeddedName (forget e) = embeddedName e"
proof -
  have "embeddedName (forget e) = embeddedName e" "True" "True" "True"
    by (induction e and "[] :: expr list" and "[] :: field list" and "[] :: field list"
        rule: forget_forget_list_forget_params_forget_fields.induct) simp_all
  then show ?thesis by blast
qed

lemma own_type_lines_forget [simp]:
  "own_type_lines (forget_tools T) (forget_scope s) owner tp (forget e) = own_type_lines T s owner tp e"
proof -
  have struct: "concat (map (struct_lines (forget_tools T) (forget_scope s) owner) (forget_fields fs)) =
      concat (map (struct_lines T s owner) fs)" for fs
  proof (induction fs)
    case (Cons f fs)
    then show ?case by (cases f) (simp add: struct_lines_def Let_def split: option.split)
  qed simp
  have interface: "concat (map (interface_lines (forget_tools T) (forget_scope s) owner) (forget_fields fs)) =
      concat (map (interface_lines T s owner) fs)" for fs
  proof (induction fs)
    case (Cons f fs)
    obtain ns t where f: "f = Field ns t" by (cases f)
    have "interface_lines (forget_tools T) (forget_scope s) owner (Field ns (forget t)) =
        interface_lines T s owner (Field ns t)"
    proof (cases t)
      case (Ellipsis x)
      then show ?thesis by (cases x) (simp_all add: interface_lines_def Let_def)
    next
      case (ArrayType x y)
      then show ?thesis by (cases x) (simp_all add: interface_lines_def Let_def)
    qed (simp_all add: interface_lines_def Let_def)
    then show ?case using Cons f by simp
  qed simp
  show ?thesis
  proof (cases e)
    case (Ellipsis x)
    then show ?thesis by (cases x) (simp_all add: own_type_lines_def)
  next
    case (ArrayType x y)
    then show ?thesis by (cases x) (simp_all add: own_type_lines_def)
  qed (simp_all add: own_type_lines_def struct interface)
qed

lemma recvBase_forget [simp]: "recvBase (map_option forget_recv r) = recvBase r"
  by (auto simp: recvBase_def forget_recv_def split: option.split list.split)

lemma fd_Recv_forget [simp]: "fd_Recv (forget_fd d) = map_option forget_recv (fd_Recv d)"
  by (simp add: forget_fd_def)

lemma method_text_forget [simp]:
  "method_text (forget_tools T) (forget_scope s) owner (forget_fd d) = method_text T s owner d"
proof (cases "fd_Recv d")
  case None
  then show ?thesis by (simp add: method_text_def)
next
  case (Some fs)
  then show ?thesis
    by (cases fs) (auto simp: method_text_def forget_recv_def Let_def split: prod.split)
qed

lemma methodsOf_forget [simp]:
  "methodsOf (forget_tools T) (forget_scope s) owner name = methodsOf T s owner name"
proof -
  have "method_line (forget_tools T) (forget_scope s) owner name (forget_file f) (forget_decl d) =
      method_line T s owner name f d" for f d
    by (cases d) (simp_all add: method_line_def flip: forget_scope_file)
  then show ?thesis by (simp add: methodsOf_def o_def)
qed

lemma typeLines_forget [forgets]:
  "typeLines (forget_tools T) (forget_mod m) (forget_scope s) owner (forget_ts ts) depth =
     map_prod id forget_mod (typeLines T m s owner ts depth)"
proof (induction T m s owner ts depth rule: typeLines.induct)
  case (1 T m s owner ts depth)
  let ?s = "withTypeParams (ts_TypeParams ts) s"
  obtain r m' where r: "resolveType T m ?s (ts_Type ts) = (r, m')" by (cases "resolveType T m ?s (ts_Type ts)")
  show ?case
  proof (cases "ts_Assign ts \<and> r \<noteq> None")
    case False
    then show ?thesis using r
      by (cases r) (simp_all add: typeLines.simps [of _ _ _ _ _ depth] forgets Let_def)
  next
    case True
    then obtain target spec where ts: "r = Some (target, spec)" by auto
    have IH: "depth < maxFollow \<and> ts_TypeParams spec = [] \<Longrightarrow>
        typeLines (forget_tools T) (forget_mod m') (forget_scope target) owner (forget_ts spec) (depth + 1) =
          map_prod id forget_mod (typeLines T m' target owner spec (depth + 1))"
      using "1.IH" [OF refl refl refl _ r [symmetric] ts refl] True by blast
    show ?thesis using r ts True IH
      by (simp add: typeLines.simps [of _ _ _ _ _ depth] forgets Let_def split: prod.split)
  qed
qed

lemma collect_map:
  assumes "\<And>m x. g' (h m) (k x) = map_prod id h (g m x)"
  shows "collect g' (h m) (map k xs) = map_prod id h (collect g m xs)"
  using assms by (induction xs arbitrary: m) (simp_all split: prod.split)

lemma decl_lines_forget:
  "decl_lines (forget_tools T) (forget_scope s) q (forget_mod m) (forget_decl d) =
     map_prod id forget_mod (decl_lines T s q m d)"
proof (cases d)
  case (FuncDecl fd)
  have "funcDecl (forget_tools T) (forget_scope s) q (forget_fd fd) = funcDecl T s q fd"
  proof (cases "fd_Recv fd")
    case None
    then show ?thesis by (simp add: funcDecl_def Let_def)
  next
    case (Some r)
    then show ?thesis using recvBase_forget [of "fd_Recv fd"]
      by (simp add: funcDecl_def Let_def split: option.split)
  qed
  then show ?thesis using FuncDecl by (simp add: decl_lines_def)
next
  case (TypeDecl specs)
  then show ?thesis
    by (auto simp: decl_lines_def genDecl_def Let_def forgets intro!: collect_map)
next
  case (ConstDecl specs)
  then show ?thesis
    by (auto simp: decl_lines_def genDecl_def Let_def forgets intro!: collect_map split: prod.split)
next
  case (VarDecl specs)
  then show ?thesis
    by (auto simp: decl_lines_def genDecl_def Let_def forgets intro!: collect_map split: prod.split)
next
  case ImportDecl
  then show ?thesis by (simp add: decl_lines_def genDecl_def)
qed

lemma listPackage_forget [forgets]:
  "listPackage (forget_tools T) (forget_mod m) (forget_pkg p) = map_prod id forget_mod (listPackage T m p)"
proof -
  have "collect (decl_lines (forget_tools T)
        \<lparr>qual = [], tparams = [], sc_p = forget_pkg p, sc_file = Some (forget_file f)\<rparr> q)
        (forget_mod m) (map forget_decl (f_Decls f)) =
      map_prod id forget_mod
        (collect (decl_lines T \<lparr>qual = [], tparams = [], sc_p = p, sc_file = Some f\<rparr> q) m (f_Decls f))"
    for m f q
  proof (rule collect_map)
    fix m d
    show "decl_lines (forget_tools T)
        \<lparr>qual = [], tparams = [], sc_p = forget_pkg p, sc_file = Some (forget_file f)\<rparr> q (forget_mod m) (forget_decl d) =
      map_prod id forget_mod
        (decl_lines T \<lparr>qual = [], tparams = [], sc_p = p, sc_file = Some f\<rparr> q m d)"
      using decl_lines_forget [of T "\<lparr>qual = [], tparams = [], sc_p = p, sc_file = Some f\<rparr>" q m d]
      by (simp add: forget_scope_def)
  qed
  then show ?thesis by (auto simp: listPackage_def intro!: collect_map)
qed

lemma list_paths_forget:
  "list_paths (forget_tools T) (forget_mod m) paths = list_paths T m paths"
proof (induction paths arbitrary: m)
  case (Cons path paths)
  then show ?case
    by (auto simp: map_of_map forgets split: option.split prod.split)
qed simp

lemma load_unparsed:
  assumes "load modPath listing = Inr m"
  shows "forget_mod m = m"
proof -
  have keep: "map (\<lambda>(k, p). (k, forget_pkg p)) xs = xs"
    if "decode_pkgs ps ys = Inr xs" "map (\<lambda>(k, p). (k, forget_pkg p)) ys = ys" for ps ys xs
    using that
  proof (induction ps ys rule: decode_pkgs.induct)
    case (3 p xs ps)
    have fp: "forget_pkg (p\<lparr>files := []\<rparr>) = p\<lparr>files := []\<rparr>" by (simp add: forget_pkg_def)
    have "map (\<lambda>(k, p). (k, forget_pkg p)) (AList.update (ImportPath p) (p\<lparr>files := []\<rparr>) ps) =
        AList.update (ImportPath p) (p\<lparr>files := []\<rparr>) ps"
      using update_forget [of "ImportPath p" "p\<lparr>files := []\<rparr>" ps] by (simp only: fp 3(3))
    then show ?case using 3 by simp
  qed auto
  show ?thesis
    using assms keep [of _ "[]"]
    by (auto simp: load_def forget_mod_def split: sum.splits)
qed



subsection \<open>Unexported declarations\<close>

text \<open>A package without what it does not export: functions, methods of an unexported name or type,
  types, and vars none of whose names is exported. A const block keeps its unexported names,
  because they count towards iota.\<close>

definition public_func :: "printer \<Rightarrow> func_decl \<Rightarrow> bool" where
  "public_func P d =
     (IsExported P (fd_Name d) \<and>
      (case fd_Recv d of
         None \<Rightarrow> True
       | Some r \<Rightarrow> (case recvBase (Some r) of Some b \<Rightarrow> IsExported P b | None \<Rightarrow> False)))"

fun public_decls :: "printer \<Rightarrow> decl \<Rightarrow> decl list" where
  "public_decls P (FuncDecl d) = (if public_func P d then [FuncDecl d] else [])"
| "public_decls P (TypeDecl ss) = [TypeDecl (filter (\<lambda>ts. IsExported P (ts_Name ts)) ss)]"
| "public_decls P (ConstDecl ss) = [ConstDecl ss]"
| "public_decls P (VarDecl ss) = [VarDecl (filter (\<lambda>vs. list_ex (IsExported P) (vs_Names vs)) ss)]"
| "public_decls P ImportDecl = []"

definition public_file :: "printer \<Rightarrow> go_file \<Rightarrow> go_file" where
  "public_file P f = f\<lparr>f_Decls := concat (map (public_decls P) (f_Decls f))\<rparr>"

definition public_pkg :: "printer \<Rightarrow> pkg \<Rightarrow> pkg" where
  "public_pkg P p = p\<lparr>files := map (public_file P) (files p)\<rparr>"

text \<open>Of the package and file it stands in, a line depends on the file's imports alone.\<close>

definition same_view :: "scope \<Rightarrow> scope \<Rightarrow> bool" where
  "same_view s s' \<longleftrightarrow> nm s = nm s' \<and> map_option f_Imports (sc_file s) = map_option f_Imports (sc_file s')"

lemma view_names: "same_view s s' \<Longrightarrow> nm s = nm s'"
  by (simp add: same_view_def)

lemma resolveSelector_view: "same_view s s' \<Longrightarrow> resolveSelector T m s = resolveSelector T m s'"
  by (intro ext) (auto simp: same_view_def resolveSelector_def split: option.split expr.split)

lemma resolveType_view: "same_view s s' \<Longrightarrow> resolveType T m s = resolveType T m s'"
  by (intro ext) (simp add: resolveType_def resolveSelector_view [of s s'])

lemma suffix_view:
  assumes "same_view s s'"
  shows "type_suffix T s = type_suffix T s'" "own_const_suffix T s = own_const_suffix T s'"
    "value_suffix T s = value_suffix T s'"
  unfolding own_const_suffix_def [abs_def] value_suffix_def [abs_def] type_suffix_def [abs_def] view_names [OF assms]
  by (rule refl)+

lemma constSuffix_view: "same_view s s' \<Longrightarrow> constSuffix T m s = constSuffix T m s'"
  by (intro ext, unfold constSuffix.simps [of _ _ s] constSuffix.simps [of _ _ s']
      resolveSelector_view [of s s'] suffix_view [of s s']) (rule refl)

lemma varSuffix_view: "same_view s s' \<Longrightarrow> varSuffix T m s = varSuffix T m s'"
  by (intro ext, unfold varSuffix.simps [of _ _ s] varSuffix.simps [of _ _ s']
      resolveSelector_view [of s s'] suffix_view [of s s']) (rule refl)

lemma withTypeParams_view: "same_view s s' \<Longrightarrow> same_view (withTypeParams tps s) (withTypeParams tps s')"
  by (cases s; cases s') (simp add: same_view_def withTypeParams_def names.truncate_def)

lemma own_type_lines_view: "same_view s s' \<Longrightarrow> own_type_lines T s = own_type_lines T s'"
  by (intro ext, unfold own_type_lines_def struct_lines_def [abs_def] interface_lines_def [abs_def]
      view_names [of s s']) (rule refl)

lemma typeLines_view: "same_view s s' \<Longrightarrow> typeLines T m s = typeLines T m s'"
proof (intro ext)
  fix owner depth and ts :: type_spec
  assume "same_view s s'"
  then have w: "same_view (withTypeParams (ts_TypeParams ts) s) (withTypeParams (ts_TypeParams ts) s')"
    by (rule withTypeParams_view)
  show "typeLines T m s owner ts depth = typeLines T m s' owner ts depth"
    unfolding typeLines.simps [of _ _ s] typeLines.simps [of _ _ s'] Let_def resolveType_view [OF w]
      own_type_lines_view [OF w] view_names [OF w]
    by (rule refl)
qed

lemma funcDecl_view: "same_view s s' \<Longrightarrow> funcDecl T s q d = funcDecl T s' q d"
proof -
  assume v: "same_view s s'"
  have "nm (withTypeParams tps s) = nm (withTypeParams tps s')" for tps
    by (rule view_names [OF withTypeParams_view [OF v]])
  then show ?thesis using view_names [OF v]
    by (auto simp: funcDecl_def method_text_def Let_def split: option.split list.split prod.split)
qed

lemma decl_lines_view: "same_view s s' \<Longrightarrow> decl_lines T s q m d = decl_lines T s' q m d"
  unfolding decl_lines_def genDecl_def
  by (simp only: funcDecl_view [of s s'] typeLines_view [of s s'] constSuffix_view [of s s'] varSuffix_view [of s s']
      cong: decl.case_cong)

lemma collect_append:
  "collect g m (xs @ ys) =
     (case collect g m xs of (ls, m') \<Rightarrow> (case collect g m' ys of (rest, m'') \<Rightarrow> (ls @ rest, m'')))"
  by (induction xs arbitrary: m) (simp_all split: prod.split)

lemma collect_filter: "(\<And>m x. \<not> Q x \<Longrightarrow> g m x = ([], m)) \<Longrightarrow> collect g m (filter Q xs) = collect g m xs"
  by (induction xs arbitrary: m) (simp_all split: prod.split)

lemma collect_silent: "(\<And>m x. x \<in> set xs \<Longrightarrow> g m x = ([], m)) \<Longrightarrow> collect g m xs = ([], m)"
  by (induction xs) simp_all

lemma collect_cong: "(\<And>m x. x \<in> set xs \<Longrightarrow> g m x = g' m x) \<Longrightarrow> collect g m xs = collect g' m xs"
  by (induction xs arbitrary: m) (simp_all split: prod.split)

lemma collect_map_eq: "(\<And>m x. g m (h x) = g' m x) \<Longrightarrow> collect g m (map h xs) = collect g' m xs"
  by (induction xs arbitrary: m) (simp_all split: prod.split)

lemma collect_public_vars:
  assumes "\<And>m x. \<not> IsExported P (fst x) \<Longrightarrow> g m x = ([], m)"
  shows "collect g m (named_vars (filter (\<lambda>vs. list_ex (IsExported P) (vs_Names vs)) ss)) = collect g m (named_vars ss)"
proof (induction ss arbitrary: m)
  case (Cons vs ss)
  have "collect g m (map (\<lambda>(j, n). (n, vs, j)) (enumerate 0 (vs_Names vs))) = ([], m)"
    if "\<not> list_ex (IsExported P) (vs_Names vs)" for m
    using that assms by (intro collect_silent) (auto simp: list_ex_iff in_set_enumerate_eq)
  then show ?case using Cons by (simp add: named_vars_def collect_append)
qed (simp add: named_vars_def)

lemma public_decl_lines:
  "collect (decl_lines T s q) m (public_decls (to_Printer T) d) = decl_lines T s q m d"
proof (cases d)
  case (FuncDecl fd)
  have "funcDecl T s q fd = []" if "\<not> public_func (to_Printer T) fd"
    using that by (auto simp: public_func_def funcDecl_def Let_def split: option.split)
  then show ?thesis using FuncDecl by (simp add: decl_lines_def)
next
  case (TypeDecl ss)
  have "collect (decl_lines T s q) m [TypeDecl (filter (\<lambda>ts. IsExported (to_Printer T) (ts_Name ts)) ss)] =
      decl_lines T s q m (TypeDecl ss)"
    by (simp add: decl_lines_def genDecl_def Let_def collect_filter split: prod.split)
  then show ?thesis using TypeDecl by simp
next
  case (VarDecl ss)
  then show ?thesis
    by (simp add: decl_lines_def genDecl_def Let_def collect_public_vars split_def)
qed (simp_all add: decl_lines_def genDecl_def Let_def split: prod.split)

lemma public_file_lines:
  "collect (decl_lines T s q) m (concat (map (public_decls (to_Printer T)) ds)) = collect (decl_lines T s q) m ds"
  by (induction ds arbitrary: m) (simp_all add: collect_append public_decl_lines)

text \<open>C24: What a package does not export contributes no line and moves none: the package lists the
  same after every unexported function, method, type and var is removed.\<close>

theorem unexported_moves_nothing:
  "listPackage T m (public_pkg (to_Printer T) p) = listPackage T m p"
proof -
  let ?s = "\<lambda>f p. \<lparr>qual = [], tparams = [], sc_p = p, sc_file = Some f\<rparr>"
  let ?pub = "public_file (to_Printer T)"
  have decls: "collect (decl_lines T (?s (?pub f) (public_pkg (to_Printer T) p)) q) m (f_Decls (?pub f)) =
      collect (decl_lines T (?s f p) q) m (f_Decls f)" for q m f
  proof -
    have v: "same_view (?s (?pub f) (public_pkg (to_Printer T) p)) (?s f p)"
      by (simp add: same_view_def public_file_def names.truncate_def)
    have "collect (decl_lines T (?s (?pub f) (public_pkg (to_Printer T) p)) q) m xs = collect (decl_lines T (?s f p) q) m xs"
      for xs
      by (rule collect_cong) (rule decl_lines_view [OF v])
    moreover have "f_Decls (?pub f) = concat (map (public_decls (to_Printer T)) (f_Decls f))"
      by (simp add: public_file_def)
    ultimately show ?thesis by (simp only: public_file_lines)
  qed
  have "lineQual m' (public_pkg (to_Printer T) p) = lineQual m' p" for m'
    by (simp add: lineQual_def public_pkg_def)
  moreover have "files (public_pkg (to_Printer T) p) = map ?pub (files p)"
    by (simp add: public_pkg_def)
  ultimately show ?thesis
    unfolding listPackage_def by (simp only:) (rule collect_map_eq, rule decls)
qed

subsection \<open>A parse error that is not reported\<close>

text \<open>parse keeps the files it read before an error, and resolveSelector drops the error. A package
  reached by an alias before its own turn is then taken for parsed: its files up to the error are
  listed, the others are not, and no error is reported.\<close>

definition broken_tools :: tools where
  "broken_tools =
     \<lparr>to_Parse = (\<lambda>n.
        if n = ''d/m.go'' then
          Inr \<lparr>f_Imports = [\<lparr>imp_Name = None, imp_Path = Some ''m/z''\<rparr>],
               f_Decls = [TypeDecl [\<lparr>ts_Name = ''T'', ts_TypeParams = [], ts_Assign = True,
                                    ts_Type = SelectorExpr (Ident ''z'') ''B''\<rparr>]]\<rparr>
        else if n = ''d/z/a.go'' then
          Inr \<lparr>f_Imports = [],
               f_Decls = [TypeDecl [\<lparr>ts_Name = ''A'', ts_TypeParams = [], ts_Assign = False, ts_Type = Ident ''int''\<rparr>]]\<rparr>
        else Inl ''z/b.go: expected declaration''),
      to_Printer = \<lparr>pr_Fprint = (\<lambda>e. case e of SelectorExpr (Ident x) n \<Rightarrow> Inr (x @ ''.'' @ n) | _ \<Rightarrow> Inl ''?''), pr_Upper = (\<lambda>_. False)\<rparr>\<rparr>"

definition broken_listing :: "string list \<Rightarrow> (string + pkg) list" where
  "broken_listing first =
     [Inr \<lparr>ImportPath = ''m'', Name = ''m'', Dir = ''d'', GoFiles = first, CgoFiles = [], files = []\<rparr>,
      Inr \<lparr>ImportPath = ''m/z'', Name = ''z'', Dir = ''d/z'', GoFiles = [''a.go'', ''b.go''], CgoFiles = [], files = []\<rparr>]"

lemma parse_error_reported:
  "Surface broken_tools (Inr ''m'') (Inr (broken_listing [])) ''.'' = Inl ''z/b.go: expected declaration''"
  by code_simp

lemma parse_error_dropped:
  "Surface broken_tools (Inr ''m'') (Inr (broken_listing [''m.go''])) ''.'' =
     Inr [''type m.T = z.B'', ''type z.A int'']"
  by code_simp

end
