(* ===== verification/Spec2Isabelle.thy ===== *)
theory Spec2Isabelle
  imports Rounding MarketData Socket Rest Resume Stream Credentials Lane PlaceCancel Smoke Weights Surface
begin

text \<open>
  A verification library for the Nexus Exchange Go SDK.

  The program. A client (package nexus) sends signed REST requests through one transport
  (internal/transport), which paces itself on the server's budgets, retries reads and never
  retries a mutation, and reads two WebSockets through one reconnecting socket (socket.go):
  the public market-data stream (stream.go) and the account subscription (ws.go), which
  resumes each channel from a cursor. Values are exact decimals (internal/models/decimal.go)
  and generated structs (internal/models).

  Theories, lowest first.
    Prelude: strings, integers at their width, durations, the codec locales.
    GoRegexp, Decimal, Rounding: models/decimal.go and rounding.go.
    Json, JsonPrint, JsonTyped, GoTypes, Models: encoding/json (lexer, parser, printer, typed
      decoding), the struct and enum models of models.gen.go, account_fees.go, market.go.
    ModelMethods: the accessors, setters and mergers models.gen.go declares beside its types.
    GoTime, ApiError: errors.go and version.go of internal/transport.
    Float64, RateLimit: ratelimit.go and weights.gen.go.
    Url, Sha256, Signing: url escaping, the hash, and hmac.go, eth.go, agent.go.
    Transport: transport.go, page.go, ws.go of internal/transport, as functions on a world
      (clock, random draws, network log, budgets) over an environment.
    Pagination, MarketData: pagination.go and market.go.
    Rest: the methods of market.go, orders.go, account.go, funds.go, positions.go and admin.go, each
      as the one call it makes, and the function that performs a call on the transport.
    Client: client.go, network.go, wallet.go, auth.go, session.go and agents.go: NewClient with its
      options, the networks, the secrets and what each prints as.
    Credentials: a client in use: a request signed by a session, wallet, agent, key or admin secret,
      with the renewal of sessions and the registration and revocation of agents.
    Conformance, Lane: internal/conformance: the schema checker (check.go), and the reader of the
      specification, the recorder, the verdict and the printed report (spec.go, run.go).
    Socket: socket.go, as the atomic sections of many sockets of one process.
    Subscription, Resume: ws.go, and its composition with the server it documents.
    Stream: stream.go.
    Bot, PlaceCancel: examples/bot/main.go, the quoter and all it decides to send, and the run of
      examples/placecancel/main.go.
    Smoke: scripts/release_gate/smoke/main.go, the verdict of one read.
    Weights: internal/transport/genweights, which writes weights.gen.go.
    GoAst, Surface: scripts/release_gate/surface: go/ast trees with the printer of types, and the
      listing of a module's public API (surface.go).

  State and operations. A Go struct is a record with the source's fields, a method a function
  that returns the changed record, an error a value of go_error, json_error or socket_error.
  Loops that may not end (pagination, history) are partial functions into option, and that
  they return is proved; the retry loop recurses on the number of retries left. Everything
  concurrent is an interleaving of atomic sections: what a goroutine does while it holds the
  mutex is one action.

  Parameters. secp256k1, keccak and typed-data hashing (the record eth_lib), nullable.Nullable
  (nullable_lib), runtime.JSONMerge (merger), the parsed packages and the printer of expressions
  the listing works on (tools) and the network (env) are arguments, with their documented
  behaviour as named hypotheses where a property needs it; each such property has a witness on
  concrete functions.

  What the lemmas show. Decimals and rounding are exact and on the safe side. Every API value
  survives its JSON form, and a union gives back what was put in. Error bodies lose nothing. Budgets are never exceeded and a block is
  never lifted. Signed requests verify on a server that follows the scheme, and a signature
  binds every part of the request. A mutation is sent at most once, a read is retried only
  after a transient answer. Iterators hand over every item of every page, once. At most five
  streams are open, a closed one stays closed, reconnects back off within their bounds, and a
  subscribed channel loses no event without an OutOfSync. Every REST method reaches its own
  route, whatever its arguments. NewClient accepts exactly a known network with at most one
  usable credential, and a Mainnet client sends nothing. A session is never used within its
  margin of expiry, and what a client registers or revokes is what the exchange verifies. The
  checker reports no error exactly for the values of a schema, and a run passes only when every
  operation that could be measured was. The bot's quotes are outside the best prices, old ones are
  cancelled before new ones are placed, a run that quoted ends with a shutdown, and shutdown
  confirms that nothing rests. The smoke test's three outcomes are kept apart. The committed
  weights are what the generator writes from the specification. Renaming a parameter or changing
  something unexported moves no line of the API listing; lemma parse_error_dropped shows that a
  file that does not parse can go unreported. Resume assumes that the server
  replays before it acknowledges; lemma ack_before_replay_loses shows what happens otherwise.

  Fuel. The schema checker takes a number of steps, because a schema may be one of its own oneOf
  branches and the source's walk then never ends (lemma looping_walk); theorem Check_returns
  gives the steps that are enough for a schema whose references are ranked. The listing follows
  at most maxFollow aliases, the source's own bound, so it ends on every module.

  Not modelled. DepositResponse.MarshalJSON, which the SDK never calls and which prints float64
  numbers; of the examples main with its flags, the bot's two reader goroutines and the
  marketdata example, and the command around the listing, which are flags, environment, files and
  log lines around calls of the parts above; http.Client options, which belong to the
  environment; formatting of values for printing, TLS and HTTP framing, the context package
  beyond being done or not, and the goroutine scheduler beyond interleaving.
\<close>

end
